(* ===== verification/AB_Prelude.thy ===== *)
theory AB_Prelude
  imports Main "HOL-Library.Word"
begin

text \<open>
  Shared vocabulary of the development.  The monitor is an i386 program, so every
  pointer, \<^verbatim>\<open>size_t\<close> and \<^verbatim>\<open>unsigned long\<close> is a 32-bit word and \<^verbatim>\<open>NULL\<close> is 0.
  A C function becomes a HOL function into \<open>'a res\<close>: \<open>None\<close> is a call that never
  returns (an endless pointer loop), \<open>Some (Inl e)\<close> a call that kills the process
  (failed \<^verbatim>\<open>assert\<close>, \<^verbatim>\<open>abort\<close>, access through a wild pointer, self-deadlock on a
  mutex, an index outside its array), \<open>Some (Inr x)\<close> a normal return.  \<open>('s, 'a) st\<close> is
  the type of calls that also read and change a state of type \<open>'s\<close>.
\<close>

unbundle bit_operations_syntax

section \<open>Machine types\<close>

type_synonym byte = "8 word"
type_synonym word32 = "32 word"
type_synonym addr = "32 word"
type_synonym pid = "32 word"

section \<open>Outcomes of C calls\<close>

datatype cerr =
    Assert_failed   \<comment> \<open>\<^verbatim>\<open>assert(...)\<close> does not hold\<close>
  | Aborted         \<comment> \<open>\<^verbatim>\<open>abort()\<close>\<close>
  | Segv            \<comment> \<open>access through NULL or a dead pointer\<close>
  | Deadlock        \<comment> \<open>\<^verbatim>\<open>pthread_mutex_lock\<close> on a mutex the caller already holds\<close>
  | Undef           \<comment> \<open>undefined behaviour: an index outside its array\<close>

type_synonym 'a res = "(cerr + 'a) option"

definition ret :: "'a \<Rightarrow> 'a res" where
  "ret x = Some (Inr x)"

definition fail :: "cerr \<Rightarrow> 'a res" where
  "fail e = Some (Inl e)"

definition bnd :: "'a res \<Rightarrow> ('a \<Rightarrow> 'b res) \<Rightarrow> 'b res" where
  "bnd m f = Option.bind m (\<lambda>r. case r of Inl e \<Rightarrow> Some (Inl e) | Inr x \<Rightarrow> f x)"

definition guard :: "cerr \<Rightarrow> bool \<Rightarrow> unit res" where
  "guard e b = (if b then ret () else fail e)"

definition deref :: "('k \<rightharpoonup> 'v) \<Rightarrow> 'k \<Rightarrow> 'v res" where
  "deref h p = (case h p of None \<Rightarrow> fail Segv | Some v \<Rightarrow> ret v)"

named_theorems res_simps \<open>rewriting of outcomes\<close>

lemma bnd_ret [simp, res_simps]: "bnd (ret x) f = f x"
  by (simp add: bnd_def ret_def)

lemma bnd_fail [simp, res_simps]: "bnd (fail e) f = fail e"
  by (simp add: bnd_def fail_def)

lemma bnd_None [simp, res_simps]: "bnd None f = None"
  by (simp add: bnd_def)

lemma bnd_Some_Inr [simp]: "bnd (Some (Inr x)) f = f x"
  by (simp add: bnd_def)

lemma ret_eq_iff [simp, res_simps]: "ret x = ret y \<longleftrightarrow> x = y"
  by (simp add: ret_def)

lemma fail_eq_iff [simp, res_simps]: "fail x = fail y \<longleftrightarrow> x = y"
  by (simp add: fail_def)

lemma ret_neq [simp, res_simps]:
  "ret x \<noteq> fail e" "fail e \<noteq> ret x" "ret x \<noteq> None" "None \<noteq> ret x"
  "fail e \<noteq> None" "None \<noteq> fail e"
  by (simp_all add: ret_def fail_def)

lemma res_cases [case_names diverge fail ret]:
  obtains "r = None" | e where "r = fail e" | x where "r = ret x"
  by (cases r; cases "the r") (auto simp: ret_def fail_def)

lemma bnd_eq_ret [res_simps]: "bnd m f = ret y \<longleftrightarrow> (\<exists>x. m = ret x \<and> f x = ret y)"
  by (cases m rule: res_cases) auto

lemma bnd_eq_fail: "bnd m f = fail e \<longleftrightarrow> m = fail e \<or> (\<exists>x. m = ret x \<and> f x = fail e)"
  by (cases m rule: res_cases) auto

lemma bnd_retE [elim]:
  assumes "bnd m f = ret y"
  obtains x where "m = ret x" "f x = ret y"
  using assms by (auto simp: bnd_eq_ret)

lemma bnd_assoc: "bnd (bnd m f) g = bnd m (\<lambda>x. bnd (f x) g)"
  by (cases m rule: res_cases) auto

lemma guard_simps [simp, res_simps]: "guard e True = ret ()" "guard e False = fail e"
  by (simp_all add: guard_def)

lemma guard_eq_ret [simp]: "guard e b = ret u \<longleftrightarrow> b"
  by (simp add: guard_def)

lemma deref_Some [simp, res_simps]: "h p = Some v \<Longrightarrow> deref h p = ret v"
  by (simp add: deref_def)

lemma deref_None [simp, res_simps]: "h p = None \<Longrightarrow> deref h p = fail Segv"
  by (simp add: deref_def)

lemma deref_eq_ret [simp]: "deref h p = ret v \<longleftrightarrow> h p = Some v"
  by (auto simp: deref_def split: option.splits)

lemma bnd_mono [partial_function_mono]:
  assumes B: "mono_option B" and C: "\<And>y. mono_option (C y)"
  shows "mono_option (\<lambda>f. bnd (B f) (\<lambda>y. C y f))"
  unfolding bnd_def
proof (rule bind_mono [OF B])
  fix r
  show "mono_option (\<lambda>f. case r of Inl e \<Rightarrow> Some (Inl e) | Inr x \<Rightarrow> C x f)"
    by (cases r) (auto intro: C option.const_mono)
qed

section \<open>Calls on a state\<close>

type_synonym ('s, 'a) st = "'s \<Rightarrow> ('a \<times> 's) res"

definition sret :: "'a \<Rightarrow> ('s, 'a) st" where
  "sret x s = ret (x, s)"

definition sfail :: "cerr \<Rightarrow> ('s, 'a) st" where
  "sfail e s = fail e"

definition sb :: "('s, 'a) st \<Rightarrow> ('a \<Rightarrow> ('s, 'b) st) \<Rightarrow> ('s, 'b) st" where
  "sb m f s = bnd (m s) (\<lambda>(x, s'). f x s')"

definition sguard :: "cerr \<Rightarrow> bool \<Rightarrow> ('s, unit) st" where
  "sguard e b s = (if b then ret ((), s) else fail e)"

definition gets :: "('s \<Rightarrow> 'a) \<Rightarrow> ('s, 'a) st" where
  "gets f s = ret (f s, s)"

definition modify :: "('s \<Rightarrow> 's) \<Rightarrow> ('s, unit) st" where
  "modify f s = ret ((), f s)"

definition lift_res :: "'a res \<Rightarrow> ('s, 'a) st" where
  "lift_res r s = bnd r (\<lambda>x. ret (x, s))"

definition swhen :: "bool \<Rightarrow> ('s, unit) st \<Rightarrow> ('s, unit) st" where
  "swhen b m = (if b then m else sret ())"

named_theorems st_simps \<open>symbolic execution of calls on a state\<close>

lemma sret_app [simp, st_simps]: "sret x s = ret (x, s)"
  by (simp add: sret_def)

lemma sfail_app [simp, st_simps]: "sfail e s = fail e"
  by (simp add: sfail_def)

lemma gets_app [simp, st_simps]: "gets f s = ret (f s, s)"
  by (simp add: gets_def)

lemma modify_app [simp, st_simps]: "modify f s = ret ((), f s)"
  by (simp add: modify_def)

lemma sguard_app [simp, st_simps]: "sguard e True s = ret ((), s)" "sguard e False s = fail e"
  by (simp_all add: sguard_def)

lemma lift_res_app [simp, st_simps]:
  "lift_res (ret x) s = ret (x, s)" "lift_res (fail e) s = fail e" "lift_res None s = None"
  by (simp_all add: lift_res_def)

lemma swhen_simps [simp, st_simps]: "swhen True m = m" "swhen False m = sret ()"
  by (simp_all add: swhen_def)

lemma sb_ret: "m s = ret (x, s') \<Longrightarrow> sb m f s = f x s'"
  by (simp add: sb_def)

lemma sb_fail: "m s = fail e \<Longrightarrow> sb m f s = fail e"
  by (simp add: sb_def)

lemma sb_eq_ret: "sb m f s = ret y \<longleftrightarrow> (\<exists>x s'. m s = ret (x, s') \<and> f x s' = ret y)"
  by (auto simp: sb_def bnd_eq_ret)

lemma sb_retE [elim]:
  assumes "sb m f s = ret y"
  obtains x s' where "m s = ret (x, s')" "f x s' = ret y"
  using assms by (auto simp: sb_eq_ret)

lemma sb_assoc: "sb (sb m f) g s = sb m (\<lambda>x. sb (f x) g) s"
  by (cases "m s" rule: res_cases) (auto simp: sb_def)

lemma sb_sret [simp, st_simps]: "sb (sret x) f s = f x s"
  by (simp add: sb_def)

lemma sb_sfail [simp, st_simps]: "sb (sfail e) f s = fail e"
  by (simp add: sb_def)

lemma sb_gets [simp, st_simps]: "sb (gets h) f s = f (h s) s"
  by (simp add: sb_def)

lemma sb_modify [simp, st_simps]: "sb (modify u) f s = f () (u s)"
  by (simp add: sb_def)

lemma sb_sguard [simp, st_simps]:
  "sb (sguard e True) f s = f () s" "sb (sguard e False) f s = fail e"
  by (simp_all add: sb_def)

lemma sb_mono [partial_function_mono]:
  assumes B: "\<And>s. mono_option (\<lambda>f. B f s)" and C: "\<And>x s. mono_option (\<lambda>f. C x f s)"
  shows "mono_option (\<lambda>f. sb (B f) (\<lambda>x. C x f) s)"
  unfolding sb_def
  by (rule bnd_mono [OF B]) (auto intro: C simp: case_prod_beta)

lemma if_app_mono [partial_function_mono]:
  assumes "mono_option (\<lambda>f. A f s)" and "mono_option (\<lambda>f. B f s)"
  shows "mono_option (\<lambda>f. (if b then A f else B f) s)"
  using assms by (cases b) auto

lemma case_option_app_mono [partial_function_mono]:
  assumes "mono_option (\<lambda>f. A f s)" and "\<And>x. mono_option (\<lambda>f. B x f s)"
  shows "mono_option (\<lambda>f. (case r of None \<Rightarrow> A f | Some x \<Rightarrow> B x f) s)"
  using assms by (cases r) auto

lemma case_prod_app_mono [partial_function_mono]:
  assumes "\<And>x y. mono_option (\<lambda>f. B x y f s)"
  shows "mono_option (\<lambda>f. (case p of (x, y) \<Rightarrow> B x y f) s)"
  using assms by (cases p) auto

lemma swhen_mono [partial_function_mono]:
  assumes "\<And>s. mono_option (\<lambda>f. B f s)"
  shows "mono_option (\<lambda>f. swhen b (B f) s)"
  unfolding swhen_def using assms by (cases b) (auto intro: option.const_mono)

section \<open>Relations kept by calls\<close>

text \<open>
  \<open>keeps R m\<close>: whenever \<open>m\<close> returns, its initial and final state are related by \<open>R\<close>.
  For a preorder \<open>R\<close> the relation is kept by whole programs if their primitive steps
  keep it.
\<close>

definition keeps :: "('s \<Rightarrow> 's \<Rightarrow> bool) \<Rightarrow> ('s, 'a) st \<Rightarrow> bool" where
  "keeps R m \<longleftrightarrow> (\<forall>s x s'. m s = ret (x, s') \<longrightarrow> R s s')"

lemma keepsI: "(\<And>s x s'. m s = ret (x, s') \<Longrightarrow> R s s') \<Longrightarrow> keeps R m"
  by (simp add: keeps_def)

lemma keepsD: "keeps R m \<Longrightarrow> m s = ret (x, s') \<Longrightarrow> R s s'"
  by (simp add: keeps_def)

locale state_frame =
  fixes R :: "'s \<Rightarrow> 's \<Rightarrow> bool"
  assumes refl_R: "R s s" and trans_R: "R s t \<Longrightarrow> R t u \<Longrightarrow> R s u"
begin

lemma keeps_sret [intro]: "keeps R (sret x)"
  by (auto simp: keeps_def intro: refl_R)

lemma keeps_sfail [intro]: "keeps R (sfail e)"
  by (auto simp: keeps_def)

lemma keeps_gets [intro]: "keeps R (gets f)"
  by (auto simp: keeps_def intro: refl_R)

lemma keeps_sguard [intro]: "keeps R (sguard e b)"
  by (cases b) (auto simp: keeps_def intro: refl_R)

lemma keeps_lift_res [intro]: "keeps R (lift_res r)"
  by (auto simp: keeps_def lift_res_def bnd_eq_ret intro: refl_R)

lemma keeps_modify: "(\<And>s. R s (f s)) \<Longrightarrow> keeps R (modify f)"
  by (auto simp: keeps_def)

lemma keeps_sb: "keeps R m \<Longrightarrow> (\<And>x. keeps R (f x)) \<Longrightarrow> keeps R (sb m f)"
  unfolding keeps_def sb_eq_ret by (blast intro: trans_R)

lemma keeps_if: "(b \<Longrightarrow> keeps R m) \<Longrightarrow> (\<not> b \<Longrightarrow> keeps R n) \<Longrightarrow> keeps R (if b then m else n)"
  by simp

lemma keeps_swhen: "keeps R m \<Longrightarrow> keeps R (swhen b m)"
  by (cases b) (auto intro: keeps_sret)

lemma keeps_case_option:
  "(r = None \<Longrightarrow> keeps R m) \<Longrightarrow> (\<And>x. r = Some x \<Longrightarrow> keeps R (f x)) \<Longrightarrow>
   keeps R (case r of None \<Rightarrow> m | Some x \<Rightarrow> f x)"
  by (cases r) auto

lemma keeps_case_prod: "(\<And>x y. keeps R (f x y)) \<Longrightarrow> keeps R (case p of (x, y) \<Rightarrow> f x y)"
  by (cases p) auto

lemmas keeps_rules = keeps_sret keeps_sfail keeps_gets keeps_sguard keeps_lift_res keeps_sb
  keeps_if keeps_swhen keeps_case_option keeps_case_prod

end

section \<open>Little-endian byte images\<close>

text \<open>
  The program casts between integers and byte arrays (\<^verbatim>\<open>*(uint64_t *)L\<close>, structs cast
  from packet buffers); on i386 the image is little-endian.
\<close>

definition le_bytes :: "nat \<Rightarrow> 'a::len word \<Rightarrow> byte list" where
  "le_bytes n w = map (\<lambda>i. ucast (drop_bit (8 * i) w)) [0..<n]"

fun le_word :: "byte list \<Rightarrow> 'a::len word" where
  "le_word [] = 0"
| "le_word (b # bs) = ucast b OR push_bit 8 (le_word bs)"

lemma length_le_bytes [simp]: "length (le_bytes n w) = n"
  by (simp add: le_bytes_def)

lemma bit_le_word:
  "bit (le_word bs :: 'a::len word) i \<longleftrightarrow>
     i < LENGTH('a) \<and> i div 8 < length bs \<and> bit (bs ! (i div 8)) (i mod 8)"
proof (induction bs arbitrary: i)
  case Nil
  show ?case by simp
next
  case (Cons b bs)
  show ?case
  proof (cases "i < 8")
    case True
    then show ?thesis by (auto simp: bit_simps)
  next
    case False
    then obtain j where j: "i = j + 8" by (metis add.commute le_Suc_ex not_less)
    have "\<not> bit b i" using False by (auto dest: bit_imp_le_length)
    moreover have "(j + 8) div 8 = Suc (j div 8)" "(j + 8) mod 8 = j mod 8" by simp_all
    ultimately show ?thesis using Cons.IH [of j] j by (simp add: bit_simps) auto
  qed
qed

lemma le_word_le_bytes [simp]:
  "LENGTH('a) \<le> 8 * n \<Longrightarrow> le_word (le_bytes n (w :: 'a::len word)) = w"
  by (rule bit_word_eqI) (auto simp: bit_le_word le_bytes_def bit_simps less_mult_imp_div_less ac_simps)

lemma le_bytes_le_word [simp]:
  assumes "8 * length bs \<le> LENGTH('a)" and "n = length bs"
  shows "le_bytes n (le_word bs :: 'a::len word) = bs"
proof (rule nth_equalityI)
  show "length (le_bytes n (le_word bs :: 'a word)) = length bs" using assms by simp
next
  fix i assume "i < length (le_bytes n (le_word bs :: 'a word))"
  then have i: "i < length bs" using assms by simp
  show "le_bytes n (le_word bs :: 'a word) ! i = bs ! i"
  proof (rule bit_word_eqI)
    fix k :: nat assume k: "k < LENGTH(8)"
    have "8 * i + k < LENGTH('a)" using i k assms by simp
    moreover have "(8 * i + k) div 8 = i" "(8 * i + k) mod 8 = k" using k by auto
    ultimately show "bit (le_bytes n (le_word bs :: 'a word) ! i) k = bit (bs ! i) k"
      using i k assms by (simp add: le_bytes_def bit_simps bit_le_word)
  qed
qed

lemma le_word_inject:
  assumes eq: "le_word bs = (le_word cs :: 'a::len word)" and len: "length bs = length cs"
    and fit: "8 * length bs \<le> LENGTH('a)"
  shows "bs = cs"
proof -
  have "bs = le_bytes (length bs) (le_word bs :: 'a word)"
    by (rule le_bytes_le_word [OF fit refl, symmetric])
  also have "\<dots> = cs"
    unfolding eq by (rule le_bytes_le_word) (use len fit in simp_all)
  finally show ?thesis .
qed

end
