(* ===== verification/Label.thy ===== *)
theory Label
  imports AB_Prelude
begin

text \<open>
  Categories, labels and ownership sets (\<^verbatim>\<open>common/include/ab_api.h\<close>) and the label
  checks of \<^verbatim>\<open>monitor/label.c\<close>.  A label or an ownership set is an array of eight
  category bytes, 0 for an empty slot; the top bit of a category tells integrity
  categories from secrecy categories.  The loops of \<open>check_label\<close> are shown to
  decide the set-based flow rule, flows form a preorder, and the category generator
  is characterised up to and beyond its exhaustion.
\<close>

section \<open>Data\<close>

type_synonym cat_t = byte
type_synonym label_t = "cat_t list"
type_synonym own_t = "cat_t list"

definition CAT_S :: cat_t where
  "CAT_S = 0"

definition CAT_I :: cat_t where
  "CAT_I = 0x80"

datatype mem_prot = PROT_N | PROT_R | PROT_RW

text \<open>\<^verbatim>\<open>*(uint64_t *)L\<close> and its inverse.\<close>

definition label_of_u64 :: "64 word \<Rightarrow> label_t" where
  "label_of_u64 w = le_bytes 8 w"

definition u64_of_label :: "label_t \<Rightarrow> 64 word" where
  "u64_of_label L = le_word L"

section \<open>Operations\<close>

definition get_cat_type :: "cat_t \<Rightarrow> cat_t" where
  "get_cat_type cat = cat AND 0x80"

text \<open>The static counter \<^verbatim>\<open>cat_gen\<close> is passed in and returned.\<close>

definition create_cat :: "cat_t \<Rightarrow> byte \<Rightarrow> cat_t \<times> byte" where
  "create_cat t cat_gen =
     (let cat_gen = cat_gen + 1
      in if cat_gen \<ge> 0x80 then (- 1, cat_gen) else (t OR (cat_gen AND 0x7F), cat_gen))"

text \<open>The loop over the slots of \<^verbatim>\<open>O\<close>: the first blank slot takes the category.\<close>

fun add_onwership :: "own_t \<Rightarrow> cat_t \<Rightarrow> cat_t \<times> own_t" where
  "add_onwership [] cat = (0, [])"
| "add_onwership (x # xs) cat =
     (if x \<noteq> 0 then (case add_onwership xs cat of (r, ys) \<Rightarrow> (r, x # ys))
      else (cat, cat # xs))"

text \<open>The inner loops of \<^verbatim>\<open>check_label\<close>: is the category in the array?\<close>

fun scan8 :: "cat_t \<Rightarrow> cat_t list \<Rightarrow> bool" where
  "scan8 c [] = False"
| "scan8 c (x # xs) = (if c = x then True else scan8 c xs)"

fun check_secrecy :: "cat_t list \<Rightarrow> own_t \<Rightarrow> label_t \<Rightarrow> int" where
  "check_secrecy [] O1 L2 = 0"
| "check_secrecy (c # cs) O1 L2 =
     (if c = 0 \<or> get_cat_type c = CAT_I then check_secrecy cs O1 L2
      else if scan8 c O1 then check_secrecy cs O1 L2
      else if scan8 c L2 then check_secrecy cs O1 L2
      else - 1)"

fun check_integrity :: "cat_t list \<Rightarrow> own_t \<Rightarrow> label_t \<Rightarrow> int" where
  "check_integrity [] O1 L1 = 0"
| "check_integrity (c # cs) O1 L1 =
     (if c = 0 \<or> get_cat_type c = CAT_S then check_integrity cs O1 L1
      else if scan8 c O1 then check_integrity cs O1 L1
      else if scan8 c L1 then check_integrity cs O1 L1
      else - 1)"

fun check_capset :: "cat_t list \<Rightarrow> own_t \<Rightarrow> int" where
  "check_capset [] O1 = 0"
| "check_capset (c # cs) O1 =
     (if c = 0 then check_capset cs O1
      else if scan8 c O1 then check_capset cs O1
      else - 1)"

definition check_label :: "label_t \<Rightarrow> own_t \<Rightarrow> label_t \<Rightarrow> own_t option \<Rightarrow> int" where
  "check_label L1 O1 L2 O2 =
     (if check_secrecy L1 O1 L2 = - 1 then - 1
      else if check_integrity L2 O1 L1 = - 1 then - 1
      else (case O2 of None \<Rightarrow> 0
            | Some O2 \<Rightarrow> if check_capset O2 O1 = - 1 then - 1 else 0))"

definition check_mem_prot :: "label_t \<Rightarrow> own_t \<Rightarrow> label_t \<Rightarrow> mem_prot" where
  "check_mem_prot L1 O1 L2 =
     (let pw = check_label L1 O1 L2 None;
          pr = check_label L2 O1 L1 None
      in if pr = 0 \<and> pw = 0 then PROT_RW
         else if pr = 0 \<and> pw = - 1 then PROT_R
         else PROT_N)"

section \<open>The flow rule on sets of categories\<close>

definition secrecy :: "label_t \<Rightarrow> cat_t set" where
  "secrecy L = {c \<in> set L. c \<noteq> 0 \<and> \<not> bit c 7}"

definition integrity :: "label_t \<Rightarrow> cat_t set" where
  "integrity L = {c \<in> set L. bit c 7}"

definition owned :: "own_t \<Rightarrow> cat_t set" where
  "owned O1 = {c \<in> set O1. c \<noteq> 0}"

text \<open>
  Information may flow from \<open>L1\<close> to \<open>L2\<close> on behalf of an owner of \<open>O1\<close> when every
  secrecy category of the source is kept or owned, and every integrity category of
  the target is already vouched for or owned.
\<close>

definition can_flow :: "own_t \<Rightarrow> label_t \<Rightarrow> label_t \<Rightarrow> bool" where
  "can_flow O1 L1 L2 \<longleftrightarrow>
     secrecy L1 - owned O1 \<subseteq> secrecy L2 \<and> integrity L2 - owned O1 \<subseteq> integrity L1"

lemma and_0x80_eq: "(c :: byte) AND 0x80 = (if bit c 7 then 0x80 else 0)"
proof (rule bit_word_eqI)
  fix n assume "n < LENGTH(8)"
  have "bit (0x80 :: byte) n \<longleftrightarrow> n = 7"
    using bit_push_bit_iff [of 7 "1 :: byte" n] \<open>n < LENGTH(8)\<close>
    by (simp add: push_bit_eq_mult bit_1_iff) auto
  then show "bit (c AND 0x80) n = bit (if bit c 7 then 0x80 else 0 :: byte) n"
    by (auto simp: bit_and_iff)
qed

lemma get_cat_type_I: "get_cat_type c = CAT_I \<longleftrightarrow> bit c 7"
  by (simp add: get_cat_type_def CAT_I_def and_0x80_eq)

lemma get_cat_type_S: "get_cat_type c = CAT_S \<longleftrightarrow> \<not> bit c 7"
  by (simp add: get_cat_type_def CAT_S_def and_0x80_eq)

lemma scan8_iff [simp]: "scan8 c xs \<longleftrightarrow> c \<in> set xs"
  by (induction xs) auto

lemma check_secrecy_iff: "check_secrecy cs O1 L2 = 0 \<longleftrightarrow> secrecy cs - owned O1 \<subseteq> secrecy L2"
  by (induction cs) (auto simp: get_cat_type_I secrecy_def owned_def)

lemma check_integrity_iff:
  "check_integrity cs O1 L1 = 0 \<longleftrightarrow> integrity cs - owned O1 \<subseteq> integrity L1"
  by (induction cs) (auto simp: get_cat_type_S integrity_def owned_def)

lemma check_capset_iff: "check_capset cs O1 = 0 \<longleftrightarrow> owned cs \<subseteq> owned O1"
  by (induction cs) (auto simp: owned_def)

lemma check_range:
  "check_secrecy cs O1 L2 = 0 \<or> check_secrecy cs O1 L2 = - 1"
  "check_integrity cs O1 L2 = 0 \<or> check_integrity cs O1 L2 = - 1"
  "check_capset cs O1 = 0 \<or> check_capset cs O1 = - 1"
  by (induction cs) auto

lemma check_label_range: "check_label L1 O1 L2 O2 = 0 \<or> check_label L1 O1 L2 O2 = - 1"
  by (simp add: check_label_def split: option.split)

lemma check_label_flow:
  "check_label L1 O1 L2 O2 = 0 \<longleftrightarrow>
     can_flow O1 L1 L2 \<and> (\<forall>P. O2 = Some P \<longrightarrow> owned P \<subseteq> owned O1)"
  using check_range(1) [of L1 O1 L2] check_range(2) [of L2 O1 L1]
    check_range(3) [of "the O2" O1]
  by (auto simp: check_label_def can_flow_def
      simp flip: check_secrecy_iff check_integrity_iff check_capset_iff split: option.split)

section \<open>Flows form a preorder\<close>

locale flow_order =
  fixes flow :: "'o \<Rightarrow> 'l \<Rightarrow> 'l \<Rightarrow> bool"
    and le_own :: "'o \<Rightarrow> 'o \<Rightarrow> bool"
  assumes flow_refl: "flow p L L"
    and flow_trans: "flow p L1 L2 \<Longrightarrow> flow p L2 L3 \<Longrightarrow> flow p L1 L3"
    and flow_own: "le_own p q \<Longrightarrow> flow p L1 L2 \<Longrightarrow> flow q L1 L2"
begin

text \<open>A chain of flows, each made with at most the privileges \<open>q\<close>, is one flow of \<open>q\<close>.\<close>

lemma chain_flow:
  "\<forall>i<n. flow (p i) (L i) (L (Suc i)) \<and> le_own (p i) q \<Longrightarrow> flow q (L 0) (L n)"
proof (induction n)
  case 0
  show ?case by (rule flow_refl)
next
  case (Suc n)
  then have "flow q (L 0) (L n)" by simp
  moreover have "flow q (L n) (L (Suc n))" using Suc.prems by (auto intro: flow_own)
  ultimately show ?case by (rule flow_trans)
qed

end

lemma can_flow_refl: "can_flow p L L"
  by (auto simp: can_flow_def)

lemma can_flow_trans: "can_flow p L1 L2 \<Longrightarrow> can_flow p L2 L3 \<Longrightarrow> can_flow p L1 L3"
  by (auto simp: can_flow_def)

lemma can_flow_own: "owned p \<subseteq> owned q \<Longrightarrow> can_flow p L1 L2 \<Longrightarrow> can_flow q L1 L2"
  by (auto simp: can_flow_def)

interpretation flows: flow_order "\<lambda>p L1 L2. check_label L1 p L2 None = 0"
  "\<lambda>p q. owned p \<subseteq> owned q"
  by unfold_locales
    (auto simp: check_label_flow intro: can_flow_refl can_flow_trans can_flow_own)

section \<open>The category generator\<close>

text \<open>The results of a sequence of calls with the given types.\<close>

fun create_cats :: "cat_t list \<Rightarrow> byte \<Rightarrow> cat_t list \<times> byte" where
  "create_cats [] gen = ([], gen)"
| "create_cats (t # ts) gen =
     (case create_cat t gen of (c, gen') \<Rightarrow>
      case create_cats ts gen' of (cs, gen'') \<Rightarrow> (c # cs, gen''))"

lemma low7_mask: "(0x7F :: byte) = mask 7"
  by (simp add: mask_eq_exp_minus_1)

lemma cat_low7:
  assumes t: "t = CAT_S \<or> t = CAT_I" and g: "(g :: byte) < 0x80"
  shows "(t OR g) AND 0x7F = g" and "get_cat_type (t OR g) = t"
proof -
  have "unat g < 2 ^ 7" using g by (simp add: word_less_nat_alt)
  then have g7: "take_bit 7 g = g"
    by (intro word_unat_eq_iff [THEN iffD2]) (simp add: unsigned_take_bit_eq take_bit_nat_eq_self)
  have t7: "take_bit 7 t = 0"
    using t by (auto simp: CAT_S_def CAT_I_def)
  show "(t OR g) AND 0x7F = g"
    by (simp only: low7_mask take_bit_or g7 t7 flip: take_bit_eq_mask) simp
  have "\<not> bit g 7" using g7 by (metis bit_take_bit_iff less_irrefl)
  then show "get_cat_type (t OR g) = t"
    using t by (auto simp: get_cat_type_def and_0x80_eq CAT_S_def CAT_I_def bit_or_iff)
qed

lemma create_cat_ok:
  assumes "unat gen < 127"
  shows "create_cat t gen = (t OR (gen + 1), gen + 1)" and "unat (gen + 1) = unat gen + 1"
proof -
  show u: "unat (gen + 1) = unat gen + 1"
    using assms by (simp add: unat_word_ariths)
  then have lt: "gen + 1 < 0x80" using assms by (simp add: word_less_nat_alt)
  then have "(gen + 1) AND 0x7F = gen + 1"
    using cat_low7(1) [of CAT_S "gen + 1"] by (simp add: CAT_S_def)
  with lt show "create_cat t gen = (t OR (gen + 1), gen + 1)"
    by (simp add: create_cat_def Let_def not_le [symmetric])
qed

lemma create_cats_low7:
  assumes "set ts \<subseteq> {CAT_S, CAT_I}" and "unat gen + length ts \<le> 127"
  shows "length (fst (create_cats ts gen)) = length ts \<and>
         map (\<lambda>c. unat (c AND 0x7F)) (fst (create_cats ts gen)) =
           [Suc (unat gen)..<Suc (unat gen) + length ts] \<and>
         map get_cat_type (fst (create_cats ts gen)) = ts \<and>
         unat (snd (create_cats ts gen)) = unat gen + length ts"
  using assms
proof (induction ts arbitrary: gen)
  case Nil
  show ?case by simp
next
  case (Cons t ts)
  from Cons.prems have g: "unat gen < 127" and t: "t = CAT_S \<or> t = CAT_I" by auto
  note step = create_cat_ok [OF g]
  have lt: "gen + 1 < 0x80" using step(2) g by (simp add: word_less_nat_alt)
  from Cons.prems step(2) have rest: "set ts \<subseteq> {CAT_S, CAT_I}" "unat (gen + 1) + length ts \<le> 127"
    by auto
  obtain cs g'' where r: "create_cats ts (gen + 1) = (cs, g'')" by fastforce
  show ?case
    using Cons.IH [OF rest] cat_low7 [OF t lt] step r
    by (simp add: upt_conv_Cons del: upt_Suc)
qed

lemma add_onwership_first:
  "0 \<notin> set xs \<Longrightarrow> add_onwership (xs @ 0 # ys) c = (c, xs @ c # ys)"
  "0 \<notin> set xs \<Longrightarrow> add_onwership xs c = (0, xs)"
  by (induction xs) auto

lemma length_add_onwership [simp]: "length (snd (add_onwership xs c)) = length xs"
  by (induction xs) (auto split: prod.split)

lemma add_onwership_owned:
  assumes "0 \<in> set xs"
  shows "fst (add_onwership xs c) = c"
    and "c \<noteq> 0 \<Longrightarrow> owned (snd (add_onwership xs c)) = insert c (owned xs)"
proof -
  from split_list_first [OF assms] obtain ys zs
    where xs: "xs = ys @ 0 # zs" "0 \<notin> set ys" by blast
  show "fst (add_onwership xs c) = c"
    using xs by (simp add: add_onwership_first)
  show "owned (snd (add_onwership xs c)) = insert c (owned xs)" if "c \<noteq> 0"
    using xs that by (auto simp: add_onwership_first owned_def)
qed

lemma label_u64 [simp]:
  "length (label_of_u64 w) = 8" "u64_of_label (label_of_u64 w) = w"
  "length L = 8 \<Longrightarrow> label_of_u64 (u64_of_label L) = L"
  by (simp_all add: label_of_u64_def u64_of_label_def)

section \<open>Properties\<close>

text \<open>
  Property C12.  \<open>check_label\<close> decides the flow rule: it returns 0 exactly when every
  secrecy category of the first label that the first thread does not own is in the
  second label, every integrity category of the second label that it does not own is
  in the first, and (when a second ownership set is given) the second ownership set
  is contained in the first; in every other case it returns -1.
\<close>

theorem check_label_spec:
  "check_label L1 O1 L2 O2 =
     (if secrecy L1 - owned O1 \<subseteq> secrecy L2 \<and> integrity L2 - owned O1 \<subseteq> integrity L1 \<and>
         (case O2 of None \<Rightarrow> True | Some P \<Rightarrow> owned P \<subseteq> owned O1)
      then 0 else - 1)"
  using check_label_flow [of L1 O1 L2 O2] check_label_range [of L1 O1 L2 O2]
  by (auto simp: can_flow_def split: option.splits)

text \<open>
  Property C16.  \<open>check_mem_prot\<close> grants read exactly when information may flow from
  the memory label to the thread, and write on top of it exactly when it may flow
  back; a thread that may write but not read gets no access.
\<close>

theorem check_mem_prot_spec:
  "check_mem_prot L1 O1 L2 =
     (if can_flow O1 L2 L1 then (if can_flow O1 L1 L2 then PROT_RW else PROT_R) else PROT_N)"
  using check_label_range [of L1 O1 L2 None] check_label_range [of L2 O1 L1 None]
    check_label_flow [of L1 O1 L2 None] check_label_flow [of L2 O1 L1 None]
  by (auto simp: check_mem_prot_def)

text \<open>
  Property C23.  Secrecy is confined along any chain of permitted flows: if each step
  passes \<open>check_label\<close> for a thread whose ownership is contained in \<open>q\<close>, a secrecy
  category of the first label that \<open>q\<close> does not own is still in the last label, and
  an integrity category of the last label that \<open>q\<close> does not own was in the first.
\<close>

theorem flow_confinement:
  assumes chain: "\<forall>i<n. check_label (L i) (p i) (L (Suc i)) None = 0 \<and> owned (p i) \<subseteq> owned q"
  shows "secrecy (L 0) - owned q \<subseteq> secrecy (L n) \<and> integrity (L n) - owned q \<subseteq> integrity (L 0)"
  using flows.chain_flow [of n L p q] chain by (simp add: check_label_flow can_flow_def)

theorem flow_confinement_witness:
  "check_label [1, 3] [3, 0] [1, 0] None = 0 \<and>
   secrecy [1, 3] - owned [3, 0] \<subseteq> secrecy [1, 0] \<and> integrity [1, 0] - owned [3, 0] \<subseteq> integrity [1, 3]"
proof -
  have c: "check_label [1, 3] [3, 0] [1, 0] None = 0" by code_simp
  show ?thesis
    using flow_confinement [of 1 "\<lambda>i. if i = 0 then [1, 3] else [1, 0]" "\<lambda>_. [3, 0]" "[3, 0]"] c
    by simp
qed

text \<open>
  Property C33.  Starting from a fresh counter, up to 127 calls of \<open>create_cat\<close> with the
  two legal types return pairwise distinct, non-zero categories of the requested types.
\<close>

theorem create_cat_fresh:
  assumes "set ts \<subseteq> {CAT_S, CAT_I}" and "length ts \<le> 127"
  shows "distinct (fst (create_cats ts 0)) \<and> 0 \<notin> set (fst (create_cats ts 0)) \<and>
         map get_cat_type (fst (create_cats ts 0)) = ts"
proof -
  let ?cs = "fst (create_cats ts 0)" and ?f = "\<lambda>c :: cat_t. unat (c AND 0x7F)"
  from assms create_cats_low7 [of ts 0] have low: "map ?f ?cs = [1..<1 + length ts]"
    and ty: "map get_cat_type ?cs = ts" by auto
  from low have "distinct (map ?f ?cs)" by simp
  then have "distinct ?cs" by (simp add: distinct_map)
  moreover have "?f 0 \<notin> set (map ?f ?cs)" unfolding low by (simp del: upt_Suc)
  then have "0 \<notin> set ?cs" unfolding set_map by (rule contrapos_nn) (rule imageI)
  ultimately show ?thesis using ty by blast
qed

theorem create_cat_fresh_witness:
  "distinct (fst (create_cats [CAT_S, CAT_I, CAT_S] 0)) \<and>
   0 \<notin> set (fst (create_cats [CAT_S, CAT_I, CAT_S] 0)) \<and>
   map get_cat_type (fst (create_cats [CAT_S, CAT_I, CAT_S] 0)) = [CAT_S, CAT_I, CAT_S]"
  by (rule create_cat_fresh) auto

text \<open>
  Once 127 categories have been issued every further call (up to the wrap
  of the 8-bit counter) returns the error value \<^verbatim>\<open>-1\<close>, that is the byte 0xFF, which is
  also the regular integrity category number 127: the error value is not
  distinguishable from a category that may already belong to somebody else.
\<close>

theorem create_cat_exhausted:
  assumes "127 \<le> unat gen" and "unat gen < 255"
  shows "create_cat t gen = (0xFF, gen + 1) \<and> create_cat CAT_I 126 = (0xFF, 127)"
proof -
  have "unat (gen + 1) = unat gen + 1" using assms by (simp add: unat_word_ariths)
  then have "0x80 \<le> gen + 1" using assms by (simp add: word_le_nat_alt)
  then show ?thesis by (simp add: create_cat_def CAT_I_def Let_def)
qed

theorem create_cat_exhausted_witness:
  "create_cat CAT_S 127 = (0xFF, 128) \<and> create_cat CAT_I 126 = (0xFF, 127)"
  using create_cat_exhausted [of 127 CAT_S] by simp

text \<open>
  \<open>add_onwership\<close> stores the category in the first blank slot, so the set
  of owned categories grows by exactly that category and no other slot changes; with
  no blank slot it returns 0 and changes nothing.
\<close>

theorem add_onwership_spec:
  assumes "c \<noteq> 0"
  shows "(case add_onwership xs c of (r, ys) \<Rightarrow>
            length ys = length xs \<and>
            (if 0 \<in> set xs
             then r = c \<and> owned ys = insert c (owned xs) \<and>
                  (\<exists>as bs. xs = as @ 0 # bs \<and> 0 \<notin> set as \<and> ys = as @ c # bs)
             else r = 0 \<and> ys = xs))"
proof (cases "0 \<in> set xs")
  case True
  from split_list_first [OF this] obtain as bs where xs: "xs = as @ 0 # bs" "0 \<notin> set as" by blast
  have "owned (as @ c # bs) = insert c (owned xs)"
    using xs add_onwership_owned(2) [OF True assms] by (simp add: add_onwership_first)
  then show ?thesis using xs by (auto simp: add_onwership_first)
next
  case False
  then show ?thesis by (simp add: add_onwership_first)
qed

theorem add_onwership_spec_witness:
  "case add_onwership [5, 0, 0] 7 of (r, ys) \<Rightarrow> r = 7 \<and> ys = [5, 7, 0] \<and> owned ys = insert 7 (owned [5, 0, 0])"
  using add_onwership_spec [of 7 "[5, 0, 0]"] by simp

end
