(* ===== verification/Linked_List.thy ===== *)
theory Linked_List
  imports AB_Prelude
begin

text \<open>
  The doubly linked list of \<^verbatim>\<open>common/lib/linked_list.c\<close>, at pointer level.  A
  \<open>linked_list\<close> carries, beside the C fields, the part of the C heap that holds its
  nodes (no two lists of the program share a node).  The pointer that libc
  \<^verbatim>\<open>malloc\<close> returns for a new node is an argument of the insert operations.
  \<open>ll_rep\<close> relates a list to the sequence of its (node, datum) pairs; every
  operation is shown to implement the operation on sequences of the same name.
\<close>

section \<open>Data structures\<close>

record list_node =
  ln_data :: addr
  ln_prev :: addr
  ln_next :: addr

record linked_list =
  ll_head :: addr
  ll_tail :: addr
  ll_num :: int
  ll_nodes :: "addr \<rightharpoonup> list_node"

definition init_linked_list :: "linked_list \<Rightarrow> linked_list" where
  "init_linked_list l = l\<lparr>ll_head := 0, ll_tail := 0, ll_num := 0\<rparr>"

section \<open>Operations\<close>

definition list_insert_head :: "addr \<Rightarrow> linked_list \<Rightarrow> addr \<Rightarrow> linked_list res" where
  "list_insert_head new l d =
     bnd (guard Assert_failed (new \<noteq> 0)) (\<lambda>_.
     let h = (ll_nodes l)(new \<mapsto> \<lparr>ln_data = d, ln_prev = 0, ln_next = ll_head l\<rparr>)
     in if ll_head l = 0
        then ret (l\<lparr>ll_head := new, ll_tail := new, ll_num := ll_num l + 1, ll_nodes := h\<rparr>)
        else bnd (deref h (ll_head l)) (\<lambda>n.
             ret (l\<lparr>ll_head := new, ll_num := ll_num l + 1,
                    ll_nodes := h(ll_head l \<mapsto> n\<lparr>ln_prev := new\<rparr>)\<rparr>)))"

definition list_insert_tail :: "addr \<Rightarrow> linked_list \<Rightarrow> addr \<Rightarrow> linked_list res" where
  "list_insert_tail new l d =
     bnd (guard Assert_failed (new \<noteq> 0)) (\<lambda>_.
     let h = (ll_nodes l)(new \<mapsto> \<lparr>ln_data = d, ln_prev = ll_tail l, ln_next = 0\<rparr>)
     in if ll_tail l = 0
        then ret (l\<lparr>ll_head := new, ll_tail := new, ll_num := ll_num l + 1, ll_nodes := h\<rparr>)
        else bnd (deref h (ll_tail l)) (\<lambda>n.
             ret (l\<lparr>ll_tail := new, ll_num := ll_num l + 1,
                    ll_nodes := h(ll_tail l \<mapsto> n\<lparr>ln_next := new\<rparr>)\<rparr>)))"

definition list_del_entry :: "linked_list \<Rightarrow> addr \<Rightarrow> (addr \<times> linked_list) res" where
  "list_del_entry l entry =
     bnd (if entry = ll_head l
          then bnd (deref (ll_nodes l) (ll_head l)) (\<lambda>n. ret (l\<lparr>ll_head := ln_next n\<rparr>))
          else ret l) (\<lambda>l.
     bnd (if entry = ll_tail l
          then bnd (deref (ll_nodes l) (ll_tail l)) (\<lambda>n. ret (l\<lparr>ll_tail := ln_prev n\<rparr>))
          else ret l) (\<lambda>l.
     bnd (deref (ll_nodes l) entry) (\<lambda>e.
     bnd (if ln_prev e \<noteq> 0
          then bnd (deref (ll_nodes l) (ln_prev e)) (\<lambda>n.
               ret (l\<lparr>ll_nodes := (ll_nodes l)(ln_prev e \<mapsto> n\<lparr>ln_next := ln_next e\<rparr>)\<rparr>))
          else ret l) (\<lambda>l.
     bnd (if ln_next e \<noteq> 0
          then bnd (deref (ll_nodes l) (ln_next e)) (\<lambda>n.
               ret (l\<lparr>ll_nodes := (ll_nodes l)(ln_next e \<mapsto> n\<lparr>ln_prev := ln_prev e\<rparr>)\<rparr>))
          else ret l) (\<lambda>l.
     ret (ln_data e, l\<lparr>ll_nodes := (ll_nodes l)(entry := None), ll_num := ll_num l - 1\<rparr>))))))"

definition list_remove_head :: "linked_list \<Rightarrow> (addr \<times> linked_list) res" where
  "list_remove_head l = (if ll_head l \<noteq> 0 then list_del_entry l (ll_head l) else ret (0, l))"

definition list_remove_tail :: "linked_list \<Rightarrow> (addr \<times> linked_list) res" where
  "list_remove_tail l = (if ll_tail l \<noteq> 0 then list_del_entry l (ll_tail l) else ret (0, l))"

partial_function (option) locate_loop ::
  "(addr \<rightharpoonup> list_node) \<Rightarrow> addr \<Rightarrow> addr \<Rightarrow> addr res" where
  "locate_loop h d ptr =
     (if ptr = 0 then ret 0
      else bnd (deref h ptr) (\<lambda>n.
           if ln_data n = d then ret ptr else locate_loop h d (ln_next n)))"

definition linked_list_locate :: "linked_list \<Rightarrow> addr \<Rightarrow> addr res" where
  "linked_list_locate l d = locate_loop (ll_nodes l) d (ll_head l)"

partial_function (option) lookup_loop ::
  "(addr \<rightharpoonup> list_node) \<Rightarrow> (addr \<Rightarrow> bool res) \<Rightarrow> addr \<Rightarrow> addr res" where
  "lookup_loop h cmpf ptr =
     (if ptr = 0 then ret 0
      else bnd (deref h ptr) (\<lambda>n.
           bnd (cmpf (ln_data n)) (\<lambda>b.
           if b then ret (ln_data n) else lookup_loop h cmpf (ln_next n))))"

definition linked_list_lookup :: "linked_list \<Rightarrow> (addr \<Rightarrow> bool res) \<Rightarrow> addr res" where
  "linked_list_lookup l cmpf = lookup_loop (ll_nodes l) cmpf (ll_head l)"

section \<open>Representation relation\<close>

fun firstof :: "(addr \<times> addr) list \<Rightarrow> addr \<Rightarrow> addr" where
  "firstof [] q = q"
| "firstof ((a, _) # _) q = a"

definition lastof :: "addr \<Rightarrow> (addr \<times> addr) list \<Rightarrow> addr" where
  "lastof p xs = (if xs = [] then p else fst (last xs))"

fun dlseg :: "(addr \<rightharpoonup> list_node) \<Rightarrow> addr \<Rightarrow> (addr \<times> addr) list \<Rightarrow> addr \<Rightarrow> bool" where
  "dlseg h p [] q = True"
| "dlseg h p ((a, d) # xs) q =
     (a \<noteq> 0 \<and> h a = Some \<lparr>ln_data = d, ln_prev = p, ln_next = firstof xs q\<rparr> \<and> dlseg h a xs q)"

definition ll_rep :: "linked_list \<Rightarrow> (addr \<times> addr) list \<Rightarrow> bool" where
  "ll_rep l xs \<longleftrightarrow>
     dlseg (ll_nodes l) 0 xs 0 \<and> distinct (map fst xs) \<and>
     ll_head l = firstof xs 0 \<and> ll_tail l = lastof 0 xs \<and>
     ll_num l = int (length xs) \<and> dom (ll_nodes l) = fst ` set xs"

text \<open>The sequence of data of a list, and a list with one element.\<close>

definition ll_data :: "linked_list \<Rightarrow> addr list \<Rightarrow> bool" where
  "ll_data l ds \<longleftrightarrow> (\<exists>xs. ll_rep l xs \<and> map snd xs = ds)"

definition single_list :: "addr \<Rightarrow> addr \<Rightarrow> linked_list" where
  "single_list a d =
     \<lparr>ll_head = a, ll_tail = a, ll_num = 1,
      ll_nodes = [a \<mapsto> \<lparr>ln_data = d, ln_prev = 0, ln_next = 0\<rparr>]\<rparr>"

lemma ll_data_single [simp]: "a \<noteq> 0 \<Longrightarrow> ll_data (single_list a d) [d]"
  unfolding ll_data_def by (rule exI [of _ "[(a, d)]"]) (simp add: ll_rep_def single_list_def lastof_def)

lemma lastof_simps [simp]:
  "lastof p [] = p" "lastof p ((a, d) # xs) = lastof a xs" "lastof p (xs @ [(a, d)]) = a"
  by (auto simp: lastof_def)

lemma lastof_append [simp]: "lastof p (xs @ ys) = lastof (lastof p xs) ys"
  by (auto simp: lastof_def)

lemma firstof_append [simp]: "firstof (xs @ ys) q = firstof xs (firstof ys q)"
  by (cases xs) auto

lemma dlseg_append [simp]:
  "dlseg h p (xs @ ys) q \<longleftrightarrow> dlseg h p xs (firstof ys q) \<and> dlseg h (lastof p xs) ys q"
  by (induction h p xs q rule: dlseg.induct) auto

lemma dlseg_frame [simp]: "a \<notin> fst ` set xs \<Longrightarrow> dlseg (h(a := v)) p xs q = dlseg h p xs q"
  by (induction h p xs q rule: dlseg.induct) auto

lemma dlseg_nonnull: "dlseg h p xs q \<Longrightarrow> 0 \<notin> fst ` set xs"
  by (induction h p xs q rule: dlseg.induct) auto

lemma firstof_eq_0: "dlseg h p xs q \<Longrightarrow> firstof xs 0 = 0 \<longleftrightarrow> xs = []"
  by (cases xs) auto

lemma lastof_eq_0: "dlseg h p xs q \<Longrightarrow> lastof 0 xs = 0 \<longleftrightarrow> xs = []"
  using dlseg_nonnull [of h p xs q] by (force simp: lastof_def)

lemma lastof_in: "xs \<noteq> [] \<Longrightarrow> lastof p xs \<in> fst ` set xs"
  by (auto simp: lastof_def)

section \<open>The operations implement operations on sequences\<close>

lemma ll_rep_init: "ll_nodes l = Map.empty \<Longrightarrow> ll_rep (init_linked_list l) []"
  by (simp add: ll_rep_def init_linked_list_def)

lemma ll_rep_head: "ll_rep l xs \<Longrightarrow> xs \<noteq> [] \<Longrightarrow> \<exists>n. ll_nodes l (ll_head l) = Some n \<and> ln_data n = snd (hd xs)"
  by (cases xs) (auto simp: ll_rep_def)

lemma ll_rep_nodes: "ll_rep l xs \<Longrightarrow> ll_nodes l a = None \<longleftrightarrow> a \<notin> fst ` set xs"
  by (auto simp: ll_rep_def)

lemma list_insert_head_rep:
  assumes rep: "ll_rep l xs" and new: "new \<noteq> 0" "new \<notin> fst ` set xs"
  shows "\<exists>l'. list_insert_head new l d = ret l' \<and> ll_rep l' ((new, d) # xs)"
proof (cases xs)
  case Nil
  with rep new show ?thesis by (auto simp: list_insert_head_def ll_rep_def)
next
  case (Cons y ys)
  obtain b e where y: "y = (b, e)" by (cases y)
  from rep new Cons y show ?thesis
    by (auto simp: list_insert_head_def ll_rep_def Let_def)
qed

lemma list_insert_tail_rep:
  assumes rep: "ll_rep l xs" and new: "new \<noteq> 0" "new \<notin> fst ` set xs"
  shows "\<exists>l'. list_insert_tail new l d = ret l' \<and> ll_rep l' (xs @ [(new, d)])"
proof (cases xs rule: rev_cases)
  case Nil
  with rep new show ?thesis by (auto simp: list_insert_tail_def ll_rep_def)
next
  case (snoc ys y)
  obtain b e where y: "y = (b, e)" by (cases y)
  from rep new snoc y show ?thesis
    by (auto simp: list_insert_tail_def ll_rep_def Let_def)
qed

lemma lastof_neq: "a \<noteq> p \<Longrightarrow> a \<notin> fst ` set xs \<Longrightarrow> lastof p xs \<noteq> a"
  by (auto simp: lastof_def)

lemma firstof_neq: "a \<noteq> q \<Longrightarrow> a \<notin> fst ` set xs \<Longrightarrow> firstof xs q \<noteq> a"
  by (cases xs) auto

lemma list_del_entry_rep:
  assumes rep: "ll_rep l (xs @ (a, d) # ys)"
  shows "\<exists>l'. list_del_entry l a = ret (d, l') \<and> ll_rep l' (xs @ ys)"
proof -
  from rep have seg: "dlseg (ll_nodes l) 0 xs a" "dlseg (ll_nodes l) a ys 0"
    and e: "ll_nodes l a = Some \<lparr>ln_data = d, ln_prev = lastof 0 xs, ln_next = firstof ys 0\<rparr>"
    and a: "a \<noteq> 0" "a \<notin> fst ` set xs" "a \<notin> fst ` set ys"
    and dist: "distinct (map fst xs)" "distinct (map fst ys)" "fst ` set xs \<inter> fst ` set ys = {}"
    and hd: "ll_head l = firstof xs a" and tl: "ll_tail l = lastof a ys"
    and num: "ll_num l = int (length xs + length ys + 1)"
    and dom: "dom (ll_nodes l) = insert a (fst ` set xs \<union> fst ` set ys)"
    by (auto simp: ll_rep_def)
  have hd_iff: "a = firstof xs a \<longleftrightarrow> xs = []"
    using a(2) by (cases xs) auto
  have tl_iff: "a = lastof a ys \<longleftrightarrow> ys = []"
    using a(3) lastof_in [of ys a] by (metis lastof_simps(1))
  show ?thesis
  proof (cases xs rule: rev_cases; cases ys)
    assume *: "xs = []" "ys = []"
    have "dom ((ll_nodes l)(a := None)) = {}" using dom * by simp
    then show ?thesis using * e hd tl num
      by (simp add: list_del_entry_def ll_rep_def del: dom_eq_empty_conv)
  next
    fix y ys' assume *: "xs = []" "ys = y # ys'"
    then show ?thesis using seg e a dist hd tl num dom tl_iff
      by (cases y) (simp add: list_del_entry_def ll_rep_def, blast)
  next
    fix xs' x assume *: "xs = xs' @ [x]" "ys = []"
    then show ?thesis using seg e a dist hd tl num dom hd_iff
      by (cases x) (simp add: list_del_entry_def ll_rep_def, blast)
  next
    fix xs' x y ys' assume *: "xs = xs' @ [x]" "ys = y # ys'"
    then show ?thesis using seg e a dist hd tl num dom hd_iff tl_iff
      by (cases x; cases y) (simp add: list_del_entry_def ll_rep_def image_Un, auto)
  qed
qed

lemma ll_rep_nonnull: "ll_rep l xs \<Longrightarrow> distinct (map fst xs) \<and> 0 \<notin> fst ` set xs"
  by (simp add: ll_rep_def) (metis dlseg_nonnull)

lemma ll_rep_null: "ll_rep l xs \<Longrightarrow> ll_nodes l 0 = None"
  using ll_rep_nodes ll_rep_nonnull by blast

lemma find_skip: "\<forall>y\<in>set ys. \<not> P y \<Longrightarrow> find P (ys @ zs) = find P zs"
  by (induction ys) auto

lemma locate_loop_seg:
  "dlseg h p xs 0 \<Longrightarrow>
   locate_loop h d (firstof xs 0) =
     ret (case find (\<lambda>x. snd x = d) xs of None \<Rightarrow> 0 | Some x \<Rightarrow> fst x)"
proof (induction xs arbitrary: p)
  case Nil
  show ?case by (simp add: locate_loop.simps)
next
  case (Cons x xs)
  obtain a e where x: "x = (a, e)" by (cases x)
  from Cons.prems x have n: "a \<noteq> 0"
    "h a = Some \<lparr>ln_data = e, ln_prev = p, ln_next = firstof xs 0\<rparr>" and seg: "dlseg h a xs 0"
    by auto
  from n Cons.IH [OF seg] show ?case
    by (simp add: x locate_loop.simps [of h d a])
qed

lemma lookup_loop_seg:
  assumes "dlseg h p xs 0" and "\<forall>x\<in>set xs. cmpf (snd x) = ret (P (snd x))"
  shows "lookup_loop h cmpf (firstof xs 0) =
     ret (case find (\<lambda>x. P (snd x)) xs of None \<Rightarrow> 0 | Some x \<Rightarrow> snd x)"
  using assms
proof (induction xs arbitrary: p)
  case Nil
  show ?case by (simp add: lookup_loop.simps)
next
  case (Cons x xs)
  obtain a e where x: "x = (a, e)" by (cases x)
  from Cons.prems x have n: "a \<noteq> 0"
    "h a = Some \<lparr>ln_data = e, ln_prev = p, ln_next = firstof xs 0\<rparr>" and seg: "dlseg h a xs 0"
    and c: "cmpf e = ret (P e)" "\<forall>x\<in>set xs. cmpf (snd x) = ret (P (snd x))"
    by auto
  from n Cons.IH [OF seg c(2)] c(1) show ?case
    by (simp add: x lookup_loop.simps [of h cmpf a])
qed

lemma linked_list_locate_rep:
  "ll_rep l xs \<Longrightarrow> linked_list_locate l d =
     ret (case find (\<lambda>x. snd x = d) xs of None \<Rightarrow> 0 | Some x \<Rightarrow> fst x)"
  by (auto simp: linked_list_locate_def ll_rep_def intro: locate_loop_seg)

lemma linked_list_lookup_rep:
  assumes "ll_rep l xs" and "\<forall>x\<in>set xs. cmpf (snd x) = ret (P (snd x))"
  shows "linked_list_lookup l cmpf =
     ret (case find (\<lambda>x. P (snd x)) xs of None \<Rightarrow> 0 | Some x \<Rightarrow> snd x)"
  using assms by (auto simp: linked_list_lookup_def ll_rep_def intro: lookup_loop_seg)

section \<open>The interface the monitor relies on\<close>

locale list_interface =
  fixes rep :: "'l \<Rightarrow> (addr \<times> addr) list \<Rightarrow> bool"
    and insert_head :: "addr \<Rightarrow> 'l \<Rightarrow> addr \<Rightarrow> 'l res"
    and insert_tail :: "addr \<Rightarrow> 'l \<Rightarrow> addr \<Rightarrow> 'l res"
    and del_entry :: "'l \<Rightarrow> addr \<Rightarrow> (addr \<times> 'l) res"
    and locate :: "'l \<Rightarrow> addr \<Rightarrow> addr res"
    and look :: "'l \<Rightarrow> (addr \<Rightarrow> bool res) \<Rightarrow> addr res"
  assumes rep_nodes: "rep l xs \<Longrightarrow> distinct (map fst xs) \<and> 0 \<notin> fst ` set xs"
    and insert_head_law: "rep l xs \<Longrightarrow> new \<noteq> 0 \<Longrightarrow> new \<notin> fst ` set xs \<Longrightarrow>
      \<exists>l'. insert_head new l d = ret l' \<and> rep l' ((new, d) # xs)"
    and insert_tail_law: "rep l xs \<Longrightarrow> new \<noteq> 0 \<Longrightarrow> new \<notin> fst ` set xs \<Longrightarrow>
      \<exists>l'. insert_tail new l d = ret l' \<and> rep l' (xs @ [(new, d)])"
    and del_entry_law: "rep l (xs @ (a, d) # ys) \<Longrightarrow>
      \<exists>l'. del_entry l a = ret (d, l') \<and> rep l' (xs @ ys)"
    and locate_law: "rep l xs \<Longrightarrow> locate l d =
      ret (case find (\<lambda>x. snd x = d) xs of None \<Rightarrow> 0 | Some x \<Rightarrow> fst x)"
    and look_law: "rep l xs \<Longrightarrow> \<forall>x\<in>set xs. c (snd x) = ret (P (snd x)) \<Longrightarrow>
      look l c = ret (case find (\<lambda>x. P (snd x)) xs of None \<Rightarrow> 0 | Some x \<Rightarrow> snd x)"
begin

text \<open>A datum that is in the list is located, and deleting its node removes its first occurrence.\<close>

lemma locate_then_del:
  assumes rep: "rep l xs" and d: "d \<in> snd ` set xs"
  shows "\<exists>a l' ys zs. locate l d = ret a \<and> del_entry l a = ret (d, l') \<and> a \<noteq> 0 \<and>
           xs = ys @ (a, d) # zs \<and> d \<notin> snd ` set ys \<and> rep l' (ys @ zs)"
proof -
  from d have "\<exists>x\<in>set xs. snd x = d" by auto
  from split_list_first_prop [OF this] obtain ys x zs
    where xs: "xs = ys @ x # zs" and x: "snd x = d" and ys: "\<forall>y\<in>set ys. snd y \<noteq> d"
    by blast
  obtain a where xa: "x = (a, d)" using x by (cases x) auto
  have f: "find (\<lambda>x. snd x = d) xs = Some (a, d)"
    using ys by (simp add: xs xa find_skip)
  have loc: "locate l d = ret a" using locate_law [OF rep, of d] f by simp
  from rep xs xa del_entry_law [of l ys a d zs] obtain l'
    where "del_entry l a = ret (d, l')" "rep l' (ys @ zs)" by auto
  moreover have "a \<noteq> 0" using rep_nodes [OF rep] xs xa by auto
  moreover have "d \<notin> snd ` set ys" using ys by auto
  ultimately show ?thesis using loc xs xa by blast
qed

lemma insert_tail_look:
  assumes rep: "rep l xs" and new: "new \<noteq> 0" "new \<notin> fst ` set xs"
    and c: "\<forall>x\<in>set (xs @ [(new, d)]). c (snd x) = ret (P (snd x))"
    and first: "\<forall>x\<in>set xs. \<not> P (snd x)" and P: "P d"
  shows "\<exists>l'. insert_tail new l d = ret l' \<and> look l' c = ret d"
proof -
  from insert_tail_law [OF rep new] obtain l'
    where l': "insert_tail new l d = ret l'" "rep l' (xs @ [(new, d)])" by blast
  have "find (\<lambda>x. P (snd x)) (xs @ [(new, d)]) = Some (new, d)"
    using first P by (simp add: find_skip)
  with look_law [OF l'(2) c] l'(1) show ?thesis by simp
qed

end

interpretation ll: list_interface ll_rep list_insert_head list_insert_tail list_del_entry
  linked_list_locate linked_list_lookup
  by unfold_locales
    (rule ll_rep_nonnull list_insert_head_rep list_insert_tail_rep list_del_entry_rep
       linked_list_locate_rep linked_list_lookup_rep; assumption)+

end
