(* ===== verification/Monitor_State.thy ===== *)
theory Monitor_State
  imports Label Linked_List
begin

text \<open>
  The run-time state of the arbiter process: the structs of \<^verbatim>\<open>monitor/client.h\<close>,
  \<^verbatim>\<open>monitor/arbiter.h\<close> and \<^verbatim>\<open>monitor/ablib_malloc.h\<close>, the global variables, and the
  environment the process runs in.

  Memory is split the way the code uses it.  \<open>mem\<close> holds the machine words of the
  channel heap and of the bin headers inside each \<open>malloc_state\<close> (chunk pointers are
  cast freely between the two), at addresses that are multiples of 4; an unmapped or
  misaligned address faults.  Descriptors that are only reached through typed
  pointers live in one heap per struct type.  The results of libc \<^verbatim>\<open>malloc\<close> come
  from \<open>libc_ptrs\<close>, one per call, 0 for \<^verbatim>\<open>NULL\<close>; the results of system calls come from
  \<open>sys_ret\<close>, a function of the calls made so far and of the call.  \<open>sys_trace\<close> and
  \<open>sent\<close> record the system calls made and the datagrams sent.  \<^verbatim>\<open>errno\<close> is written but
  never read by the monitor and is left out.
\<close>

section \<open>Structs\<close>

record client_desc =
  cd_unix_addr :: "byte list"
  cd_addr_len :: word32
  cd_pid :: pid
  cd_label :: "64 word"
  cd_ownership :: "64 word"

record unit_state =
  us_unit_top :: addr
  us_addr :: addr
  us_length :: word32
  us_unit_av :: addr

record malloc_state =
  ms_label :: label_t
  ms_ustate_list :: linked_list
  ms_max_fast :: word32
  ms_fastbins :: "addr list"
  ms_last_remainder :: addr
  ms_binmap :: "word32 list"
  ms_trim_threshold :: word32
  ms_top_pad :: word32
  ms_mmap_threshold :: word32
  ms_n_mmaps :: word32
  ms_n_mmaps_max :: word32
  ms_max_n_mmaps :: word32
  ms_pagesize :: word32
  ms_morecore_properties :: word32
  ms_mmapped_mem :: word32
  ms_sbrked_mem :: word32
  ms_max_sbrked_mem :: word32
  ms_max_mmapped_mem :: word32
  ms_max_total_mem :: word32

record abt_reply_header =
  rp_magic :: word32
  rp_msg_len :: word32
  rp_return_val :: word32
  rp_return_val_64 :: "64 word"

section \<open>System calls\<close>

definition PROT_NONE :: word32 where
  "PROT_NONE = 0"

definition PROT_READ :: word32 where
  "PROT_READ = 1"

definition PROT_WRITE :: word32 where
  "PROT_WRITE = 2"

datatype syscall =
    Absys_mmap pid addr word32 word32        \<comment> \<open>pid, address, length, protection\<close>
  | Absys_brk pid addr
  | Absys_munmap pid addr word32
  | Absys_mprotect pid addr word32 word32
  | Mmap addr word32                          \<comment> \<open>the arbiter's own shared fixed mapping\<close>
  | Sendto "byte list"                        \<comment> \<open>a datagram to a socket address\<close>

section \<open>The state\<close>

record mon =
  mem :: "addr \<rightharpoonup> word32"
  mstates :: "addr \<rightharpoonup> malloc_state"
  units :: "addr \<rightharpoonup> unit_state"
  clients :: "addr \<rightharpoonup> client_desc"
  ab_top :: addr
  mstate_list :: linked_list
  ustate_list :: linked_list
  mmapped_ustate_list :: linked_list
  client_list :: linked_list
  cat_gen :: byte
  ab_curbrk :: addr
  malloc_lock :: bool
  libc_ptrs :: "nat \<Rightarrow> addr"
  libc_calls :: nat
  sys_ret :: "syscall list \<Rightarrow> syscall \<Rightarrow> word32"
  sys_trace :: "syscall list"
  sent :: "(byte list \<times> word32 \<times> abt_reply_header) list"

type_synonym 'a call = "(mon, 'a) st"

text \<open>The state in which \<^verbatim>\<open>main\<close> starts: C globals are zero and nothing is mapped.\<close>

definition empty_list :: linked_list where
  "empty_list = \<lparr>ll_head = 0, ll_tail = 0, ll_num = 0, ll_nodes = Map.empty\<rparr>"

definition boot :: "(nat \<Rightarrow> addr) \<Rightarrow> (syscall list \<Rightarrow> syscall \<Rightarrow> word32) \<Rightarrow> mon" where
  "boot ptrs sys =
     \<lparr>mem = Map.empty, mstates = Map.empty, units = Map.empty, clients = Map.empty, ab_top = 0,
      mstate_list = empty_list, ustate_list = empty_list, mmapped_ustate_list = empty_list,
      client_list = empty_list, cat_gen = 0, ab_curbrk = 0, malloc_lock = False,
      libc_ptrs = ptrs, libc_calls = 0, sys_ret = sys, sys_trace = [], sent = []\<rparr>"

section \<open>Primitive accesses\<close>

definition rd :: "addr \<Rightarrow> word32 call" where
  "rd a s = (case mem s a of None \<Rightarrow> fail Segv | Some v \<Rightarrow> ret (v, s))"

definition wr :: "addr \<Rightarrow> word32 \<Rightarrow> unit call" where
  "wr a v s = (case mem s a of None \<Rightarrow> fail Segv | Some _ \<Rightarrow> ret ((), s\<lparr>mem := (mem s)(a \<mapsto> v)\<rparr>))"

definition get_ms :: "addr \<Rightarrow> malloc_state call" where
  "get_ms p s = (case mstates s p of None \<Rightarrow> fail Segv | Some v \<Rightarrow> ret (v, s))"

definition upd_ms :: "addr \<Rightarrow> (malloc_state \<Rightarrow> malloc_state) \<Rightarrow> unit call" where
  "upd_ms p f s = (case mstates s p of None \<Rightarrow> fail Segv
     | Some v \<Rightarrow> ret ((), s\<lparr>mstates := (mstates s)(p \<mapsto> f v)\<rparr>))"

definition get_us :: "addr \<Rightarrow> unit_state call" where
  "get_us p s = (case units s p of None \<Rightarrow> fail Segv | Some v \<Rightarrow> ret (v, s))"

definition upd_us :: "addr \<Rightarrow> (unit_state \<Rightarrow> unit_state) \<Rightarrow> unit call" where
  "upd_us p f s = (case units s p of None \<Rightarrow> fail Segv
     | Some v \<Rightarrow> ret ((), s\<lparr>units := (units s)(p \<mapsto> f v)\<rparr>))"

definition get_client :: "addr \<Rightarrow> client_desc call" where
  "get_client p s = (case clients s p of None \<Rightarrow> fail Segv | Some v \<Rightarrow> ret (v, s))"

text \<open>An array access that is outside the array is undefined.\<close>

definition arr_get :: "'a list \<Rightarrow> word32 \<Rightarrow> 'a call" where
  "arr_get xs i s = (if unat i < length xs then ret (xs ! unat i, s) else fail Undef)"

definition libc_malloc :: "addr call" where
  "libc_malloc s = ret (libc_ptrs s (libc_calls s), s\<lparr>libc_calls := Suc (libc_calls s)\<rparr>)"

definition sys_call :: "syscall \<Rightarrow> word32 call" where
  "sys_call c s = ret (sys_ret s (sys_trace s) c, s\<lparr>sys_trace := sys_trace s @ [c]\<rparr>)"

definition MALLOC_LOCK :: "unit call" where
  "MALLOC_LOCK s = (if malloc_lock s then fail Deadlock else ret ((), s\<lparr>malloc_lock := True\<rparr>))"

definition MALLOC_UNLOCK :: "unit call" where
  "MALLOC_UNLOCK s = ret ((), s\<lparr>malloc_lock := False\<rparr>)"

lemma rd_Some [simp, st_simps]: "mem s a = Some v \<Longrightarrow> rd a s = ret (v, s)"
  by (simp add: rd_def)

lemma wr_Some [simp, st_simps]:
  "mem s a = Some w \<Longrightarrow> wr a v s = ret ((), s\<lparr>mem := (mem s)(a \<mapsto> v)\<rparr>)"
  by (simp add: wr_def)

lemma get_ms_Some [simp, st_simps]: "mstates s p = Some v \<Longrightarrow> get_ms p s = ret (v, s)"
  by (simp add: get_ms_def)

lemma upd_ms_Some [simp, st_simps]:
  "mstates s p = Some v \<Longrightarrow> upd_ms p f s = ret ((), s\<lparr>mstates := (mstates s)(p \<mapsto> f v)\<rparr>)"
  by (simp add: upd_ms_def)

lemma get_us_Some [simp, st_simps]: "units s p = Some v \<Longrightarrow> get_us p s = ret (v, s)"
  by (simp add: get_us_def)

lemma upd_us_Some [simp, st_simps]:
  "units s p = Some v \<Longrightarrow> upd_us p f s = ret ((), s\<lparr>units := (units s)(p \<mapsto> f v)\<rparr>)"
  by (simp add: upd_us_def)

lemma get_client_Some [simp, st_simps]: "clients s p = Some v \<Longrightarrow> get_client p s = ret (v, s)"
  by (simp add: get_client_def)

lemma null_faults [simp]:
  "units s p = None \<Longrightarrow> get_us p s = fail Segv"
  "mstates s p = None \<Longrightarrow> get_ms p s = fail Segv"
  "clients s p = None \<Longrightarrow> get_client p s = fail Segv"
  "mem s a = None \<Longrightarrow> rd a s = fail Segv"
  by (simp_all add: get_us_def get_ms_def get_client_def rd_def)

lemmas access_eq_ret = rd_def wr_def get_ms_def upd_ms_def get_us_def upd_us_def get_client_def

lemma arr_get_ok [simp, st_simps]: "unat i < length xs \<Longrightarrow> arr_get xs i s = ret (xs ! unat i, s)"
  by (simp add: arr_get_def)

lemma MALLOC_LOCK_simps [simp, st_simps]:
  "\<not> malloc_lock s \<Longrightarrow> MALLOC_LOCK s = ret ((), s\<lparr>malloc_lock := True\<rparr>)"
  "malloc_lock s \<Longrightarrow> MALLOC_LOCK s = fail Deadlock"
  by (simp_all add: MALLOC_LOCK_def)

lemma MALLOC_UNLOCK_app [simp, st_simps]: "MALLOC_UNLOCK s = ret ((), s\<lparr>malloc_lock := False\<rparr>)"
  by (simp add: MALLOC_UNLOCK_def)

lemma sys_call_app [simp, st_simps]:
  "sys_call c s = ret (sys_ret s (sys_trace s) c, s\<lparr>sys_trace := sys_trace s @ [c]\<rparr>)"
  by (simp add: sys_call_def)

lemma libc_malloc_app [simp, st_simps]:
  "libc_malloc s = ret (libc_ptrs s (libc_calls s), s\<lparr>libc_calls := Suc (libc_calls s)\<rparr>)"
  by (simp add: libc_malloc_def)

section \<open>List operations on a list held in the state\<close>

definition insert_head_at ::
  "(mon \<Rightarrow> linked_list) \<Rightarrow> (linked_list \<Rightarrow> mon \<Rightarrow> mon) \<Rightarrow> addr \<Rightarrow> unit call" where
  "insert_head_at g u d =
     sb libc_malloc (\<lambda>new. \<lambda>s. bnd (list_insert_head new (g s) d) (\<lambda>l. ret ((), u l s)))"

definition insert_tail_at ::
  "(mon \<Rightarrow> linked_list) \<Rightarrow> (linked_list \<Rightarrow> mon \<Rightarrow> mon) \<Rightarrow> addr \<Rightarrow> unit call" where
  "insert_tail_at g u d =
     sb libc_malloc (\<lambda>new. \<lambda>s. bnd (list_insert_tail new (g s) d) (\<lambda>l. ret ((), u l s)))"

definition del_entry_at ::
  "(mon \<Rightarrow> linked_list) \<Rightarrow> (linked_list \<Rightarrow> mon \<Rightarrow> mon) \<Rightarrow> addr \<Rightarrow> addr call" where
  "del_entry_at g u e s = bnd (list_del_entry (g s) e) (\<lambda>(d, l). ret (d, u l s))"

lemma insert_head_at_app:
  "insert_head_at g u d s =
     (let s' = s\<lparr>libc_calls := Suc (libc_calls s)\<rparr>
      in bnd (list_insert_head (libc_ptrs s (libc_calls s)) (g s') d) (\<lambda>l. ret ((), u l s')))"
  by (simp add: insert_head_at_def sb_def Let_def)

lemma insert_tail_at_app:
  "insert_tail_at g u d s =
     (let s' = s\<lparr>libc_calls := Suc (libc_calls s)\<rparr>
      in bnd (list_insert_tail (libc_ptrs s (libc_calls s)) (g s') d) (\<lambda>l. ret ((), u l s')))"
  by (simp add: insert_tail_at_def sb_def Let_def)

end
