(* ===== verification/Chunk.thy ===== *)
theory Chunk
  imports Monitor_State
begin

text \<open>
  The chunk layer of the channel-heap allocator: the macros of
  \<^verbatim>\<open>monitor/ablib_malloc.h\<close> (sizes, boundary tags, bins, bin map, fast bins) and
  \<^verbatim>\<open>__malloc_largebin_index\<close> of \<^verbatim>\<open>monitor/ablib_malloc.c\<close>.  A chunk is an address in
  \<open>mem\<close>: \<^verbatim>\<open>prev_size\<close> at offset 0, \<^verbatim>\<open>size\<close> at 4, \<^verbatim>\<open>fd\<close> at 8 and \<^verbatim>\<open>bk\<close> at 12.  The bins array
  starts at offset 68 of a \<open>malloc_state\<close> (label 8, unit list 12, \<^verbatim>\<open>max_fast\<close> 4, ten
  fast bins 40, \<^verbatim>\<open>last_remainder\<close> 4), and is itself part of \<open>mem\<close>.
\<close>

section \<open>Sizes\<close>

definition SIZE_SZ :: word32 where
  "SIZE_SZ = 4"

definition MALLOC_ALIGNMENT :: word32 where
  "MALLOC_ALIGNMENT = 2 * SIZE_SZ"

definition MALLOC_ALIGN_MASK :: word32 where
  "MALLOC_ALIGN_MASK = MALLOC_ALIGNMENT - 1"

definition MIN_CHUNK_SIZE :: word32 where
  "MIN_CHUNK_SIZE = 16"

definition MINSIZE :: word32 where
  "MINSIZE = (MIN_CHUNK_SIZE + MALLOC_ALIGN_MASK) AND NOT MALLOC_ALIGN_MASK"

definition chunk2mem :: "addr \<Rightarrow> addr" where
  "chunk2mem p = p + 2 * SIZE_SZ"

definition mem2chunk :: "addr \<Rightarrow> addr" where
  "mem2chunk m = m - 2 * SIZE_SZ"

definition aligned_OK :: "addr \<Rightarrow> bool" where
  "aligned_OK m \<longleftrightarrow> m AND MALLOC_ALIGN_MASK = 0"

definition REQUEST_OUT_OF_RANGE :: "word32 \<Rightarrow> bool" where
  "REQUEST_OUT_OF_RANGE req \<longleftrightarrow> req \<ge> - 2 * MINSIZE"

definition request2size :: "word32 \<Rightarrow> word32" where
  "request2size req =
     (if req + SIZE_SZ + MALLOC_ALIGN_MASK < MINSIZE then MINSIZE
      else (req + SIZE_SZ + MALLOC_ALIGN_MASK) AND NOT MALLOC_ALIGN_MASK)"

section \<open>Boundary tags\<close>

definition PREV_INUSE :: word32 where
  "PREV_INUSE = 1"

definition IS_MMAPPED :: word32 where
  "IS_MMAPPED = 2"

definition SIZE_BITS :: word32 where
  "SIZE_BITS = PREV_INUSE OR IS_MMAPPED"

text \<open>The fields of \<^verbatim>\<open>struct malloc_chunk\<close> as addresses.\<close>

definition prev_size_of :: "addr \<Rightarrow> addr" where
  "prev_size_of p = p"

definition size_of :: "addr \<Rightarrow> addr" where
  "size_of p = p + 4"

definition fd_of :: "addr \<Rightarrow> addr" where
  "fd_of p = p + 8"

definition bk_of :: "addr \<Rightarrow> addr" where
  "bk_of p = p + 12"

definition prev_inuse :: "addr \<Rightarrow> bool call" where
  "prev_inuse p = sb (rd (size_of p)) (\<lambda>v. sret (v AND PREV_INUSE \<noteq> 0))"

definition chunk_is_mmapped :: "addr \<Rightarrow> bool call" where
  "chunk_is_mmapped p = sb (rd (size_of p)) (\<lambda>v. sret (v AND IS_MMAPPED \<noteq> 0))"

definition chunksize :: "addr \<Rightarrow> word32 call" where
  "chunksize p = sb (rd (size_of p)) (\<lambda>v. sret (v AND NOT SIZE_BITS))"

definition chunk_at_offset :: "addr \<Rightarrow> word32 \<Rightarrow> addr" where
  "chunk_at_offset p n = p + n"

definition inuse :: "addr \<Rightarrow> bool call" where
  "inuse p = sb (rd (size_of p)) (\<lambda>v.
     sb (rd (size_of (p + (v AND NOT PREV_INUSE)))) (\<lambda>w. sret (w AND PREV_INUSE \<noteq> 0)))"

definition inuse_bit_at_offset :: "addr \<Rightarrow> word32 \<Rightarrow> bool call" where
  "inuse_bit_at_offset p n = sb (rd (size_of (p + n))) (\<lambda>v. sret (v AND PREV_INUSE \<noteq> 0))"

definition set_inuse_bit_at_offset :: "addr \<Rightarrow> word32 \<Rightarrow> unit call" where
  "set_inuse_bit_at_offset p n =
     sb (rd (size_of (p + n))) (\<lambda>v. wr (size_of (p + n)) (v OR PREV_INUSE))"

definition set_head_size :: "addr \<Rightarrow> word32 \<Rightarrow> unit call" where
  "set_head_size p n = sb (rd (size_of p)) (\<lambda>v. wr (size_of p) ((v AND PREV_INUSE) OR n))"

definition set_head :: "addr \<Rightarrow> word32 \<Rightarrow> unit call" where
  "set_head p n = wr (size_of p) n"

definition set_foot :: "addr \<Rightarrow> word32 \<Rightarrow> unit call" where
  "set_foot p n = wr (prev_size_of (p + n)) n"

section \<open>Bins\<close>

definition bins_offset :: word32 where
  "bins_offset = 68"

definition bin_at :: "addr \<Rightarrow> word32 \<Rightarrow> addr" where
  "bin_at m i = m + bins_offset + 4 * push_bit 1 i - push_bit 1 SIZE_SZ"

definition next_bin :: "addr \<Rightarrow> addr" where
  "next_bin b = b + push_bit 1 4"

definition unlink :: "addr \<Rightarrow> unit call" where
  "unlink P =
     sb (rd (fd_of P)) (\<lambda>FD.
     sb (rd (bk_of P)) (\<lambda>BK.
     sb (rd (bk_of FD)) (\<lambda>fb.
     if fb \<noteq> P then sfail Aborted else
     sb (rd (fd_of BK)) (\<lambda>bf.
     if bf \<noteq> P then sfail Aborted else
     sb (wr (bk_of FD) BK) (\<lambda>_.
     wr (fd_of BK) FD)))))"

definition NBINS :: word32 where
  "NBINS = 96"

definition NSMALLBINS :: word32 where
  "NSMALLBINS = 32"

definition SMALLBIN_WIDTH :: word32 where
  "SMALLBIN_WIDTH = 8"

definition MIN_LARGE_SIZE :: word32 where
  "MIN_LARGE_SIZE = 256"

definition FIRST_SORTED_BIN_SIZE :: word32 where
  "FIRST_SORTED_BIN_SIZE = MIN_LARGE_SIZE"

definition in_smallbin_range :: "word32 \<Rightarrow> bool" where
  "in_smallbin_range sz \<longleftrightarrow> sz < MIN_LARGE_SIZE"

definition smallbin_index :: "word32 \<Rightarrow> word32" where
  "smallbin_index sz = drop_bit 3 sz"

text \<open>
  The index of the highest set bit of \<open>x \<noteq> 0\<close>: by the \<^verbatim>\<open>bsrl\<close> instruction on i386, by
  shifts and masks elsewhere.
\<close>

definition bsrl :: "word32 \<Rightarrow> word32" where
  "bsrl x = of_nat (last (0 # filter (bit x) [0..<32]))"

definition nlz_highest_bit :: "word32 \<Rightarrow> word32" where
  "nlz_highest_bit x =
     (let n = drop_bit 16 (x - 0x100) AND 8;
          x = push_bit (unat n) x;
          m = drop_bit 16 (x - 0x1000) AND 4;
          n = n + m;
          x = push_bit (unat m) x;
          m = drop_bit 16 (x - 0x4000) AND 2;
          n = n + m;
          x = drop_bit 14 (push_bit (unat m) x)
      in 13 - n + (x AND NOT (drop_bit 1 x)))"

definition malloc_largebin_index :: "word32 \<Rightarrow> word32" where
  "malloc_largebin_index sz =
     (let x = drop_bit (unat SMALLBIN_WIDTH) sz
      in if x \<ge> 0x10000 then NBINS - 1
         else let m = bsrl x
              in NSMALLBINS + push_bit 2 m + (drop_bit (unat (m + 6)) sz AND 3))"

definition bin_index :: "word32 \<Rightarrow> word32" where
  "bin_index sz = (if in_smallbin_range sz then smallbin_index sz else malloc_largebin_index sz)"

definition unsorted_chunks :: "addr \<Rightarrow> addr" where
  "unsorted_chunks m = bin_at m 1"

section \<open>Bin map and fast bins\<close>

definition BINMAPSHIFT :: nat where
  "BINMAPSHIFT = 5"

definition BINMAPSIZE :: word32 where
  "BINMAPSIZE = 3"

definition idx2block :: "word32 \<Rightarrow> word32" where
  "idx2block i = drop_bit BINMAPSHIFT i"

definition idx2bit :: "word32 \<Rightarrow> word32" where
  "idx2bit i = push_bit (unat (i AND (push_bit BINMAPSHIFT 1 - 1))) 1"

definition mark_bin :: "addr \<Rightarrow> word32 \<Rightarrow> unit call" where
  "mark_bin m i =
     sb (get_ms m) (\<lambda>ms.
     sb (arr_get (ms_binmap ms) (idx2block i)) (\<lambda>w.
     upd_ms m (\<lambda>ms. ms\<lparr>ms_binmap := (ms_binmap ms)[unat (idx2block i) := w OR idx2bit i]\<rparr>)))"

definition fastbin_index :: "word32 \<Rightarrow> word32" where
  "fastbin_index sz = drop_bit 3 sz - 2"

definition MAX_FAST_SIZE :: word32 where
  "MAX_FAST_SIZE = 80"

definition NFASTBINS :: word32 where
  "NFASTBINS = fastbin_index (request2size MAX_FAST_SIZE) + 1"

definition ANYCHUNKS_BIT :: word32 where
  "ANYCHUNKS_BIT = 1"

definition FASTCHUNKS_BIT :: word32 where
  "FASTCHUNKS_BIT = 2"

definition have_anychunks :: "malloc_state \<Rightarrow> bool" where
  "have_anychunks ms \<longleftrightarrow> ms_max_fast ms AND ANYCHUNKS_BIT \<noteq> 0"

definition set_anychunks :: "malloc_state \<Rightarrow> malloc_state" where
  "set_anychunks ms = ms\<lparr>ms_max_fast := ms_max_fast ms OR ANYCHUNKS_BIT\<rparr>"

definition have_fastchunks :: "malloc_state \<Rightarrow> bool" where
  "have_fastchunks ms \<longleftrightarrow> ms_max_fast ms AND FASTCHUNKS_BIT \<noteq> 0"

definition set_fastchunks :: "malloc_state \<Rightarrow> malloc_state" where
  "set_fastchunks ms = ms\<lparr>ms_max_fast := ms_max_fast ms OR (FASTCHUNKS_BIT OR ANYCHUNKS_BIT)\<rparr>"

definition clear_fastchunks :: "malloc_state \<Rightarrow> malloc_state" where
  "clear_fastchunks ms = ms\<lparr>ms_max_fast := ms_max_fast ms AND NOT FASTCHUNKS_BIT\<rparr>"

definition set_max_fast :: "malloc_state \<Rightarrow> word32 \<Rightarrow> malloc_state" where
  "set_max_fast ms n =
     ms\<lparr>ms_max_fast := (if n = 0 then SMALLBIN_WIDTH else request2size n) OR
          (ms_max_fast ms AND (FASTCHUNKS_BIT OR ANYCHUNKS_BIT))\<rparr>"

definition set_contiguous :: "malloc_state \<Rightarrow> malloc_state" where
  "set_contiguous ms = ms\<lparr>ms_morecore_properties := ms_morecore_properties ms OR 1\<rparr>"

definition set_noncontiguous :: "malloc_state \<Rightarrow> malloc_state" where
  "set_noncontiguous ms = ms\<lparr>ms_morecore_properties := ms_morecore_properties ms AND NOT 1\<rparr>"

definition fastbin_get :: "addr \<Rightarrow> word32 \<Rightarrow> addr call" where
  "fastbin_get av i = sb (get_ms av) (\<lambda>ms. arr_get (ms_fastbins ms) i)"

definition fastbin_set :: "addr \<Rightarrow> word32 \<Rightarrow> addr \<Rightarrow> unit call" where
  "fastbin_set av i p =
     sb (get_ms av) (\<lambda>ms.
     sb (arr_get (ms_fastbins ms) i) (\<lambda>_.
     upd_ms av (\<lambda>ms. ms\<lparr>ms_fastbins := (ms_fastbins ms)[unat i := p]\<rparr>)))"

section \<open>Circular bins\<close>

definition link :: "(addr \<rightharpoonup> word32) \<Rightarrow> addr \<Rightarrow> addr \<Rightarrow> bool" where
  "link h a b \<longleftrightarrow> h (fd_of a) = Some b \<and> h (bk_of b) = Some a"

fun chain :: "(addr \<rightharpoonup> word32) \<Rightarrow> addr \<Rightarrow> addr list \<Rightarrow> addr \<Rightarrow> bool" where
  "chain h a [] b = link h a b"
| "chain h a (x # xs) b = (link h a x \<and> chain h x xs b)"

text \<open>The nodes are different and their link fields occupy different words.\<close>

definition sep :: "addr list \<Rightarrow> bool" where
  "sep ns \<longleftrightarrow> distinct ns \<and> (\<forall>a\<in>set ns. \<forall>b\<in>set ns. fd_of a \<noteq> bk_of b)"

definition ring :: "(addr \<rightharpoonup> word32) \<Rightarrow> addr \<Rightarrow> addr list \<Rightarrow> bool" where
  "ring h b xs \<longleftrightarrow> chain h b xs b \<and> sep (b # xs)"

text \<open>Making \<open>a\<close> and \<open>b\<close> neighbours.\<close>

definition relink :: "addr \<Rightarrow> addr \<Rightarrow> (addr \<rightharpoonup> word32) \<Rightarrow> addr \<rightharpoonup> word32" where
  "relink a b h = h(fd_of a \<mapsto> b, bk_of b \<mapsto> a)"

section \<open>Word arithmetic\<close>

lemma MALLOC_consts [simp]:
  "SIZE_SZ = 4" "MALLOC_ALIGNMENT = 8" "MALLOC_ALIGN_MASK = 7" "MINSIZE = 16" "MIN_CHUNK_SIZE = 16"
  "PREV_INUSE = 1" "IS_MMAPPED = 2" "SIZE_BITS = 3"
  by (simp_all add: SIZE_SZ_def MALLOC_ALIGNMENT_def MALLOC_ALIGN_MASK_def MINSIZE_def
      MIN_CHUNK_SIZE_def PREV_INUSE_def IS_MMAPPED_def SIZE_BITS_def)

lemma word_and_not_mask: "x AND NOT (mask n) = push_bit n (drop_bit n (x :: word32))"
  by (rule bit_word_eqI) (auto simp: bit_simps)

lemma unat_lt: "unat (x :: word32) < 4294967296"
  using unsigned_less [of x] by simp

lemma unat_and_not_mask: "unat (x AND NOT (mask n) :: word32) = unat x div 2 ^ n * 2 ^ n"
proof -
  have "unat x div 2 ^ n * 2 ^ n \<le> unat x" by (rule div_times_less_eq_dividend)
  also have "unat x < 2 ^ 32" using unsigned_less [of x] by simp
  finally have "take_bit 32 (unat x div 2 ^ n * 2 ^ n) = unat x div 2 ^ n * 2 ^ n"
    by (rule take_bit_nat_eq_self)
  moreover have "unat (push_bit n (drop_bit n x)) = take_bit 32 (push_bit n (drop_bit n (unat x)))"
    using unat_lt [of x] by (simp add: unsigned_push_bit_eq unsigned_drop_bit_eq take_bit_nat_eq_self)
  ultimately show ?thesis
    by (simp add: word_and_not_mask drop_bit_eq_div [of _ "unat x"] push_bit_eq_mult [of _ "_::nat"])
qed

lemma mask_numerals: "(1 :: word32) = mask 1" "(3 :: word32) = mask 2" "(7 :: word32) = mask 3"
  "(31 :: word32) = mask 5" "(0xFFF :: word32) = mask 12"
  by (simp_all add: mask_eq_exp_minus_1)

lemma unat_and_numerals:
  "unat (x AND - 2 :: word32) = unat x div 2 * 2"
  "unat (x AND - 4 :: word32) = unat x div 4 * 4"
  "unat (x AND - 8 :: word32) = unat x div 8 * 8"
  "unat (x AND - 4096 :: word32) = unat x div 4096 * 4096"
  using unat_and_not_mask [of x 1] unat_and_not_mask [of x 2] unat_and_not_mask [of x 3]
    unat_and_not_mask [of x 12]
  by (simp_all add: mask_eq_exp_minus_1)

lemma unat_and_low:
  "unat (x AND 1 :: word32) = unat x mod 2"
  "unat (x AND 3 :: word32) = unat x mod 4"
  "unat (x AND 7 :: word32) = unat x mod 8"
  "unat (x AND 31 :: word32) = unat x mod 32"
proof -
  have *: "unat (x AND mask n) = unat x mod 2 ^ n" for n
    by (simp only: take_bit_eq_mask [symmetric] unsigned_take_bit_eq)
      (simp add: take_bit_eq_mod)
  show "unat (x AND 1 :: word32) = unat x mod 2" "unat (x AND 3 :: word32) = unat x mod 4"
    "unat (x AND 7 :: word32) = unat x mod 8" "unat (x AND 31 :: word32) = unat x mod 32"
    using * [of 1] * [of 2] * [of 3] * [of 5] by (simp_all add: mask_eq_exp_minus_1)
qed

lemma aligned_OK_iff: "aligned_OK m \<longleftrightarrow> unat m mod 8 = 0"
  by (simp add: aligned_OK_def unat_and_low flip: unat_eq_0)

lemma unat_add_le: "unat a + unat b < 2 ^ 32 \<Longrightarrow> unat (a + b :: word32) = unat a + unat b"
  by (rule unat_add_lem [THEN iffD1]) simp

lemma request_in_range: "\<not> REQUEST_OUT_OF_RANGE r \<longleftrightarrow> unat r < 2 ^ 32 - 32"
  by (simp add: REQUEST_OUT_OF_RANGE_def word_le_nat_alt not_le)

lemma unat_request2size:
  assumes "\<not> REQUEST_OUT_OF_RANGE r"
  shows "unat (request2size r) = (if unat r + 11 < 16 then 16 else (unat r + 11) div 8 * 8)"
proof -
  have r: "unat r < 2 ^ 32 - 32" using assms by (simp add: request_in_range)
  then have s: "unat (11 + r) = unat r + 11"
    by (simp add: unat_add_le)
  show ?thesis by (auto simp: request2size_def unat_and_numerals word_less_nat_alt s)
qed

lemma request2size_bounds:
  assumes "\<not> REQUEST_OUT_OF_RANGE r"
  shows "aligned_OK (request2size r) \<and> MINSIZE \<le> request2size r \<and>
    unat r + 4 \<le> unat (request2size r) \<and> unat (request2size r) < unat r + 4 + 16"
  using unat_request2size [OF assms] by (auto simp: aligned_OK_iff word_le_nat_alt)

lemma bsrl_nat: 
  assumes "x \<noteq> 0"
  shows "unat (bsrl x) < 32 \<and> bit x (unat (bsrl x)) \<and> (\<forall>j>unat (bsrl x). \<not> bit x j)"
proof -
  let ?F = "filter (bit x) [0..<32]"
  have ne: "?F \<noteq> []"
  proof
    assume "?F = []"
    then have "\<forall>n<32. \<not> bit x n" by (simp add: filter_empty_conv)
    then have "x = 0" by (intro bit_word_eqI) simp
    with assms show False by simp
  qed
  let ?k = "last ?F"
  have k: "?k \<in> set ?F" using ne by (rule last_in_set)
  have srt: "sorted ?F" by (simp add: sorted_wrt_filter)
  have mx: "j \<le> ?k" if "j \<in> set ?F" for j
  proof -
    have "?F = butlast ?F @ [?k]" using ne by simp
    with srt have "sorted (butlast ?F @ [?k])" by metis
    then have "\<forall>y\<in>set (butlast ?F). y \<le> ?k" by (simp add: sorted_append)
    moreover have "j \<in> set (butlast ?F) \<or> j = ?k" using that ne
      by (metis append_butlast_last_id in_set_conv_decomp_last rotate1.simps(2) set_ConsD set_rotate1)
    ultimately show ?thesis by auto
  qed
  have u: "unat (bsrl x) = ?k"
    using k ne by (simp add: bsrl_def unsigned_of_nat take_bit_nat_eq_self)
  show ?thesis unfolding u
  proof (intro conjI allI impI)
    show "?k < 32" "bit x ?k" using k by auto
    fix j assume "?k < j" 
    then have "j \<notin> set ?F" using mx by fastforce
    then show "\<not> bit x j" by (auto dest: bit_imp_le_length)
  qed
qed

lemma bit_unat: "bit (x :: word32) n \<longleftrightarrow> odd (unat x div 2 ^ n)"
  by (simp add: bit_unsigned_iff flip: bit_iff_odd)

lemma bsrl_range:
  assumes "x \<noteq> 0"
  shows "2 ^ unat (bsrl x) \<le> unat x \<and> unat x < 2 ^ Suc (unat (bsrl x))"
proof -
  let ?k = "unat (bsrl x)"
  from bsrl_nat [OF assms] have b: "bit x ?k" "\<And>j. j > ?k \<Longrightarrow> \<not> bit x j" by auto
  have "take_bit (Suc ?k) x = x" 
  proof (rule bit_word_eqI)
    fix n show "bit (take_bit (Suc ?k) x) n = bit x n"
      using b(2) [of n] by (cases "n > ?k") (auto simp: bit_take_bit_iff)
  qed
  then have "take_bit (Suc ?k) (unat x) = unat x" by (metis unsigned_take_bit_eq)
  then have 1: "unat x < 2 ^ Suc ?k" by (simp add: take_bit_nat_eq_self_iff)
  have "unat x div 2 ^ ?k \<noteq> 0" using b(1) by (metis bit_unat even_zero)
  then have "2 ^ ?k \<le> unat x" by (metis div_less not_less)
  with 1 show ?thesis by simp
qed

lemma pow2_unique: "2 ^ k \<le> (n::nat) \<Longrightarrow> n < 2 ^ Suc k \<Longrightarrow> 2 ^ j \<le> n \<Longrightarrow> n < 2 ^ Suc j \<Longrightarrow> j = k"
proof (rule ccontr)
  assume *: "2 ^ k \<le> n" "n < 2 ^ Suc k" "2 ^ j \<le> n" "n < 2 ^ Suc j" "j \<noteq> k"
  then have "Suc j \<le> k \<or> Suc k \<le> j" by auto
  then have "(2::nat) ^ Suc j \<le> 2 ^ k \<or> (2::nat) ^ Suc k \<le> 2 ^ j"
    by (meson one_le_numeral power_increasing)
  with * show False by linarith
qed

lemma bsrl_unique:
  assumes "2 ^ k \<le> unat x" "unat x < 2 ^ Suc k"
  shows "unat (bsrl x) = k"
proof -
  have "x \<noteq> 0" using assms(1) by auto
  from bsrl_range [OF this] show ?thesis using pow2_unique [OF assms] by simp
qed

lemma unat_drop_bit: "unat (drop_bit n x :: word32) = unat x div 2 ^ n"
  using unat_lt [of x] by (simp add: unsigned_drop_bit_eq take_bit_nat_eq_self flip: drop_bit_eq_div)

lemma unat_push_bit: "unat x * 2 ^ n < 2 ^ 32 \<Longrightarrow> unat (push_bit n x :: word32) = unat x * 2 ^ n"
  by (simp add: unsigned_push_bit_eq take_bit_nat_eq_self flip: push_bit_eq_mult)

lemma unat_largebin_index:
  assumes "256 \<le> unat sz" "unat sz < 2 ^ 24"
  defines "k \<equiv> unat (bsrl (drop_bit 8 sz))"
  shows "unat (malloc_largebin_index sz) = 28 + 4 * k + unat sz div 2 ^ (k + 6)" 
    and "2 ^ (k + 8) \<le> unat sz" "unat sz < 2 ^ (k + 9)" "k \<le> 15"
proof -
  let ?x = "drop_bit 8 sz"
  have ux: "unat ?x = unat sz div 256" by (simp add: unat_drop_bit)
  have x0: "?x \<noteq> 0" using assms(1) ux by (auto simp flip: unat_eq_0 simp: unat_eq_0 div_eq_0_iff)
  have xl: "?x < 0x10000" using assms(2) by (simp add: word_less_nat_alt ux less_mult_imp_div_less)
  from bsrl_range [OF x0] have r: "2 ^ k \<le> unat sz div 256" "unat sz div 256 < 2 ^ Suc k"
    by (simp_all add: k_def ux)
  show lo: "2 ^ (k + 8) \<le> unat sz" using r(1) by (simp add: power_add)
  show hi: "unat sz < 2 ^ (k + 9)" using r(2) by (simp add: power_add)
  have "(2::nat) ^ (k + 8) < 2 ^ 24" using lo assms(2) by linarith
  then have "k + 8 < 24" by (rule nat_power_less_imp_less [rotated]) simp
  then show k: "k \<le> 15" by simp
  have kw: "bsrl ?x = of_nat k" by (simp add: k_def)
  have u6: "unat (of_nat k + 6 :: word32) = k + 6"
    using k by (simp add: unat_add_le unsigned_of_nat take_bit_nat_eq_self)
  have sh: "unat (push_bit 2 (of_nat k :: word32)) = 4 * k"
    using k by (simp add: unat_push_bit unsigned_of_nat take_bit_nat_eq_self)
  define q where "q = unat sz div 2 ^ (k + 6)"
  have q: "4 \<le> q" "q < 8"
    using lo hi by (simp_all add: q_def power_add less_eq_div_iff_mult_less_eq less_mult_imp_div_less)
  then have qm: "q mod 4 = q - 4" by (auto simp: mod_if)
  have dm: "unat (drop_bit (k + 6) sz AND 3) = q - 4"
    by (simp add: unat_and_low unat_drop_bit qm flip: q_def)
  have ns: "\<not> drop_bit 8 sz \<ge> 0x10000" using xl by simp
  have "malloc_largebin_index sz = 32 + push_bit 2 (of_nat k) + (drop_bit (k + 6) sz AND 3)"
    using ns by (simp add: malloc_largebin_index_def SMALLBIN_WIDTH_def NSMALLBINS_def kw u6 Let_def)
  moreover have "unat (32 + push_bit 2 (of_nat k) + (drop_bit (k + 6) sz AND 3) :: word32) = 32 + 4 * k + (q - 4)"
    using k q by (simp add: unat_add_le sh dm)
  ultimately show "unat (malloc_largebin_index sz) = 28 + 4 * k + unat sz div 2 ^ (k + 6)"
    using q by (simp flip: q_def)
qed

lemma largebin_index_top: "2 ^ 24 \<le> unat sz \<Longrightarrow> malloc_largebin_index sz = 95"
  by (simp add: malloc_largebin_index_def SMALLBIN_WIDTH_def NBINS_def word_le_nat_alt unat_drop_bit
      less_eq_div_iff_mult_less_eq)

lemma largebin_index_range:
  assumes "256 \<le> unat sz"
  shows "32 \<le> unat (malloc_largebin_index sz) \<and> unat (malloc_largebin_index sz) \<le> 95"
proof (cases "unat sz < 2 ^ 24")
  case True
  let ?k = "unat (bsrl (drop_bit 8 sz))"
  note L = unat_largebin_index [OF assms True]
  have "4 \<le> unat sz div 2 ^ (?k + 6)" "unat sz div 2 ^ (?k + 6) < 8"
    using L(2,3) by (simp_all add: power_add less_eq_div_iff_mult_less_eq less_mult_imp_div_less)
  then show ?thesis using L(1,4) by linarith
next
  case False
  then show ?thesis by (simp add: largebin_index_top)
qed

lemma largebin_index_mono:
  assumes le: "unat a \<le> unat b" and a: "256 \<le> unat a"
  shows "unat (malloc_largebin_index a) \<le> unat (malloc_largebin_index b)"
proof (cases "unat b < 2 ^ 24")
  case False
  then show ?thesis using largebin_index_range [OF a] by (simp add: largebin_index_top)
next
  case True
  have b: "256 \<le> unat b" and a': "unat a < 2 ^ 24" using le a True by auto
  define k where "k = unat (bsrl (drop_bit 8 a))"
  define l where "l = unat (bsrl (drop_bit 8 b))"
  note A = unat_largebin_index [OF a a', folded k_def]
  note B = unat_largebin_index [OF b True, folded l_def]
  have qa: "unat a div 2 ^ (k + 6) < 8" and qb: "4 \<le> unat b div 2 ^ (l + 6)"
    using A(3) B(2) by (simp_all add: power_add less_eq_div_iff_mult_less_eq less_mult_imp_div_less)
  have "(2::nat) ^ (k + 8) < 2 ^ (l + 9)" using A(2) B(3) le by linarith
  then have "k + 8 < l + 9" by (rule nat_power_less_imp_less [rotated]) simp
  then consider "k = l" | "k < l" by linarith
  then show ?thesis
  proof cases
    case 1
    then show ?thesis using A(1) B(1) le by (simp add: div_le_mono)
  next
    case 2
    then show ?thesis using A(1) B(1) qa qb by linarith
  qed
qed

lemma unat_smallbin_index: "unat (smallbin_index sz) = unat sz div 8"
  by (simp add: smallbin_index_def unat_drop_bit)

lemma in_smallbin_range_iff: "in_smallbin_range sz \<longleftrightarrow> unat sz < 256"
  by (simp add: in_smallbin_range_def MIN_LARGE_SIZE_def word_less_nat_alt)

lemma bin_index_mono_nat:
  assumes "unat a \<le> unat b"
  shows "unat (bin_index a) \<le> unat (bin_index b)"
proof -
  consider "unat b < 256" | "unat a < 256" "256 \<le> unat b" | "256 \<le> unat a" by linarith
  then show ?thesis
  proof cases
    case 1
    then show ?thesis using assms
      by (simp add: bin_index_def in_smallbin_range_iff unat_smallbin_index div_le_mono)
  next
    case 2
    have "unat a div 8 < 32" using 2(1) by (simp add: less_mult_imp_div_less)
    then show ?thesis using 2 largebin_index_range [of b]
      by (simp add: bin_index_def in_smallbin_range_iff unat_smallbin_index)
  next
    case 3
    then show ?thesis using assms largebin_index_mono [of a b]
      by (simp add: bin_index_def in_smallbin_range_iff)
  qed
qed

lemma nlz_step:
  assumes "unat x < 2 ^ 16" "unat c \<le> 0x4000" "b = 8 \<or> b = 4 \<or> b = 2"
  shows "drop_bit 16 (x - c) AND b = (if unat x < unat c then b else (0 :: word32))"
proof (cases "unat x < unat c")
  case True
  have "unat (x - c) = 2 ^ 32 - (unat c - unat x)"
    using True by (simp add: unat_sub_if_size word_size word_le_nat_alt)
  then have "unat (drop_bit 16 (x - c)) = (2 ^ 32 - (unat c - unat x)) div 2 ^ 16"
    by (simp add: unat_drop_bit)
  also have "\<dots> = 2 ^ 16 - 1" using True assms(2) by simp
  finally have "drop_bit 16 (x - c) = 0xFFFF" by (simp add: word_unat_eq_iff)
  then show ?thesis using True assms(3) by auto
next
  case False
  then have "unat (x - c) < 2 ^ 16" using assms(1)
    by (simp add: unat_sub_if_size word_size word_le_nat_alt)
  then have "unat (drop_bit 16 (x - c)) = 0" by (simp add: unat_drop_bit)
  then have "drop_bit 16 (x - c) = 0" by (simp add: unat_eq_0)
  then show ?thesis using False by simp
qed

lemma nlz_final: "x = 1 \<or> x = 2 \<or> x = 3 \<Longrightarrow> x AND NOT (drop_bit 1 x) = (if x = 1 then 1 else (2 :: word32))"
  by auto


lemma nlz_stage:
  assumes x: "unat x < 2 ^ 16" and c: "unat c * 2 ^ unat b = 2 ^ 16" "unat c \<le> 0x4000"
    and b: "b = 8 \<or> b = 4 \<or> b = (2 :: word32)"
    and lo: "unat c \<le> unat x * 2 ^ unat b"
    and m: "m = drop_bit 16 (x - c) AND b"
  shows "unat (push_bit (unat m) x) = unat x * 2 ^ unat m" "unat x * 2 ^ unat m < 2 ^ 16"
    "unat c \<le> unat x * 2 ^ unat m" "m = 0 \<or> m = b"
proof -
  have m': "m = (if unat x < unat c then b else 0)" using nlz_step [OF x c(2) b] m by simp
  show lt: "unat x * 2 ^ unat m < 2 ^ 16"
    using m' x c(1) by (auto split: if_splits) (metis mult_less_cancel2 zero_less_numeral zero_less_power)
  then show "unat (push_bit (unat m) x) = unat x * 2 ^ unat m"
    by (simp add: unat_push_bit)
  show "unat c \<le> unat x * 2 ^ unat m" "m = 0 \<or> m = b" using m' lo by auto
qed

lemma nlz_highest_bit_eq:
  assumes x0: "0 < unat x" and x: "unat x < 2 ^ 16"
  shows "nlz_highest_bit x = bsrl x"
proof -
  define n1 where "n1 = drop_bit 16 (x - 0x100) AND 8"
  define x1 where "x1 = push_bit (unat n1) x"
  define m2 where "m2 = drop_bit 16 (x1 - 0x1000) AND 4"
  define x2 where "x2 = push_bit (unat m2) x1"
  define m3 where "m3 = drop_bit 16 (x2 - 0x4000) AND 2"
  define x3 where "x3 = push_bit (unat m3) x2"
  have 1: "unat x1 = unat x * 2 ^ unat n1" "unat x1 < 2 ^ 16" "0x100 \<le> unat x1" "n1 = 0 \<or> n1 = 8"
    using nlz_stage [OF x, of "0x100" 8 n1] x0 by (auto simp: n1_def x1_def)
  have 2: "unat x2 = unat x1 * 2 ^ unat m2" "unat x2 < 2 ^ 16" "0x1000 \<le> unat x2" "m2 = 0 \<or> m2 = 4"
    using nlz_stage [OF 1(2), of "0x1000" 4 m2] 1(3) by (auto simp: m2_def x2_def)
  have 3: "unat x3 = unat x2 * 2 ^ unat m3" "unat x3 < 2 ^ 16" "0x4000 \<le> unat x3" "m3 = 0 \<or> m3 = 2"
    using nlz_stage [OF 2(2), of "0x4000" 2 m3] 2(3) by (auto simp: m3_def x3_def)
  define n where "n = unat n1 + unat m2 + unat m3"
  have n: "n \<le> 14" using 1(4) 2(4) 3(4) by (auto simp: n_def)
  have X: "unat x3 = unat x * 2 ^ n" using 1(1) 2(1) 3(1) by (simp add: n_def power_add)
  define y where "y = drop_bit 14 x3"
  have uy: "unat y = unat x3 div 2 ^ 14" by (simp add: y_def unat_drop_bit)
  have "1 \<le> unat y" "unat y \<le> 3" using 3(2,3) uy by auto
  then have "unat y = 1 \<or> unat y = 2 \<or> unat y = 3" by linarith
  then have y3: "y = 1 \<or> y = 2 \<or> y = 3" by (simp add: word_unat_eq_iff)
  define t where "t = (if y = 1 then 14 else 15 :: nat)"
  have yt: "y = 1 \<longleftrightarrow> unat x3 < 2 ^ 15" using uy 3(3) by (auto simp: word_unat_eq_iff)
  have t: "2 ^ t \<le> unat x3" "unat x3 < 2 ^ Suc t" using yt 3(2,3) by (auto simp: t_def)
  have "2 ^ (t - n) * 2 ^ n = (2::nat) ^ t" using n by (simp add: t_def flip: power_add)
  moreover have "2 ^ Suc (t - n) * 2 ^ n = (2::nat) ^ Suc t" using n by (simp add: t_def flip: power_add)
  ultimately have "2 ^ (t - n) \<le> unat x" "unat x < 2 ^ Suc (t - n)"
    using t unfolding X by (metis mult_le_cancel2 zero_less_numeral zero_less_power,
      metis mult_less_cancel2)
  from bsrl_unique [OF this] have b: "unat (bsrl x) = t - n" .
  have "nlz_highest_bit x = 13 - (n1 + m2 + m3) + (y AND NOT (drop_bit 1 y))"
    by (simp only: nlz_highest_bit_def Let_def n1_def x1_def m2_def x2_def m3_def x3_def y_def)
  also have "\<dots> = of_nat (t - n)"
    unfolding nlz_final [OF y3] using 1(4) 2(4) 3(4) by (auto simp: n_def t_def)
  finally show ?thesis by (simp flip: b)
qed

section \<open>Lists of free chunks\<close>

lemma fd_bk_inj [simp]:
  "fd_of a = fd_of b \<longleftrightarrow> a = b" "bk_of a = bk_of b \<longleftrightarrow> a = b"
  "fd_of a \<noteq> bk_of a" "bk_of a \<noteq> fd_of a"
  by (simp_all add: fd_of_def bk_of_def)

lemma sepD:
  assumes "sep ns"
  shows "distinct ns" "a \<in> set ns \<Longrightarrow> b \<in> set ns \<Longrightarrow> fd_of a \<noteq> bk_of b"
    "a \<in> set ns \<Longrightarrow> b \<in> set ns \<Longrightarrow> bk_of a \<noteq> fd_of b"
  using assms unfolding sep_def by (blast, blast, metis)

lemma sep_sub: "sep ns \<Longrightarrow> distinct ms \<Longrightarrow> set ms \<subseteq> set ns \<Longrightarrow> sep ms"
  by (auto simp: sep_def)

lemma chain_append [simp]:
  "chain h a (xs @ x # ys) b \<longleftrightarrow> chain h a xs x \<and> chain h x ys b"
  by (induction xs arbitrary: a) auto

lemma chain_frame:
  "c \<notin> fd_of ` set (a # xs) \<Longrightarrow> c \<notin> bk_of ` set (xs @ [b]) \<Longrightarrow>
   chain (h(c := v)) a xs b = chain h a xs b"
  by (induction xs arbitrary: a) (auto simp: link_def)

lemma chain_last:
  assumes "chain h a xs b"
  obtains x where "link h x b" "x = last (a # xs)"
  using assms by (induction xs arbitrary: a) auto

lemma chain_snoc_iff:
  "chain h a (xs @ [x]) b \<longleftrightarrow> chain h a xs x \<and> link h x b"
  by simp

lemma ring_two_sides:
  assumes "ring h b (xs @ p # ys)"
  shows "link h (last (b # xs)) p" "link h p (hd (ys @ [b]))"
  using assms by (auto simp: ring_def elim: chain_last) (cases ys; auto)+

lemma relink_other [simp]: "c \<noteq> fd_of a \<Longrightarrow> c \<noteq> bk_of b \<Longrightarrow> relink a b h c = h c"
  by (simp add: relink_def)

lemma link_relink [simp]: "fd_of a \<noteq> bk_of b \<Longrightarrow> link (relink a b h) a b"
  by (simp add: relink_def link_def)

lemma last_in: "last (b # xs) \<in> set (b # xs)"
  by (rule last_in_set) simp

lemma chain_relink_end:
  assumes "chain h a xs x" "distinct (a # xs)" "y \<notin> set xs"
    and "\<forall>u\<in>set (a # xs). \<forall>v\<in>set (y # xs). fd_of u \<noteq> bk_of v"
  shows "chain (relink (last (a # xs)) y h) a xs y"
  using assms
proof (induction xs arbitrary: a)
  case Nil
  then show ?case by simp
next
  case (Cons z zs)
  have "chain (relink (last (z # zs)) y h) z zs y" using Cons by auto
  moreover have "link (relink (last (z # zs)) y h) a z"
  proof -
    have "last (z # zs) \<in> set (z # zs)" by (rule last_in)
    then have "last (z # zs) \<noteq> a" "fd_of (last (z # zs)) \<noteq> bk_of z" "z \<noteq> y" "fd_of a \<noteq> bk_of y"
      using Cons.prems by auto
    then show ?thesis using Cons.prems(1)
      by (auto simp: link_def relink_def dest: sym simp del: last.simps)
  qed
  ultimately show ?case by simp
qed

lemma chain_relink_frame:
  assumes "chain h a xs b" "u \<notin> set (a # xs)" "\<forall>x\<in>set (xs @ [b]). fd_of u \<noteq> bk_of x"
    "v \<notin> set (xs @ [b])" "\<forall>x\<in>set (a # xs). fd_of x \<noteq> bk_of v"
  shows "chain (relink u v h) a xs b"
proof -
  have "chain (h(fd_of u \<mapsto> v)) a xs b"
    by (subst chain_frame) (use assms in auto)
  then show ?thesis unfolding relink_def
    by (subst chain_frame) (use assms in \<open>auto dest: sym\<close>)
qed

lemma ring_remove:
  assumes "ring h b (xs @ p # ys)"
  shows "ring (relink (last (b # xs)) (hd (ys @ [b])) h) b (xs @ ys)"
proof -
  from assms have c1: "chain h b xs p" and c2: "chain h p ys b" and sp: "sep (b # xs @ p # ys)"
    by (auto simp: ring_def)
  note d = sepD(1) [OF sp] and f = sepD(2) [OF sp]
  have sp': "sep (b # xs @ ys)" by (rule sep_sub [OF sp]) (use d in auto)
  show ?thesis
  proof (cases ys)
    case Nil
    have "chain (relink (last (b # xs)) b h) b xs b"
      by (rule chain_relink_end [OF c1]) (use d f in auto)
    then show ?thesis using Nil sp' by (simp add: ring_def)
  next
    case (Cons y zs)
    have e: "chain (relink (last (b # xs)) y h) b xs y"
      by (rule chain_relink_end [OF c1]) (use d f Cons in auto)
    have "chain h y zs b" using c2 Cons by simp
    then have "chain (relink (last (b # xs)) y h) y zs b"
      by (rule chain_relink_frame) (use d f Cons last_in [of b xs] in auto)
    with e show ?thesis using Cons sp' by (simp add: ring_def)
  qed
qed

lemma ring_insert:
  assumes r: "ring h b (xs @ ys)" and sp: "sep (p # b # xs @ ys)"
  shows "ring (relink p (hd (ys @ [b])) (relink (last (b # xs)) p h)) b (xs @ p # ys)"
proof -
  let ?L = "last (b # xs)"
  note d = sepD(1) [OF sp] and f = sepD(2) [OF sp] and l = last_in [of b xs]
  have sp': "sep (b # xs @ p # ys)" by (rule sep_sub [OF sp]) (use d in auto)
  show ?thesis
  proof (cases ys)
    case Nil
    then have "chain h b xs b" using r by (simp add: ring_def)
    then have "chain (relink ?L p h) b xs p"
      by (rule chain_relink_end) (use d f in auto)
    then have "chain (relink p b (relink ?L p h)) b xs p"
      by (rule chain_relink_frame) (use d f in auto)
    then show ?thesis using Nil sp' f [of p b] by (simp add: ring_def)
  next
    case (Cons y zs)
    have c: "chain h b xs y" "chain h y zs b" using r Cons by (auto simp: ring_def)
    have "chain (relink ?L p h) b xs p"
      by (rule chain_relink_end [OF c(1)]) (use d f in auto)
    then have 1: "chain (relink p y (relink ?L p h)) b xs p"
      by (rule chain_relink_frame) (use d f Cons in auto)
    have "chain (relink ?L p h) y zs b"
      by (rule chain_relink_frame [OF c(2)]) (use d f Cons l in auto)
    then have 2: "chain (relink p y (relink ?L p h)) y zs b"
      by (rule chain_relink_frame) (use d f Cons in auto)
    show ?thesis using 1 2 Cons sp' f [of p y] by (simp add: ring_def)
  qed
qed

lemma unlink_ring:
  assumes r: "ring (mem s) b (xs @ p # ys)"
  defines "B \<equiv> last (b # xs)" and "F \<equiv> hd (ys @ [b])"
  shows "unlink p s = ret ((), s\<lparr>mem := relink B F (mem s)\<rparr>)"
proof -
  from ring_two_sides [OF r] have l: "link (mem s) B p" "link (mem s) p F"
    by (simp_all add: B_def F_def)
  have "B \<in> set (b # xs)" "F \<in> set (ys @ [b])" unfolding B_def F_def
    by (rule last_in, rule hd_in_set, simp)
  then have ne: "fd_of B \<noteq> bk_of F"
    using r sepD(2) [of "b # xs @ p # ys" B F] by (auto simp: ring_def)
  then show ?thesis using l
    by (simp add: unlink_def sb_def link_def relink_def fun_upd_twist [OF ne])
qed

lemma unlink_mismatch:
  assumes "mem s (fd_of p) = Some F" "mem s (bk_of p) = Some B"
    and "mem s (bk_of F) = Some u" "mem s (fd_of B) = Some v" "u \<noteq> p \<or> v \<noteq> p"
  shows "unlink p s = fail Aborted"
  using assms by (auto simp: unlink_def sb_def)

section \<open>Properties\<close>

text \<open>
  A request that is in range is padded to a size that is a multiple of
  the alignment, at least \<^verbatim>\<open>MINSIZE\<close>, holds the request and its header word, and wastes
  less than \<^verbatim>\<open>MINSIZE\<close> bytes; the sum does not wrap around.
\<close>

theorem request2size_fits:
  assumes "\<not> REQUEST_OUT_OF_RANGE r"
  shows "aligned_OK (request2size r) \<and> MINSIZE \<le> request2size r \<and>
    unat r + unat SIZE_SZ \<le> unat (request2size r) \<and>
    unat (request2size r) < unat r + unat SIZE_SZ + unat MINSIZE"
  using unat_request2size [OF assms] by (auto simp: aligned_OK_iff word_le_nat_alt)

theorem request2size_fits_witness:
  "\<not> REQUEST_OUT_OF_RANGE 100 \<and> aligned_OK (request2size 100) \<and> request2size 100 = 104"
  using request2size_fits [of 100]
  by (simp add: REQUEST_OUT_OF_RANGE_def request2size_def word_le_nat_alt)

text \<open>
  Property C34.  The bin index is monotone in the chunk size and every legal chunk
  size is sent to a bin that exists and is neither the missing bin 0 nor the
  unsorted bin 1.  (So every chunk of a higher bin is larger than every chunk of a
  lower bin: the bin-map search of \<^verbatim>\<open>ablib_malloc\<close> is a best-fit search.)
\<close>

theorem bin_index_order:
  "(a \<le> b \<longrightarrow> bin_index a \<le> bin_index b) \<and>
   (MINSIZE \<le> a \<longrightarrow> 2 \<le> bin_index a \<and> bin_index a < NBINS)"
proof (intro conjI impI)
  show "bin_index a \<le> bin_index b" if "a \<le> b"
    using bin_index_mono_nat that by (simp add: word_le_nat_alt)
  assume "MINSIZE \<le> a"
  then have a: "16 \<le> unat a" by (simp add: word_le_nat_alt)
  show "2 \<le> bin_index a"
    using bin_index_mono_nat [of 16 a] a
    by (simp add: word_le_nat_alt bin_index_def [of 16] in_smallbin_range_iff unat_smallbin_index)
  show "bin_index a < NBINS"
  proof (cases "unat a < 256")
    case True
    then have "unat a div 8 < 32" by (simp add: less_mult_imp_div_less)
    with True show ?thesis
      by (simp add: bin_index_def in_smallbin_range_iff NBINS_def word_less_nat_alt unat_smallbin_index)
  next
    case False
    then show ?thesis using largebin_index_range [of a]
      by (simp add: bin_index_def in_smallbin_range_iff NBINS_def word_less_nat_alt)
  qed
qed

theorem bin_index_order_witness:
  "(16 :: word32) \<le> 300 \<and> bin_index 16 \<le> bin_index 300 \<and> 2 \<le> bin_index 16 \<and> bin_index 16 < NBINS"
  using bin_index_order [of 16 300] by (simp add: word_le_nat_alt)

text \<open>
  The two variants of the highest-bit computation in
  \<^verbatim>\<open>__malloc_largebin_index\<close>, the \<^verbatim>\<open>bsrl\<close> instruction and the portable shift-and-mask
  code, agree on every argument the function passes to them.
\<close>

theorem largebin_variants_agree:
  assumes "MIN_LARGE_SIZE \<le> sz" and "drop_bit 8 sz < 0x10000"
  shows "nlz_highest_bit (drop_bit 8 sz) = bsrl (drop_bit 8 sz)"
proof (rule nlz_highest_bit_eq)
  show "0 < unat (drop_bit 8 sz)" using assms(1)
    by (simp add: unat_drop_bit MIN_LARGE_SIZE_def word_le_nat_alt div_greater_zero_iff)
  show "unat (drop_bit 8 sz) < 2 ^ 16" using assms(2) by (simp add: word_less_nat_alt)
qed

theorem largebin_variants_agree_witness:
  "nlz_highest_bit (drop_bit 8 5000) = bsrl (drop_bit 8 5000) \<and> nlz_highest_bit (drop_bit 8 5000) = 4"
proof -
  have "nlz_highest_bit (drop_bit 8 5000) = 4" by code_simp
  moreover have "nlz_highest_bit (drop_bit 8 5000) = bsrl (drop_bit 8 5000)"
    by (rule largebin_variants_agree) (simp_all add: MIN_LARGE_SIZE_def word_le_nat_alt word_less_nat_alt unat_drop_bit)
  ultimately show ?thesis by simp
qed

text \<open>
  Property C26.  \<^verbatim>\<open>unlink\<close> takes a chunk out of the circular list it is on: the list
  loses exactly that chunk, the other chunks keep their order, and no other word
  and no other part of the state changes.
\<close>

theorem unlink_removes:
  assumes r: "ring (mem s) b (xs @ p # ys)"
  shows "\<exists>h. unlink p s = ret ((), s\<lparr>mem := h\<rparr>) \<and> ring h b (xs @ ys) \<and>
    (\<forall>a. a \<notin> fd_of ` set (b # xs) \<longrightarrow> a \<notin> bk_of ` set (ys @ [b]) \<longrightarrow> h a = mem s a)"
proof (intro exI conjI allI impI)
  let ?h = "relink (last (b # xs)) (hd (ys @ [b])) (mem s)"
  show "unlink p s = ret ((), s\<lparr>mem := ?h\<rparr>)" by (rule unlink_ring [OF r])
  show "ring ?h b (xs @ ys)" by (rule ring_remove [OF r])
  fix a assume "a \<notin> fd_of ` set (b # xs)" "a \<notin> bk_of ` set (ys @ [b])"
  moreover have "last (b # xs) \<in> set (b # xs)" "hd (ys @ [b]) \<in> set (ys @ [b])"
    by (rule last_in) (rule hd_in_set, simp)
  ultimately show "?h a = mem s a" by (intro relink_other) auto
qed

definition ring_example :: mon where
  "ring_example = (boot (\<lambda>_. 0) (\<lambda>_ _. 0))
     \<lparr>mem := [fd_of 0x1000 \<mapsto> 0x2000, bk_of 0x2000 \<mapsto> 0x1000,
              fd_of 0x2000 \<mapsto> 0x1000, bk_of 0x1000 \<mapsto> 0x2000]\<rparr>"

theorem unlink_removes_witness:
  "ring (mem ring_example) 0x1000 [0x2000] \<and>
   (\<exists>h. unlink 0x2000 ring_example = ret ((), ring_example\<lparr>mem := h\<rparr>) \<and> ring h 0x1000 [])"
proof -
  have r: "ring (mem ring_example) 0x1000 [0x2000]"
    by (simp add: ring_example_def ring_def link_def sep_def fd_of_def bk_of_def)
  then show ?thesis using unlink_removes [of ring_example "0x1000" "[]" "0x2000" "[]"] by auto
qed

end
