(* ===== verification/Units.thy ===== *)
theory Units
  imports Chunk
begin

text \<open>
  Memory units of the channel heap: obtaining them from the kernel
  (\<^verbatim>\<open>monitor/ablib_brk.c\<close>, \<^verbatim>\<open>monitor/ablib_sbrk.c\<close>), finding the unit or the
  allocator state an address or a label belongs to, placing mapped units, and setting
  the protection of units for each client (the support section of
  \<^verbatim>\<open>monitor/ablib_malloc.c\<close>).
\<close>

section \<open>The break\<close>

definition UNIT_SIZE :: word32 where
  "UNIT_SIZE = 10 * 4096"

definition CHANNEL_SIZE :: word32 where
  "CHANNEL_SIZE = 512 * 1024 * 1024"

definition CHANNEL_ADDR :: addr where
  "CHANNEL_ADDR = 0x80000000"

definition MORECORE_FAILURE :: addr where
  "MORECORE_FAILURE = - 1"

definition ENOMEM :: int where
  "ENOMEM = 12"

definition ablib_brk :: "pid \<Rightarrow> addr \<Rightarrow> int call" where
  "ablib_brk pid a =
     sb (sys_call (Absys_brk pid a)) (\<lambda>newbrk.
     sb (modify (ab_curbrk_update (\<lambda>_. newbrk))) (\<lambda>_.
     if newbrk < a then sret (- ENOMEM) else sret 0))"

definition ablib_sbrk :: "pid \<Rightarrow> word32 \<Rightarrow> addr call" where
  "ablib_sbrk pid increment =
     sb (gets ab_curbrk) (\<lambda>cur.
     sb (if cur = 0
         then sb (ablib_brk pid 0) (\<lambda>rc.
              if rc < 0 then sret False
              else sb (gets ab_curbrk) (\<lambda>cur.
                   sb (sguard Assert_failed (cur = 0x80000000)) (\<lambda>_. sret True)))
         else sret True) (\<lambda>ok.
     if \<not> ok then sret (- 1)
     else sb (gets ab_curbrk) (\<lambda>oldbrk.
          if increment = 0 then sret oldbrk
          else sb (sguard Assert_failed (increment = UNIT_SIZE)) (\<lambda>_.
               if (if 0 <s increment then oldbrk + increment < oldbrk else oldbrk < - increment)
               then sret (- 1)
               else sb (ablib_brk pid (oldbrk + increment)) (\<lambda>rc.
                    sret (if rc < 0 then - 1 else oldbrk))))))"

section \<open>Unit descriptors\<close>

definition unit_init_state :: "addr \<Rightarrow> addr \<Rightarrow> word32 \<Rightarrow> addr \<Rightarrow> addr call" where
  "unit_init_state utop a len av =
     sb libc_malloc (\<lambda>u.
     if u = 0 then sfail Segv
     else sb (modify (\<lambda>s. s\<lparr>units := (units s)
                (u \<mapsto> \<lparr>us_unit_top = utop, us_addr = a, us_length = len, us_unit_av = av\<rparr>)\<rparr>)) (\<lambda>_.
          sret u))"

definition get_node :: "(mon \<Rightarrow> linked_list) \<Rightarrow> addr \<Rightarrow> list_node call" where
  "get_node g p s = (case ll_nodes (g s) p of None \<Rightarrow> fail Segv | Some n \<Rightarrow> ret (n, s))"

section \<open>Lookups\<close>

definition cmp_mstate :: "mon \<Rightarrow> label_t \<Rightarrow> addr \<Rightarrow> bool res" where
  "cmp_mstate s key d = bnd (deref (mstates s) d) (\<lambda>ms. ret (ms_label ms = key))"

definition lookup_mstate_by_label :: "label_t \<Rightarrow> addr call" where
  "lookup_mstate_by_label L s =
     bnd (linked_list_lookup (mstate_list s) (cmp_mstate s L)) (\<lambda>d. ret (d, s))"

definition in_unit :: "unit_state \<Rightarrow> addr \<Rightarrow> bool" where
  "in_unit u ptr \<longleftrightarrow> ptr \<ge> us_addr u \<and> ptr < us_addr u + us_length u"

text \<open>
  The loop runs from the tail of the list of all units towards its head.  Its exit
  condition compares the next node pointer with the address of the list struct
  itself, which is never a node, so only a hit leaves the loop.
\<close>

partial_function (option) lookup_unit_loop :: "addr \<Rightarrow> addr \<Rightarrow> addr call" where
  "lookup_unit_loop ptr victim_unit s =
     sb (get_node ustate_list victim_unit) (\<lambda>n.
     sb (get_us (ln_data n)) (\<lambda>u.
     if in_unit u ptr then sret (ln_data n)
     else lookup_unit_loop ptr (ln_prev n))) s"

definition lookup_ustate_by_mem :: "addr \<Rightarrow> addr call" where
  "lookup_ustate_by_mem ptr = sb (gets (\<lambda>s. ll_tail (ustate_list s))) (lookup_unit_loop ptr)"

definition lookup_label_by_mem :: "addr \<Rightarrow> label_t call" where
  "lookup_label_by_mem ptr =
     sb (lookup_ustate_by_mem ptr) (\<lambda>u.
     sb (get_us u) (\<lambda>unit.
     sb (get_ms (us_unit_av unit)) (\<lambda>ms. sret (ms_label ms))))"

section \<open>Placing mapped units\<close>

partial_function (option) hole_loop :: "word32 \<Rightarrow> addr \<Rightarrow> (addr option) call" where
  "hole_loop sz ptr s =
     (if ptr = 0 then sret None
      else sb (get_node mmapped_ustate_list ptr) (\<lambda>n.
           sb (get_us (ln_data n)) (\<lambda>l_unit.
           sb (get_node mmapped_ustate_list (ln_next n)) (\<lambda>n'.
           sb (get_us (ln_data n')) (\<lambda>h_unit.
           if us_addr l_unit + us_length l_unit + sz < us_addr h_unit
           then sret (Some (us_addr h_unit - sz))
           else hole_loop sz (ln_prev n)))))) s"

text \<open>\<^verbatim>\<open>ab_top\<close> is a chunk pointer, so \<^verbatim>\<open>ab_top + size\<close> advances by \<open>sz\<close> chunks of 16 bytes.\<close>

definition get_unmapped_area :: "word32 \<Rightarrow> addr call" where
  "get_unmapped_area sz =
     sb (gets mmapped_ustate_list) (\<lambda>list.
     if ll_num list = 0 then sret (CHANNEL_ADDR + CHANNEL_SIZE - sz)
     else sb (get_node mmapped_ustate_list (ll_tail list)) (\<lambda>n.
          sb (get_us (ln_data n)) (\<lambda>l_unit.
          if us_addr l_unit + us_length l_unit + sz \<le> CHANNEL_ADDR + CHANNEL_SIZE
          then sret (CHANNEL_ADDR + CHANNEL_SIZE - sz)
          else sb (hole_loop sz (ln_prev n)) (\<lambda>hole.
               case hole of Some a \<Rightarrow> sret a
               | None \<Rightarrow>
                   sb (get_node mmapped_ustate_list (ll_head list)) (\<lambda>n.
                   sb (get_us (ln_data n)) (\<lambda>h_unit.
                   sb (gets ab_top) (\<lambda>abtop.
                   if abtop + 16 * sz \<le> us_addr h_unit then sret (us_addr h_unit - sz)
                   else sret 0)))))))"

definition node_write :: "addr \<Rightarrow> (list_node \<Rightarrow> list_node) \<Rightarrow> unit call" where
  "node_write p f =
     sb (get_node mmapped_ustate_list p) (\<lambda>n.
     modify (\<lambda>s. s\<lparr>mmapped_ustate_list := (mmapped_ustate_list s)
       \<lparr>ll_nodes := (ll_nodes (mmapped_ustate_list s))(p \<mapsto> f n)\<rparr>\<rparr>))"

definition insert_after :: "addr \<Rightarrow> addr \<Rightarrow> unit call" where
  "insert_after ptr d =
     sb libc_malloc (\<lambda>new.
     sb (sguard Assert_failed (new \<noteq> 0)) (\<lambda>_.
     sb (get_node mmapped_ustate_list ptr) (\<lambda>n.
     sb (modify (\<lambda>s. s\<lparr>mmapped_ustate_list := (mmapped_ustate_list s)
          \<lparr>ll_nodes := (ll_nodes (mmapped_ustate_list s))
             (new \<mapsto> \<lparr>ln_data = d, ln_prev = ptr, ln_next = ln_next n\<rparr>)\<rparr>\<rparr>)) (\<lambda>_.
     sb (node_write (ln_next n) (ln_prev_update (\<lambda>_. new))) (\<lambda>_.
     sb (node_write ptr (ln_next_update (\<lambda>_. new))) (\<lambda>_.
     modify (\<lambda>s. s\<lparr>mmapped_ustate_list := (mmapped_ustate_list s)
       \<lparr>ll_num := ll_num (mmapped_ustate_list s) + 1\<rparr>\<rparr>)))))))"

partial_function (option) insert_mmapped_loop :: "unit_state \<Rightarrow> addr \<Rightarrow> addr \<Rightarrow> unit call" where
  "insert_mmapped_loop u d ptr s =
     (if ptr = 0 then sret ()
      else sb (get_node mmapped_ustate_list ptr) (\<lambda>n.
           sb (get_us (ln_data n)) (\<lambda>m.
           if us_addr m + us_length m < us_addr u then insert_after ptr d
           else insert_mmapped_loop u d (ln_prev n)))) s"

definition insert_mmapped_unit :: "addr \<Rightarrow> unit call" where
  "insert_mmapped_unit d =
     sb (gets mmapped_ustate_list) (\<lambda>list.
     if ll_num list = 0
     then insert_head_at mmapped_ustate_list (\<lambda>l s. s\<lparr>mmapped_ustate_list := l\<rparr>) d
     else sb (get_us d) (\<lambda>u.
          sb (get_node mmapped_ustate_list (ll_head list)) (\<lambda>n.
          sb (get_us (ln_data n)) (\<lambda>h.
          if us_addr u < us_addr h
          then insert_head_at mmapped_ustate_list (\<lambda>l s. s\<lparr>mmapped_ustate_list := l\<rparr>) d
          else insert_mmapped_loop u d (ll_tail list)))))"

section \<open>Protection\<close>

definition prot_of :: "mem_prot \<Rightarrow> word32" where
  "prot_of pv = (case pv of PROT_N \<Rightarrow> PROT_NONE | PROT_R \<Rightarrow> PROT_READ
     | PROT_RW \<Rightarrow> PROT_READ OR PROT_WRITE)"

partial_function (option) prot_update_loop ::
  "pid \<Rightarrow> addr \<Rightarrow> word32 \<Rightarrow> label_t \<Rightarrow> addr \<Rightarrow> unit call" where
  "prot_update_loop pid p sz L ptr s =
     (if ptr = 0 then sret ()
      else sb (get_node client_list ptr) (\<lambda>n.
           sb (get_client (ln_data n)) (\<lambda>c.
           if cd_pid c = pid then prot_update_loop pid p sz L (ln_next n)
           else sb (sys_call (Absys_mprotect (cd_pid c) p sz
                      (prot_of (check_mem_prot (label_of_u64 (cd_label c))
                                  (label_of_u64 (cd_ownership c)) L)))) (\<lambda>_.
                prot_update_loop pid p sz L (ln_next n))))) s"

definition prot_update :: "pid \<Rightarrow> addr \<Rightarrow> word32 \<Rightarrow> label_t \<Rightarrow> unit call" where
  "prot_update pid p sz L =
     sb (gets (\<lambda>s. ll_head (client_list s))) (prot_update_loop pid p sz L)"

partial_function (option) malloc_update_loop ::
  "pid \<Rightarrow> label_t \<Rightarrow> own_t \<Rightarrow> addr \<Rightarrow> unit call" where
  "malloc_update_loop pid L O1 ptr s =
     (if ptr = 0 then sret ()
      else sb (get_node ustate_list ptr) (\<lambda>n.
           sb (get_us (ln_data n)) (\<lambda>unit.
           sb (get_ms (us_unit_av unit)) (\<lambda>ms.
           sb (sys_call (Absys_mprotect pid (us_addr unit) (us_length unit)
                 (prot_of (check_mem_prot L O1 (ms_label ms))))) (\<lambda>rc.
           malloc_update_loop pid L O1 (ln_next n)))))) s"

definition malloc_update :: "addr \<Rightarrow> unit call" where
  "malloc_update c_new =
     sb (get_client c_new) (\<lambda>c.
     sb (gets (\<lambda>s. ll_head (ustate_list s))) (\<lambda>hd.
     malloc_update_loop (cd_pid c) (label_of_u64 (cd_label c)) (label_of_u64 (cd_ownership c)) hd))"

section \<open>What the loops compute\<close>

definition prot_calls :: "pid \<Rightarrow> addr \<Rightarrow> word32 \<Rightarrow> label_t \<Rightarrow> client_desc list \<Rightarrow> syscall list" where
  "prot_calls pid p sz L cs =
     map (\<lambda>c. Absys_mprotect (cd_pid c) p sz
            (prot_of (check_mem_prot (label_of_u64 (cd_label c)) (label_of_u64 (cd_ownership c)) L)))
       (filter (\<lambda>c. cd_pid c \<noteq> pid) cs)"

definition update_calls :: "client_desc \<Rightarrow> (unit_state \<times> malloc_state) list \<Rightarrow> syscall list" where
  "update_calls c us =
     map (\<lambda>(u, ms). Absys_mprotect (cd_pid c) (us_addr u) (us_length u)
            (prot_of (check_mem_prot (label_of_u64 (cd_label c)) (label_of_u64 (cd_ownership c))
                        (ms_label ms)))) us"

lemma get_node_Some [simp, st_simps]: "ll_nodes (g s) p = Some n \<Longrightarrow> get_node g p s = ret (n, s)"
  by (simp add: get_node_def)

lemma get_node_None [simp]: "ll_nodes (g s) p = None \<Longrightarrow> get_node g p s = fail Segv"
  by (simp add: get_node_def)

lemma prot_update_loop_seg:
  assumes "dlseg (ll_nodes (client_list s)) q xs 0" "map (clients s) (map snd xs) = map Some cs"
  shows "prot_update_loop pid p sz L (firstof xs 0) s =
    ret ((), s\<lparr>sys_trace := sys_trace s @ prot_calls pid p sz L cs\<rparr>)"
  using assms
proof (induction xs arbitrary: q s cs)
  case Nil
  then show ?case by (simp add: prot_update_loop.simps prot_calls_def)
next
  case (Cons x xs)
  obtain a d where x: "x = (a, d)" by (cases x)
  from Cons.prems x obtain c cs' where cs: "cs = c # cs'" "clients s d = Some c"
    "map (clients s) (map snd xs) = map Some cs'" by (cases cs) auto
  from Cons.prems(1) x have n: "a \<noteq> 0"
    "ll_nodes (client_list s) a = Some \<lparr>ln_data = d, ln_prev = q, ln_next = firstof xs 0\<rparr>"
    and seg: "dlseg (ll_nodes (client_list s)) a xs 0" by auto
  have IH: "prot_update_loop pid p sz L (firstof xs 0) (s\<lparr>sys_trace := t\<rparr>) =
     ret ((), s\<lparr>sys_trace := t @ prot_calls pid p sz L cs'\<rparr>)" for t
    using Cons.IH [of "s\<lparr>sys_trace := t\<rparr>" a cs'] seg cs(3) by simp
  from n cs(1,2) IH IH [of "sys_trace s"] show ?case
    by (simp add: x prot_update_loop.simps [of pid p sz L a] sb_def prot_calls_def)
qed

lemma prot_update_calls:
  assumes "ll_data (client_list s) ds" "map (clients s) ds = map Some cs"
  shows "prot_update pid p sz L s =
    ret ((), s\<lparr>sys_trace := sys_trace s @ prot_calls pid p sz L cs\<rparr>)"
proof -
  from assms(1) obtain xs where xs: "ll_rep (client_list s) xs" "map snd xs = ds"
    by (auto simp: ll_data_def)
  from prot_update_loop_seg [of s 0 xs cs] xs assms(2) show ?thesis
    by (simp add: prot_update_def ll_rep_def)
qed

lemma malloc_update_loop_seg:
  assumes "dlseg (ll_nodes (ustate_list s)) q xs 0"
    and "map (units s) (map snd xs) = map Some (map fst us)"
    and "map (\<lambda>u. mstates s (us_unit_av u)) (map fst us) = map Some (map snd us)"
  shows "malloc_update_loop (cd_pid c) (label_of_u64 (cd_label c)) (label_of_u64 (cd_ownership c))
      (firstof xs 0) s =
    ret ((), s\<lparr>sys_trace := sys_trace s @ update_calls c us\<rparr>)"
  using assms
proof (induction xs arbitrary: q s us)
  case Nil
  then show ?case by (simp add: malloc_update_loop.simps update_calls_def)
next
  case (Cons x xs)
  let ?L = "label_of_u64 (cd_label c)" and ?O = "label_of_u64 (cd_ownership c)"
  obtain a d where x: "x = (a, d)" by (cases x)
  from Cons.prems x obtain u ms us' where us: "us = (u, ms) # us'" "units s d = Some u"
    "mstates s (us_unit_av u) = Some ms"
    "map (units s) (map snd xs) = map Some (map fst us')"
    "map (\<lambda>u. mstates s (us_unit_av u)) (map fst us') = map Some (map snd us')"
    by (cases us) auto
  from Cons.prems(1) x have n: "a \<noteq> 0"
    "ll_nodes (ustate_list s) a = Some \<lparr>ln_data = d, ln_prev = q, ln_next = firstof xs 0\<rparr>"
    and seg: "dlseg (ll_nodes (ustate_list s)) a xs 0" by auto
  have IH: "malloc_update_loop (cd_pid c) ?L ?O (firstof xs 0) (s\<lparr>sys_trace := t\<rparr>) =
     ret ((), s\<lparr>sys_trace := t @ update_calls c us'\<rparr>)" for t
    using Cons.IH [of "s\<lparr>sys_trace := t\<rparr>" a us'] seg us(4,5) by simp
  from n us(1-3) IH show ?case
    by (simp add: x malloc_update_loop.simps [of "cd_pid c" ?L ?O a] sb_def update_calls_def)
qed

lemma lookup_unit_loop_seg:
  assumes "dlseg (ll_nodes (ustate_list s)) 0 xs q" "ll_nodes (ustate_list s) 0 = None"
    and "map (units s) (map snd xs) = map Some us"
  shows "lookup_unit_loop ptr (lastof 0 xs) s =
    (case find (\<lambda>(d, u). in_unit u ptr) (rev (zip (map snd xs) us)) of
       None \<Rightarrow> fail Segv | Some (d, _) \<Rightarrow> ret (d, s))"
  using assms
proof (induction xs arbitrary: q us rule: rev_induct)
  case Nil
  then show ?case by (simp add: lookup_unit_loop.simps sb_def)
next
  case (snoc x xs)
  obtain a d where x: "x = (a, d)" by (cases x)
  from snoc.prems x obtain u us' where us: "us = us' @ [u]" "units s d = Some u"
    "map (units s) (map snd xs) = map Some us'"
    by (cases us rule: rev_cases) auto
  have len: "length us' = length xs" using us(3) by (metis length_map)
  from snoc.prems(1) x have n:
    "ll_nodes (ustate_list s) a = Some \<lparr>ln_data = d, ln_prev = lastof 0 xs, ln_next = q\<rparr>"
    and seg: "dlseg (ll_nodes (ustate_list s)) 0 xs a" by auto
  from n us(2) snoc.IH [OF seg snoc.prems(2) us(3)] show ?case
    by (simp add: x us(1) len lookup_unit_loop.simps [of ptr a] sb_def)
qed

lemma malloc_update_calls:
  assumes "ll_data (ustate_list s) ds" "map (units s) ds = map Some (map fst us)"
    and "map (\<lambda>u. mstates s (us_unit_av u)) (map fst us) = map Some (map snd us)"
    and "clients s p = Some c"
  shows "malloc_update p s = ret ((), s\<lparr>sys_trace := sys_trace s @ update_calls c us\<rparr>)"
proof -
  from assms(1) obtain xs where xs: "ll_rep (ustate_list s) xs" "map snd xs = ds"
    by (auto simp: ll_data_def)
  from malloc_update_loop_seg [of s 0 xs us c] xs assms(2-4) show ?thesis
    by (simp add: malloc_update_def ll_rep_def sb_def)
qed

lemma lookup_ustate_find:
  assumes "ll_data (ustate_list s) ds" "map (units s) ds = map Some us"
  shows "lookup_ustate_by_mem ptr s =
    (case find (\<lambda>(d, u). in_unit u ptr) (rev (zip ds us)) of
       None \<Rightarrow> fail Segv | Some (d, _) \<Rightarrow> ret (d, s))"
proof -
  from assms(1) obtain xs where xs: "ll_rep (ustate_list s) xs" "map snd xs = ds"
    by (auto simp: ll_data_def)
  from lookup_unit_loop_seg [of s xs 0 us] ll_rep_null [OF xs(1)] xs assms(2) show ?thesis
    by (simp add: lookup_ustate_by_mem_def ll_rep_def)
qed

section \<open>Placement\<close>

definition unit_end :: "unit_state \<Rightarrow> nat" where
  "unit_end u = unat (us_addr u) + unat (us_length u)"

definition placed :: "unit_state list \<Rightarrow> bool" where
  "placed us \<longleftrightarrow> sorted_wrt (\<lambda>u v. unit_end u \<le> unat (us_addr v)) us \<and>
     (\<forall>u\<in>set us. 0x80000000 \<le> unat (us_addr u) \<and> us_length u \<noteq> 0 \<and> unit_end u \<le> 0xA0000000)"

definition fits :: "addr \<Rightarrow> word32 \<Rightarrow> unit_state list \<Rightarrow> bool" where
  "fits a sz us \<longleftrightarrow> 0x80000000 \<le> unat a \<and> unat a + unat sz \<le> 0xA0000000 \<and>
     (\<forall>u\<in>set us. unat a + unat sz \<le> unat (us_addr u) \<or> unit_end u \<le> unat a)"

fun holes :: "word32 \<Rightarrow> unit_state list \<Rightarrow> addr option" where
  "holes sz (h # l # us) =
     (if us_addr l + us_length l + sz < us_addr h then Some (us_addr h - sz) else holes sz (l # us))"
| "holes sz _ = None"

lemma hole_loop_seg:
  assumes "dlseg (ll_nodes (mmapped_ustate_list s)) 0 (ys @ (a, d) # zs) 0"
    and "map (units s) (map snd (ys @ [(a, d)])) = map Some us"
  shows "hole_loop sz (lastof 0 ys) s = ret (holes sz (rev us), s)"
  using assms
proof (induction ys arbitrary: a d zs us rule: rev_induct)
  case Nil
  then show ?case by (cases us) (auto simp: hole_loop.simps)
next
  case (snoc y ys)
  obtain b e where y: "y = (b, e)" by (cases y)
  from snoc.prems(2) y obtain us' u v where us: "us = us' @ [u, v]" "units s e = Some u" "units s d = Some v"
    "map (units s) (map snd (ys @ [(b, e)])) = map Some (us' @ [u])"
    by (cases us rule: rev_cases; cases "butlast us" rule: rev_cases) auto
  from snoc.prems(1) y have n: "b \<noteq> 0"
    "ll_nodes (mmapped_ustate_list s) b = Some \<lparr>ln_data = e, ln_prev = lastof 0 ys, ln_next = a\<rparr>"
    "ll_nodes (mmapped_ustate_list s) a = Some \<lparr>ln_data = d, ln_prev = b, ln_next = firstof zs 0\<rparr>"
    by auto
  have IH: "hole_loop sz (lastof 0 ys) s = ret (holes sz (rev (us' @ [u])), s)"
    by (rule snoc.IH [of b e "(a, d) # zs"]) (use snoc.prems(1) y us(4) in auto)
  from n us(2,3) IH show ?case
    by (simp add: y us(1) hole_loop.simps [of sz b] sb_def)
qed

lemma unit_end_add:
  assumes "unit_end u \<le> 0xA0000000" "unat sz \<le> 0x20000000"
  shows "unat (us_addr u + us_length u + sz) = unit_end u + unat sz"
proof -
  have "unat (us_addr u + us_length u) = unit_end u"
    using assms(1) by (simp add: unit_end_def unat_add_le)
  then show ?thesis using assms by (simp add: unat_add_le)
qed

lemma placed_Cons:
  "placed (us @ [u]) \<longleftrightarrow> placed us \<and> (\<forall>v\<in>set us. unit_end v \<le> unat (us_addr u)) \<and>
     0x80000000 \<le> unat (us_addr u) \<and> us_length u \<noteq> 0 \<and> unit_end u \<le> 0xA0000000"
  by (auto simp: placed_def sorted_wrt_append)

lemma unat_sub_le: "unat b \<le> unat a \<Longrightarrow> unat (a - b :: word32) = unat a - unat b"
  by (simp add: unat_sub word_le_nat_alt)

lemma holes_fit:
  assumes "holes sz (h # ts) = Some a" "placed (rev (h # ts))" "unat sz \<le> 0x20000000"
  shows "fits a sz (h # ts) \<and> unat a + unat sz \<le> unat (us_addr h)"
  using assms
proof (induction ts arbitrary: h)
  case Nil
  then show ?case by simp
next
  case (Cons l ts)
  have pl: "placed (rev (l # ts))" and h: "\<forall>v\<in>set (l # ts). unit_end v \<le> unat (us_addr h)"
    "unit_end h \<le> 0xA0000000"
    using Cons.prems(2) placed_Cons [of "rev (l # ts)" h] by auto
  then have l: "0x80000000 \<le> unat (us_addr l)" "unit_end l \<le> 0xA0000000"
    "\<forall>v\<in>set ts. unit_end v \<le> unat (us_addr l)"
    using placed_Cons [of "rev ts" l] by auto
  have hl: "unit_end l \<le> unat (us_addr h)" using h by simp
  have le: "unat (us_addr l) \<le> unit_end l" "unat (us_addr h) \<le> unit_end h"
    by (simp_all add: unit_end_def)
  show ?case
  proof (cases "us_addr l + us_length l + sz < us_addr h")
    case True
    then have a: "a = us_addr h - sz" using Cons.prems(1) by simp
    have lt: "unit_end l + unat sz < unat (us_addr h)"
      using True unit_end_add [OF l(2) Cons.prems(3)] by (simp add: word_less_nat_alt)
    then have ua: "unat a = unat (us_addr h) - unat sz" by (simp add: a unat_sub_le)
    have "\<forall>v\<in>set ts. unit_end v \<le> unat a" using l(3) le lt ua by fastforce
    then show ?thesis using l le lt ua h(2) by (auto simp: fits_def)
  next
    case False
    then have "holes sz (l # ts) = Some a" using Cons.prems(1) by simp
    from Cons.IH [OF this pl Cons.prems(3)] show ?thesis
      using hl le by (auto simp: fits_def)
  qed
qed

lemma fits_rev [simp]: "fits a sz (rev us) = fits a sz us"
  by (simp add: fits_def)

lemma channel_end: "unat sz \<le> 0x20000000 \<Longrightarrow> unat (CHANNEL_ADDR + CHANNEL_SIZE - sz) = 0xA0000000 - unat sz"
  by (subst unat_sub_le) (simp_all add: CHANNEL_ADDR_def CHANNEL_SIZE_def)

lemma tail_fit:
  assumes "placed (us @ [u])" "unat sz < 2 ^ 27"
    and "us_addr u + us_length u + sz \<le> CHANNEL_ADDR + CHANNEL_SIZE"
  shows "fits (CHANNEL_ADDR + CHANNEL_SIZE - sz) sz (us @ [u])"
proof -
  have u: "unit_end u \<le> 0xA0000000" "\<forall>v\<in>set us. unit_end v \<le> unat (us_addr u)"
    "unat (us_addr u) \<le> unit_end u" using assms(1) by (auto simp: placed_Cons unit_end_def)
  then have "unit_end u + unat sz \<le> 0xA0000000"
    using unit_end_add [OF u(1), of sz] assms(2,3)
    by (simp add: word_le_nat_alt CHANNEL_ADDR_def CHANNEL_SIZE_def)
  then show ?thesis using u assms(2) channel_end [of sz] by (auto simp: fits_def)
qed

lemma down_bound:
  assumes "unat sz < 2 ^ 27" "CHANNEL_ADDR + 16 * sz \<le> a"
  shows "0x80000000 + 16 * unat sz \<le> unat a"
proof -
  have "unat (16 * sz) = 16 * unat sz"
    using assms(1) by (subst unat_mult_lem [THEN iffD1]) simp_all
  then have "unat (CHANNEL_ADDR + 16 * sz) = 0x80000000 + 16 * unat sz"
    using assms(1) by (simp add: unat_add_le CHANNEL_ADDR_def)
  then show ?thesis using assms(2) by (simp add: word_le_nat_alt)
qed

lemma down_fit:
  assumes "placed (v # us)" "unat sz < 2 ^ 27" "CHANNEL_ADDR + 16 * sz \<le> us_addr v"
  shows "fits (us_addr v - sz) sz (v # us)"
proof -
  have "0x80000000 + 16 * unat sz \<le> unat (us_addr v)" by (rule down_bound [OF assms(2,3)])
  moreover have "unit_end v \<le> 0xA0000000" "\<forall>w\<in>set us. unit_end v \<le> unat (us_addr w)"
    using assms(1) by (auto simp: placed_def)
  ultimately show ?thesis by (auto simp: fits_def unat_sub_le unit_end_def)
qed

text \<open>The decision \<^verbatim>\<open>get_unmapped_area\<close> takes, on the units in list order.\<close>

definition choose_area :: "word32 \<Rightarrow> unit_state list \<Rightarrow> addr" where
  "choose_area sz us =
     (if us = [] then CHANNEL_ADDR + CHANNEL_SIZE - sz
      else if us_addr (last us) + us_length (last us) + sz \<le> CHANNEL_ADDR + CHANNEL_SIZE
      then CHANNEL_ADDR + CHANNEL_SIZE - sz
      else case holes sz (rev us) of Some a \<Rightarrow> a
      | None \<Rightarrow> if CHANNEL_ADDR + 16 * sz \<le> us_addr (hd us) then us_addr (hd us) - sz else 0)"

lemma get_unmapped_area_choose:
  assumes l: "ll_data (mmapped_ustate_list s) ds" "map (units s) ds = map Some us"
    and ab: "ab_top s = CHANNEL_ADDR"
  shows "get_unmapped_area sz s = ret (choose_area sz us, s)"
proof -
  from l(1) obtain xs where xs: "ll_rep (mmapped_ustate_list s) xs" "map snd xs = ds"
    by (auto simp: ll_data_def)
  show ?thesis
  proof (cases xs rule: rev_cases)
    case Nil
    then have "us = []" using xs l(2) by simp
    then show ?thesis using Nil xs(1)
      by (simp add: get_unmapped_area_def ll_rep_def choose_area_def)
  next
    case (snoc ys x)
    obtain t d where x: "x = (t, d)" by (cases x)
    have mp: "map (units s) (map snd (ys @ [(t, d)])) = map Some us" using l(2) xs(2) snoc x by simp
    then have u: "us \<noteq> []" "units s d = Some (last us)"
      by (cases us rule: rev_cases; simp)+
    from xs(1) snoc x have seg: "dlseg (ll_nodes (mmapped_ustate_list s)) 0 (ys @ (t, d) # []) 0"
      and tl: "ll_tail (mmapped_ustate_list s) = t" and num: "ll_num (mmapped_ustate_list s) \<noteq> 0"
      by (auto simp: ll_rep_def)
    have tn: "ll_nodes (mmapped_ustate_list s) t = Some \<lparr>ln_data = d, ln_prev = lastof 0 ys, ln_next = 0\<rparr>"
      using seg by simp
    have hn: "\<exists>n. ll_nodes (mmapped_ustate_list s) (ll_head (mmapped_ustate_list s)) = Some n \<and>
        units s (ln_data n) = Some (hd us)"
    proof -
      have "xs \<noteq> []" "map (units s) (map snd xs) = map Some us" using snoc xs(2) l(2) by simp_all
      then have "units s (snd (hd xs)) = Some (hd us)" by (cases xs; cases us) simp_all
      with ll_rep_head [OF xs(1) \<open>xs \<noteq> []\<close>] show ?thesis by metis
    qed
    show ?thesis using tn tl num u hole_loop_seg [OF seg mp, of sz] hn ab
      by (auto simp: get_unmapped_area_def sb_def choose_area_def split: option.split)
  qed
qed

lemma choose_area_fits:
  assumes pl: "placed us" and sz: "unat sz < 2 ^ 27" and a: "choose_area sz us \<noteq> 0"
  shows "fits (choose_area sz us) sz us"
proof (cases us rule: rev_cases)
  case Nil
  then show ?thesis using sz channel_end [of sz] by (simp add: choose_area_def fits_def)
next
  case (snoc us' u)
  have hf: "fits a sz us" if "holes sz (rev us) = Some a" for a
    using holes_fit [of sz u "rev us'" a] that pl sz snoc fits_rev [of a sz us] by simp
  obtain v us'' where us2: "us = v # us''" using snoc by (metis append_is_Nil_conv list.exhaust not_Cons_self2)
  then have "hd us = v" by simp
  then show ?thesis using a snoc tail_fit [of us' u sz] down_fit [of v us'' sz] hf pl sz us2
    by (auto simp: choose_area_def split: option.splits if_splits)
qed

lemma insert_mmapped_skip:
  assumes "dlseg (ll_nodes (mmapped_ustate_list s)) 0 (ys @ zs) q"
    and "map (units s) (map snd zs) = map Some us"
    and "\<forall>m\<in>set us. \<not> us_addr m + us_length m < us_addr u"
  shows "insert_mmapped_loop u d (lastof 0 (ys @ zs)) s = insert_mmapped_loop u d (lastof 0 ys) s"
  using assms
proof (induction zs arbitrary: q us rule: rev_induct)
  case Nil
  then show ?case by simp
next
  case (snoc z zs)
  obtain a e where z: "z = (a, e)" by (cases z)
  obtain us' m where us: "us = us' @ [m]" "units s e = Some m" "map (units s) (map snd zs) = map Some us'"
    using snoc.prems(2) z by (cases us rule: rev_cases) auto
  from snoc.prems(1) z have n: "a \<noteq> 0" "ll_nodes (mmapped_ustate_list s) a =
      Some \<lparr>ln_data = e, ln_prev = lastof 0 (ys @ zs), ln_next = q\<rparr>"
    and seg: "dlseg (ll_nodes (mmapped_ustate_list s)) 0 (ys @ zs) a" by auto
  have IH: "insert_mmapped_loop u d (lastof 0 (ys @ zs)) s = insert_mmapped_loop u d (lastof 0 ys) s"
    by (rule snoc.IH [OF seg us(3)]) (use snoc.prems(3) us(1) in auto)
  have "insert_mmapped_loop u d a s = insert_mmapped_loop u d (lastof 0 (ys @ zs)) s"
    using n us snoc.prems(3) by (simp add: insert_mmapped_loop.simps [of u d a] sb_def)
  with IH show ?case by (simp add: z)
qed

lemma insert_after_rep:
  assumes rep: "ll_rep (mmapped_ustate_list s) (ys @ (a, e) # (b, f) # zs)"
    and new: "libc_ptrs s (libc_calls s) = new" "new \<noteq> 0"
      "ll_nodes (mmapped_ustate_list s) new = None"
  shows "\<exists>l. insert_after a d s =
      ret ((), s\<lparr>libc_calls := Suc (libc_calls s), mmapped_ustate_list := l\<rparr>) \<and>
    ll_rep l (ys @ (a, e) # (new, d) # (b, f) # zs)"
proof -
  let ?N = "ll_nodes (mmapped_ustate_list s)"
  from rep have seg: "dlseg ?N 0 ys a" "dlseg ?N b zs 0"
    and n: "?N a = Some \<lparr>ln_data = e, ln_prev = lastof 0 ys, ln_next = b\<rparr>"
      "?N b = Some \<lparr>ln_data = f, ln_prev = a, ln_next = firstof zs 0\<rparr>"
    and nz: "a \<noteq> 0" "b \<noteq> 0" and d: "distinct (map fst (ys @ (a, e) # (b, f) # zs))"
    by (auto simp: ll_rep_def)
  have nn: "new \<notin> fst ` set (ys @ (a, e) # (b, f) # zs)" using rep new(3) ll_rep_nodes by blast
  let ?h = "?N(new \<mapsto> \<lparr>ln_data = d, ln_prev = a, ln_next = b\<rparr>,
      b \<mapsto> \<lparr>ln_data = f, ln_prev = new, ln_next = firstof zs 0\<rparr>,
      a \<mapsto> \<lparr>ln_data = e, ln_prev = lastof 0 ys, ln_next = new\<rparr>)"
  let ?l = "(mmapped_ustate_list s)\<lparr>ll_nodes := ?h, ll_num := ll_num (mmapped_ustate_list s) + 1\<rparr>"
  have ab: "a \<noteq> b" "new \<noteq> a" "new \<noteq> b" "new \<notin> fst ` set ys" "new \<notin> fst ` set zs"
    "a \<notin> fst ` set ys" "a \<notin> fst ` set zs" "b \<notin> fst ` set ys" "b \<notin> fst ` set zs"
    using d nn by auto
  have run: "insert_after a d s = ret ((), s\<lparr>libc_calls := Suc (libc_calls s), mmapped_ustate_list := ?l\<rparr>)"
    using n nz new ab by (simp add: insert_after_def node_write_def sb_def fun_upd_twist)
  have "dlseg ?h 0 (ys @ (a, e) # (new, d) # (b, f) # zs) 0"
    using seg ab nz new(2) by simp
  moreover have "dom ?h = fst ` set (ys @ (a, e) # (new, d) # (b, f) # zs)"
    using rep by (auto simp: ll_rep_def)
  ultimately have "ll_rep ?l (ys @ (a, e) # (new, d) # (b, f) # zs)"
    using rep ab d by (simp add: ll_rep_def)
  with run show ?thesis by blast
qed

lemma insert_after_tail_faults:
  assumes rep: "ll_rep (mmapped_ustate_list s) (ys @ [(a, e)])"
    and new: "libc_ptrs s (libc_calls s) \<noteq> 0"
      "ll_nodes (mmapped_ustate_list s) (libc_ptrs s (libc_calls s)) = None"
  shows "insert_after a d s = fail Segv"
proof -
  let ?N = "ll_nodes (mmapped_ustate_list s)"
  from rep have n: "?N a = Some \<lparr>ln_data = e, ln_prev = lastof 0 ys, ln_next = 0\<rparr>" "?N 0 = None"
    using ll_rep_null [OF rep] by (auto simp: ll_rep_def)
  then show ?thesis using new
    by (auto simp: insert_after_def node_write_def sb_def)
qed

lemma holes_split:
  assumes "holes sz ts = Some a"
  shows "\<exists>us1 l h us2. rev ts = us1 @ l # h # us2 \<and> a = us_addr h - sz \<and>
    us_addr l + us_length l + sz < us_addr h"
  using assms
proof (induction sz ts rule: holes.induct)
  case (1 sz h l us)
  show ?case
  proof (cases "us_addr l + us_length l + sz < us_addr h")
    case True
    with 1 have "rev (h # l # us) = rev us @ l # h # [] \<and> a = us_addr h - sz" by simp
    with True show ?thesis by blast
  next
    case False
    with 1 obtain us1 l' h' us2 where "rev (l # us) = us1 @ l' # h' # us2" "a = us_addr h' - sz"
      "us_addr l' + us_length l' + sz < us_addr h'" by auto
    then show ?thesis by (intro exI [of _ us1] exI [of _ l'] exI [of _ h'] exI [of _ "us2 @ [h]"]) simp
  qed
qed simp_all

text \<open>Where the unit goes: below every unit, or into the hole between two units.\<close>

lemma choose_area_cases:
  assumes pl: "placed us" and sz: "unat sz < 2 ^ 27" and a: "a = choose_area sz us" "a \<noteq> 0" "sz \<noteq> 0"
    and low: "us = [] \<or> a < us_addr (last us)"
  shows "(us = [] \<or> a < us_addr (hd us)) \<or>
    (\<exists>us1 l h us2. us = us1 @ l # h # us2 \<and> us_addr l + us_length l < a \<and> a \<le> us_addr h)"
proof (cases us rule: rev_cases)
  case (snoc us' u)
  have ends: "unit_end v \<le> 0xA0000000" "unat (us_addr v) \<le> unit_end v" if "v \<in> set us" for v
    using pl that by (auto simp: placed_def unit_end_def)
  have f: "fits a sz us" using choose_area_fits [OF pl sz] a by simp
  show ?thesis
  proof (cases "us_addr u + us_length u + sz \<le> CHANNEL_ADDR + CHANNEL_SIZE")
    case True
    then have "unat a = 0xA0000000 - unat sz" "unit_end u + unat sz \<le> 0xA0000000"
      using a snoc sz channel_end [of sz] unit_end_add [of u sz] ends [of u]
      by (simp_all add: choose_area_def word_le_nat_alt CHANNEL_ADDR_def CHANNEL_SIZE_def)
    then show ?thesis using low snoc ends [of u] by (simp add: word_less_nat_alt)
  next
    case False
    show ?thesis
    proof (cases "holes sz (rev us)")
      case None
      then have "a = us_addr (hd us) - sz" "CHANNEL_ADDR + 16 * sz \<le> us_addr (hd us)"
        using a snoc False by (auto simp: choose_area_def split: if_splits)
      moreover from this have "unat sz \<le> unat (us_addr (hd us))" "0 < unat sz"
        using down_bound [OF sz] a(3) by (force, simp add: unat_gt_0)
      ultimately have "a < us_addr (hd us)" by (simp add: word_less_nat_alt unat_sub_le)
      then show ?thesis by blast
    next
      case (Some b)
      then have b: "b = a" using a snoc False by (simp add: choose_area_def)
      from holes_split [OF Some] obtain us1 l h us2 where us: "us = us1 @ l # h # us2"
        "b = us_addr h - sz" "us_addr l + us_length l + sz < us_addr h" by auto
      have "unat (us_addr l + us_length l + 0) = unit_end l"
        using unit_end_add [of l 0] ends [of l] us(1) by simp
      moreover have "unit_end l + unat sz < unat (us_addr h)"
        using unit_end_add [of l sz] ends [of l] us(1,3) sz by (simp add: word_less_nat_alt)
      ultimately have "us_addr l + us_length l < a" "a \<le> us_addr h"
        using us(2) b by (simp_all add: word_less_nat_alt word_le_nat_alt unat_sub_le)
      then show ?thesis using us(1) by blast
    qed
  qed
qed simp

lemma placed_insert:
  assumes pl: "placed (us1 @ us2)" and f: "fits (us_addr u) (us_length u) (us1 @ us2)"
    and u: "us_length u \<noteq> 0" and lo: "\<forall>v\<in>set us1. unit_end v \<le> unat (us_addr u)"
    and hi: "\<forall>v\<in>set us2. us_addr u \<le> us_addr v"
  shows "placed (us1 @ u # us2)"
proof -
  have "unit_end u \<le> unat (us_addr v)" if v: "v \<in> set us2" for v
  proof -
    have "0 < unat (us_length v)" using pl v by (auto simp: placed_def unat_gt_0)
    then have "\<not> unit_end v \<le> unat (us_addr u)"
      using hi v by (auto simp: unit_end_def word_le_nat_alt)
    then show ?thesis using f v by (auto simp: fits_def unit_end_def)
  qed
  then show ?thesis using pl f u lo by (auto simp: placed_def sorted_wrt_append fits_def unit_end_def)
qed

lemma insert_mmapped_below:
  assumes l: "ll_data (mmapped_ustate_list s) ds" "map (units s) ds = map Some us"
    and u: "units s d = Some u" and low: "us = [] \<or> us_addr u < us_addr (hd us)"
    and new: "libc_ptrs s (libc_calls s) \<noteq> 0"
      "ll_nodes (mmapped_ustate_list s) (libc_ptrs s (libc_calls s)) = None"
  shows "\<exists>m. insert_mmapped_unit d s =
      ret ((), s\<lparr>libc_calls := Suc (libc_calls s), mmapped_ustate_list := m\<rparr>) \<and> ll_data m (d # ds)"
proof -
  from l(1) obtain xs where xs: "ll_rep (mmapped_ustate_list s) xs" "map snd xs = ds"
    by (auto simp: ll_data_def)
  have nf: "libc_ptrs s (libc_calls s) \<notin> fst ` set xs" using new(2) ll_rep_nodes [OF xs(1)] by simp
  from list_insert_head_rep [OF xs(1) new(1) nf, of d] obtain m
    where m: "list_insert_head (libc_ptrs s (libc_calls s)) (mmapped_ustate_list s) d = ret m"
      "ll_rep m ((libc_ptrs s (libc_calls s), d) # xs)" by blast
  then have md: "ll_data m (d # ds)" using xs(2) by (force simp: ll_data_def)
  have num: "ll_num (mmapped_ustate_list s) = 0 \<longleftrightarrow> us = []"
    using xs l(2) by (cases xs) (auto simp: ll_rep_def)
  have ih: "insert_head_at mmapped_ustate_list (\<lambda>l s. s\<lparr>mmapped_ustate_list := l\<rparr>) d s =
      ret ((), s\<lparr>libc_calls := Suc (libc_calls s), mmapped_ustate_list := m\<rparr>)"
    using m(1) by (simp add: insert_head_at_app)
  show ?thesis
  proof (cases "us = []")
    case True
    then show ?thesis using num ih md by (intro exI [of _ m]) (simp add: insert_mmapped_unit_def)
  next
    case False
    then have ne: "xs \<noteq> []" "map (units s) (map snd xs) = map Some us" using xs(2) l(2) by auto
    then have "units s (snd (hd xs)) = Some (hd us)" using False by (cases xs; cases us) simp_all
    then obtain n where "ll_nodes (mmapped_ustate_list s) (ll_head (mmapped_ustate_list s)) = Some n"
      "units s (ln_data n) = Some (hd us)" using ll_rep_head [OF xs(1) ne(1)] by metis
    then show ?thesis using False num ih md u low
      by (intro exI [of _ m]) (simp add: insert_mmapped_unit_def sb_def)
  qed
qed

lemma insert_mmapped_unit_loop:
  assumes l: "ll_rep (mmapped_ustate_list s) xs" "map (units s) (map snd xs) = map Some us"
    and ne: "us \<noteq> []" and u: "units s d = Some u" "\<not> us_addr u < us_addr (hd us)"
  shows "insert_mmapped_unit d s = insert_mmapped_loop u d (lastof 0 xs) s"
proof -
  have xs: "xs \<noteq> []" using l(2) ne by auto
  then have "units s (snd (hd xs)) = Some (hd us)" using l(2) ne by (cases xs; cases us) simp_all
  then obtain n where "ll_nodes (mmapped_ustate_list s) (ll_head (mmapped_ustate_list s)) = Some n"
    "units s (ln_data n) = Some (hd us)" using ll_rep_head [OF l(1) xs] by metis
  then show ?thesis using l(1) xs u by (simp add: insert_mmapped_unit_def sb_def ll_rep_def)
qed

lemma insert_mmapped_between:
  assumes l: "ll_data (mmapped_ustate_list s) (ds1 @ dl # dh # ds2)"
    and us: "map (units s) (ds1 @ dl # dh # ds2) = map Some (us1 @ l # h # us2)" "length ds1 = length us1"
    and u: "units s d = Some u" "us_addr l + us_length l < us_addr u"
      "\<not> us_addr u < us_addr (hd (us1 @ [l]))"
      "\<forall>m\<in>set (h # us2). \<not> us_addr m + us_length m < us_addr u"
    and new: "libc_ptrs s (libc_calls s) \<noteq> 0"
      "ll_nodes (mmapped_ustate_list s) (libc_ptrs s (libc_calls s)) = None"
  shows "\<exists>m. insert_mmapped_unit d s =
      ret ((), s\<lparr>libc_calls := Suc (libc_calls s), mmapped_ustate_list := m\<rparr>) \<and>
    ll_data m (ds1 @ dl # d # dh # ds2)"
proof -
  from l obtain xs where xs: "ll_rep (mmapped_ustate_list s) xs" "map snd xs = ds1 @ dl # dh # ds2"
    by (auto simp: ll_data_def)
  then obtain ys a b zs where sp: "xs = ys @ (a, dl) # (b, dh) # zs" "map snd ys = ds1" "map snd zs = ds2"
    by (auto simp: map_eq_append_conv map_eq_Cons_conv)
  from us have uu: "units s dl = Some l" "units s dh = Some h" "map (units s) ds2 = map Some us2"
    by (auto simp: append_eq_append_conv)
  have seg: "dlseg (ll_nodes (mmapped_ustate_list s)) 0 ((ys @ [(a, dl)]) @ (b, dh) # zs) 0"
    and an: "ll_nodes (mmapped_ustate_list s) a = Some \<lparr>ln_data = dl, ln_prev = lastof 0 ys, ln_next = b\<rparr>"
      "a \<noteq> 0"
    using xs(1) sp(1) by (auto simp: ll_rep_def)
  have "insert_mmapped_unit d s = insert_mmapped_loop u d (lastof 0 xs) s"
    by (rule insert_mmapped_unit_loop [OF xs(1), of "us1 @ l # h # us2"])
      (use us(1) u(1,3) xs(2) in \<open>simp_all add: hd_append split: if_splits\<close>)
  also have "\<dots> = insert_mmapped_loop u d (lastof 0 (ys @ [(a, dl)])) s"
    using insert_mmapped_skip [OF seg, of "h # us2" u d] uu sp u(4) by simp
  also have "\<dots> = insert_after a d s"
    using an uu u(2) by (simp add: insert_mmapped_loop.simps [of u d a] sb_def)
  finally have run: "insert_mmapped_unit d s = insert_after a d s" .
  from insert_after_rep [of s ys a dl b dh zs, OF _ refl new, of d] xs(1) sp(1) obtain m
    where m: "insert_after a d s = ret ((), s\<lparr>libc_calls := Suc (libc_calls s), mmapped_ustate_list := m\<rparr>)"
      "ll_rep m (ys @ (a, dl) # (libc_ptrs s (libc_calls s), d) # (b, dh) # zs)" by auto
  then show ?thesis using run sp(2,3) by (force simp: ll_data_def)
qed

lemma insert_mmapped_above:
  assumes l: "ll_data (mmapped_ustate_list s) ds" "map (units s) ds = map Some us" "us \<noteq> []"
    and u: "units s d = Some u" "us_addr (last us) + us_length (last us) < us_addr u"
      "\<not> us_addr u < us_addr (hd us)"
    and new: "libc_ptrs s (libc_calls s) \<noteq> 0"
      "ll_nodes (mmapped_ustate_list s) (libc_ptrs s (libc_calls s)) = None"
  shows "insert_mmapped_unit d s = fail Segv"
proof -
  from l(1) obtain xs where xs: "ll_rep (mmapped_ustate_list s) xs" "map snd xs = ds"
    by (auto simp: ll_data_def)
  have ne: "xs \<noteq> []" and mp: "map (units s) (map snd xs) = map Some us" using xs(2) l(2,3) by auto
  then obtain ys t d' where sp: "xs = ys @ [(t, d')]" by (metis rev_exhaust surj_pair)
  then have ud: "units s d' = Some (last us)" using mp by (cases us rule: rev_cases) auto
  have tn: "ll_nodes (mmapped_ustate_list s) t = Some \<lparr>ln_data = d', ln_prev = lastof 0 ys, ln_next = 0\<rparr>"
    "t \<noteq> 0" using xs(1) sp by (auto simp: ll_rep_def)
  have "insert_mmapped_unit d s = insert_mmapped_loop u d t s"
    using insert_mmapped_unit_loop [OF xs(1) mp l(3) u(1,3)] sp by simp
  also have "\<dots> = insert_after t d s"
    using tn ud u(2) by (simp add: insert_mmapped_loop.simps [of u d t] sb_def)
  also have "\<dots> = fail Segv"
    using insert_after_tail_faults [of s ys t d' d] xs(1) sp new by simp
  finally show ?thesis .
qed

lemma ablib_brk_app:
  "ablib_brk pid a s =
    (let b = sys_ret s (sys_trace s) (Absys_brk pid a);
         s' = s\<lparr>sys_trace := sys_trace s @ [Absys_brk pid a], ab_curbrk := b\<rparr>
     in ret (if b < a then - 12 else 0, s'))"
  by (simp add: ablib_brk_def sb_def Let_def ENOMEM_def)

section \<open>Properties\<close>

text \<open>
  Property C17.  \<^verbatim>\<open>prot_update\<close> issues exactly one \<^verbatim>\<open>absys_mprotect\<close> per client other than
  the allocating one, in list order, for the given range, with the protection that
  \<^verbatim>\<open>check_mem_prot\<close> grants that client for the label; it changes nothing else.
\<close>

theorem prot_update_exact:
  assumes "ll_data (client_list s) ds" and "map (clients s) ds = map Some cs"
  shows "prot_update pid p sz L s =
    ret ((), s\<lparr>sys_trace := sys_trace s @
      map (\<lambda>c. Absys_mprotect (cd_pid c) p sz
             (prot_of (check_mem_prot (label_of_u64 (cd_label c)) (label_of_u64 (cd_ownership c)) L)))
        (filter (\<lambda>c. cd_pid c \<noteq> pid) cs)\<rparr>)"
  using prot_update_calls [OF assms] by (simp add: prot_calls_def)

definition client_example :: client_desc where
  "client_example = \<lparr>cd_unix_addr = [], cd_addr_len = 0, cd_pid = 7, cd_label = 0, cd_ownership = 0\<rparr>"

definition unit_example :: unit_state where
  "unit_example = \<lparr>us_unit_top = 0x80000000, us_addr = 0x80000000, us_length = 40960, us_unit_av = 0x500\<rparr>"

definition mstate_example :: malloc_state where
  "mstate_example =
     \<lparr>ms_label = [5, 0, 0, 0, 0, 0, 0, 0], ms_ustate_list = empty_list, ms_max_fast = 72,
      ms_fastbins = replicate 10 0, ms_last_remainder = 0, ms_binmap = [0, 0, 0, 0],
      ms_trim_threshold = 0, ms_top_pad = 0, ms_mmap_threshold = 40960, ms_n_mmaps = 0,
      ms_n_mmaps_max = 65536, ms_max_n_mmaps = 0, ms_pagesize = 4096, ms_morecore_properties = 1,
      ms_mmapped_mem = 0, ms_sbrked_mem = 0, ms_max_sbrked_mem = 0, ms_max_mmapped_mem = 0,
      ms_max_total_mem = 0\<rparr>"

text \<open>A state with one client (pid 7, empty label) and one unit labelled with secrecy category 5.\<close>

definition units_example :: mon where
  "units_example = (boot (\<lambda>n. 0x9000 + of_nat n * 16) (\<lambda>_ c. case c of Absys_brk _ a \<Rightarrow> a | _ \<Rightarrow> 0))
     \<lparr>client_list := single_list 0x100 0x200, clients := [0x200 \<mapsto> client_example],
      ustate_list := single_list 0x300 0x400, units := [0x400 \<mapsto> unit_example],
      mstates := [0x500 \<mapsto> mstate_example], ab_curbrk := 0x8000A000, ab_top := CHANNEL_ADDR\<rparr>"

theorem prot_update_exact_witness:
  "ll_data (client_list units_example) [0x200] \<and>
   prot_update 3 0x80000000 40960 [5, 0, 0, 0, 0, 0, 0, 0] units_example =
     ret ((), units_example\<lparr>sys_trace := [Absys_mprotect 7 0x80000000 40960 PROT_NONE]\<rparr>)"
proof -
  have l: "ll_data (client_list units_example) [0x200]"
    by (simp add: units_example_def)
  have "prot_of (check_mem_prot (label_of_u64 0) (label_of_u64 0) [5, 0, 0, 0, 0, 0, 0, 0]) = PROT_NONE"
    by code_simp
  then show ?thesis
    using prot_update_exact [OF l, of "[client_example]" 3 "0x80000000" 40960 "[5, 0, 0, 0, 0, 0, 0, 0]"] l
    by (simp add: units_example_def client_example_def boot_def)
qed

text \<open>
  Property C18.  \<^verbatim>\<open>malloc_update\<close> issues, for a new client, exactly one \<^verbatim>\<open>absys_mprotect\<close> per
  existing unit, over the whole unit, with the protection \<^verbatim>\<open>check_mem_prot\<close> grants the
  client for the label of that unit.
\<close>

theorem malloc_update_exact:
  assumes "ll_data (ustate_list s) ds" and "map (units s) ds = map Some us"
    and "map (\<lambda>u. mstates s (us_unit_av u)) us = map Some mss" and "clients s p = Some c"
  shows "malloc_update p s = ret ((), s\<lparr>sys_trace := sys_trace s @
    map (\<lambda>(u, ms). Absys_mprotect (cd_pid c) (us_addr u) (us_length u)
           (prot_of (check_mem_prot (label_of_u64 (cd_label c)) (label_of_u64 (cd_ownership c))
                       (ms_label ms)))) (zip us mss)\<rparr>)"
proof -
  have "length us = length mss" using assms(3) by (metis length_map)
  then show ?thesis
    using malloc_update_calls [OF assms(1), of "zip us mss"] assms(2-4) by (simp add: update_calls_def)
qed

theorem malloc_update_exact_witness:
  "malloc_update 0x200 units_example =
     ret ((), units_example\<lparr>sys_trace := [Absys_mprotect 7 0x80000000 40960 PROT_NONE]\<rparr>)"
proof -
  have l: "ll_data (ustate_list units_example) [0x400]"
    by (simp add: units_example_def)
  have "prot_of (check_mem_prot (label_of_u64 0) (label_of_u64 0) [5, 0, 0, 0, 0, 0, 0, 0]) = PROT_NONE"
    by code_simp
  then show ?thesis
    using malloc_update_exact [OF l, of "[unit_example]" "[mstate_example]" "0x200" client_example]
    by (simp add: units_example_def client_example_def unit_example_def mstate_example_def boot_def)
qed

text \<open>
  \<^verbatim>\<open>lookup_ustate_by_mem\<close> returns the descriptor of the unit that contains
  the address (of the unit nearest the tail, if several do).  There is no not-found
  result: for an address outside every unit the loop runs off the head of the list
  and dereferences \<^verbatim>\<open>NULL\<close>.
\<close>

theorem lookup_ustate_by_mem_exact:
  assumes "ll_data (ustate_list s) ds" and "map (units s) ds = map Some us"
  shows "lookup_ustate_by_mem ptr s =
    (case find (\<lambda>(d, u). in_unit u ptr) (rev (zip ds us)) of
       None \<Rightarrow> fail Segv | Some (d, _) \<Rightarrow> ret (d, s))"
  by (rule lookup_ustate_find [OF assms])

theorem lookup_ustate_by_mem_exact_witness:
  "lookup_ustate_by_mem 0x80000010 units_example = ret (0x400, units_example) \<and>
   lookup_ustate_by_mem 0x90000000 units_example = fail Segv"
proof -
  have l: "ll_data (ustate_list units_example) [0x400]"
    by (simp add: units_example_def)
  show ?thesis
    using lookup_ustate_by_mem_exact [OF l, of "[unit_example]" "0x80000010"]
      lookup_ustate_by_mem_exact [OF l, of "[unit_example]" "0x90000000"]
    by (simp add: units_example_def unit_example_def in_unit_def)
qed



lemma placed_ends:
  assumes "placed us" "v \<in> set us"
  shows "unat (us_addr v + us_length v) = unit_end v" "unat (us_addr v) < unit_end v"
    "unit_end v \<le> 0xA0000000"
proof -
  show e: "unit_end v \<le> 0xA0000000" using assms by (auto simp: placed_def)
  show "unat (us_addr v + us_length v) = unit_end v"
    using unit_end_add [of v 0] e by simp
  show "unat (us_addr v) < unit_end v" using assms by (auto simp: placed_def unit_end_def unat_gt_0)
qed

lemma insert_mmapped_hole:
  assumes l: "ll_data (mmapped_ustate_list s) ds"
    and us: "map (units s) ds = map Some (us1 @ l # h # us2)"
    and pl: "placed (us1 @ l # h # us2)"
    and u: "units s d = Some u" "us_addr l + us_length l < us_addr u" "us_addr u \<le> us_addr h"
    and new: "libc_ptrs s (libc_calls s) \<noteq> 0"
      "ll_nodes (mmapped_ustate_list s) (libc_ptrs s (libc_calls s)) = None"
  shows "\<exists>m ds1 ds2. insert_mmapped_unit d s =
      ret ((), s\<lparr>libc_calls := Suc (libc_calls s), mmapped_ustate_list := m\<rparr>) \<and>
    ds = ds1 @ ds2 \<and> length ds1 = Suc (length us1) \<and> ll_data m (ds1 @ d # ds2)"
proof -
  obtain es1 dl dh es2 where ds: "ds = es1 @ dl # dh # es2" "length es1 = length us1"
    using us by (auto simp: map_eq_append_conv map_eq_Cons_conv dest: map_eq_imp_length_eq)
  have lo: "\<not> us_addr u < us_addr (hd (us1 @ [l]))"
  proof -
    have "unat (us_addr (hd (us1 @ [l]))) \<le> unit_end l"
      using pl placed_ends(2) [OF pl, of l]
      by (cases us1) (auto simp: placed_def unit_end_def)
    also have "\<dots> \<le> unat (us_addr u)"
      using u(2) placed_ends(1) [OF pl, of l] by (simp add: word_less_nat_alt)
    finally show ?thesis by (simp add: word_less_nat_alt)
  qed
  have hi: "\<not> us_addr m + us_length m < us_addr u" if m: "m \<in> set (h # us2)" for m
  proof -
    have "unat (us_addr u) \<le> unat (us_addr h)" using u(3) by (simp add: word_le_nat_alt)
    also have "\<dots> \<le> unit_end m" using m pl placed_ends(2) [OF pl, of h] placed_ends(2) [OF pl, of m]
      by (auto simp: placed_def sorted_wrt_append)
    finally show ?thesis using m placed_ends(1) [OF pl, of m] by (auto simp: word_less_nat_alt)
  qed
  obtain m where m: "insert_mmapped_unit d s =
      ret ((), s\<lparr>libc_calls := Suc (libc_calls s), mmapped_ustate_list := m\<rparr>)"
    "ll_data m (es1 @ dl # d # dh # es2)"
    using insert_mmapped_between [OF l [unfolded ds(1)] us [unfolded ds(1)] ds(2) u(1,2) lo _ new] hi
    by blast
  then show ?thesis using ds
    by (intro exI [of _ m] exI [of _ "es1 @ [dl]"] exI [of _ "dh # es2"]) simp
qed

text \<open>
  A unit placed by \<^verbatim>\<open>get_unmapped_area\<close> below the highest mapped unit is
  inserted by \<^verbatim>\<open>insert_mmapped_unit\<close> so that the list is again in address order
  without overlaps.
\<close>

theorem insert_mmapped_unit_sorted:
  assumes l: "ll_data (mmapped_ustate_list s) ds" "map (units s) ds = map Some us" and pl: "placed us"
    and u: "units s d = Some u" "us_addr u = choose_area (us_length u) us" "us_addr u \<noteq> 0"
      "us_length u \<noteq> 0" "unat (us_length u) < 2 ^ 27"
    and low: "us = [] \<or> us_addr u < us_addr (last us)"
    and new: "libc_ptrs s (libc_calls s) \<noteq> 0"
      "ll_nodes (mmapped_ustate_list s) (libc_ptrs s (libc_calls s)) = None"
  shows "\<exists>m ds1 ds2. insert_mmapped_unit d s =
      ret ((), s\<lparr>libc_calls := Suc (libc_calls s), mmapped_ustate_list := m\<rparr>) \<and>
    ds = ds1 @ ds2 \<and> ll_data m (ds1 @ d # ds2) \<and>
    placed (take (length ds1) us @ u # drop (length ds1) us)"
proof -
  have f: "fits (us_addr u) (us_length u) us" using choose_area_fits [OF pl u(5)] u(2,3) by simp
  from choose_area_cases [OF pl u(5) u(2,3,4) low]
  consider (below) "us = [] \<or> us_addr u < us_addr (hd us)"
    | (hole) us1 l h us2 where "us = us1 @ l # h # us2" "us_addr l + us_length l < us_addr u"
        "us_addr u \<le> us_addr h" by blast
  then show ?thesis
  proof cases
    case below
    have "\<forall>v\<in>set us. us_addr u \<le> us_addr v"
      using below pl by (cases us) (auto simp: placed_def unit_end_def word_less_nat_alt word_le_nat_alt)
    then have "placed (u # us)" using placed_insert [of "[]" us u] pl f u(4) by simp
    then show ?thesis using insert_mmapped_below [OF l u(1) below new]
      by (metis append_Nil drop0 list.size(3) take0)
  next
    case hole
    from insert_mmapped_hole [OF l(1) l(2) [unfolded hole(1)] pl [unfolded hole(1)] u(1) hole(2,3) new]
    obtain m ds1 ds2 where m: "insert_mmapped_unit d s =
        ret ((), s\<lparr>libc_calls := Suc (libc_calls s), mmapped_ustate_list := m\<rparr>)"
      "ds = ds1 @ ds2" "length ds1 = Suc (length us1)" "ll_data m (ds1 @ d # ds2)" by blast
    have "unit_end v \<le> unat (us_addr u)" if "v \<in> set (us1 @ [l])" for v
      using that hole pl placed_ends [OF pl, of l]
      by (auto simp: placed_def sorted_wrt_append word_less_nat_alt)
    moreover have "us_addr u \<le> us_addr v" if "v \<in> set (h # us2)" for v
      using that hole pl placed_ends(2) [OF pl, of h]
      by (auto simp: placed_def sorted_wrt_append word_le_nat_alt)
    ultimately have "placed ((us1 @ [l]) @ u # h # us2)"
      using placed_insert [of "us1 @ [l]" "h # us2" u] pl f u(4) hole(1) by simp
    then show ?thesis using m hole(1) by (intro exI [of _ m] exI [of _ ds1] exI [of _ ds2]) simp
  qed
qed

definition unit_low :: unit_state where
  "unit_low = \<lparr>us_unit_top = 0, us_addr = 0x9FFF0000, us_length = 0x8000, us_unit_av = 0x500\<rparr>"

text \<open>A mapped unit that ends at the end of the channel, and a descriptor for a unit right below.\<close>

definition mapped_example :: mon where
  "mapped_example = units_example
     \<lparr>mmapped_ustate_list := single_list 0x300 0x400,
      units := [0x400 \<mapsto> unit_low\<lparr>us_addr := 0x9FFF8000\<rparr>, 0x410 \<mapsto> unit_low]\<rparr>"

theorem insert_mmapped_unit_sorted_witness:
  "\<exists>m. insert_mmapped_unit 0x410 mapped_example =
     ret ((), mapped_example\<lparr>libc_calls := 1, mmapped_ustate_list := m\<rparr>) \<and> ll_data m [0x410, 0x400]"
proof -
  let ?us = "[unit_low\<lparr>us_addr := 0x9FFF8000\<rparr>]"
  have l: "ll_data (mmapped_ustate_list mapped_example) [0x400]"
    "map (units mapped_example) [0x400] = map Some ?us" "placed ?us"
    "units mapped_example 0x410 = Some unit_low" "us_addr unit_low = choose_area (us_length unit_low) ?us"
    by (simp_all add: mapped_example_def placed_def unit_low_def unit_end_def choose_area_def
        CHANNEL_ADDR_def CHANNEL_SIZE_def)
  have "\<exists>m ds1 ds2. insert_mmapped_unit 0x410 mapped_example =
      ret ((), mapped_example\<lparr>libc_calls := 1, mmapped_ustate_list := m\<rparr>) \<and>
    [0x400] = ds1 @ ds2 \<and> ll_data m (ds1 @ 0x410 # ds2) \<and>
    placed (take (length ds1) ?us @ unit_low # drop (length ds1) ?us)"
    using insert_mmapped_unit_sorted [OF l(1-5)]
    by (simp add: unit_low_def mapped_example_def units_example_def boot_def single_list_def)
  then obtain m ds1 ds2 where m: "insert_mmapped_unit 0x410 mapped_example =
      ret ((), mapped_example\<lparr>libc_calls := 1, mmapped_ustate_list := m\<rparr>)"
    "[0x400] = ds1 @ ds2" "ll_data m (ds1 @ 0x410 # ds2)"
    "placed (take (length ds1) ?us @ unit_low # drop (length ds1) ?us)" by blast
  then have "ds1 = [] \<and> ds2 = [0x400]"
    by (cases ds1) (auto simp: placed_def unit_low_def unit_end_def)
  with m show ?thesis by auto
qed

text \<open>
  When there is more than enough room between the highest mapped unit
  and the end of the channel (after a free of the highest one, for instance), the
  next mapped unit is placed above all others, and inserting it dereferences the
  \<^verbatim>\<open>NULL\<close> successor of the tail: the arbiter dies.
\<close>

theorem insert_mmapped_unit_above_faults:
  assumes l: "ll_data (mmapped_ustate_list s) ds" "map (units s) ds = map Some us" "us \<noteq> []"
    and pl: "placed us" and room: "unit_end (last us) + unat (us_length u) < 0xA0000000"
    and u: "units s d = Some u" "us_addr u = choose_area (us_length u) us"
    and new: "libc_ptrs s (libc_calls s) \<noteq> 0"
      "ll_nodes (mmapped_ustate_list s) (libc_ptrs s (libc_calls s)) = None"
  shows "insert_mmapped_unit d s = fail Segv"
proof (rule insert_mmapped_above [OF l u(1) _ _ new])
  have lm: "last us \<in> set us" using l(3) by simp
  have "unat (us_addr (last us)) \<ge> 0x80000000" using pl lm by (auto simp: placed_def)
  then have small: "unat (us_length u) < 0x20000000" using room by (simp add: unit_end_def)
  then have "unat (us_addr (last us) + us_length (last us) + us_length u) =
      unit_end (last us) + unat (us_length u)"
    using unit_end_add placed_ends(3) [OF pl lm] by simp
  then have "us_addr u = CHANNEL_ADDR + CHANNEL_SIZE - us_length u"
    using u(2) l(3) room by (simp add: choose_area_def word_le_nat_alt CHANNEL_ADDR_def CHANNEL_SIZE_def)
  then have ua: "unat (us_addr u) = 0xA0000000 - unat (us_length u)"
    using channel_end [of "us_length u"] small by simp
  show above: "us_addr (last us) + us_length (last us) < us_addr u"
    using placed_ends(1) [OF pl lm] ua room by (simp add: word_less_nat_alt)
  have "unat (us_addr (hd us)) \<le> unit_end (last us)"
    using pl l(3) lm placed_ends(2) [OF pl lm]
    by (cases us) (auto simp: placed_def unit_end_def)
  then show "\<not> us_addr u < us_addr (hd us)" using ua room by (simp add: word_less_nat_alt)
qed

theorem insert_mmapped_unit_above_faults_witness:
  "insert_mmapped_unit 0x410
     (mapped_example\<lparr>units := [0x400 \<mapsto> unit_low, 0x410 \<mapsto> unit_low\<lparr>us_addr := 0x9FFFF000, us_length := 0x1000\<rparr>]\<rparr>) =
   fail Segv"
proof -
  let ?u = "unit_low\<lparr>us_addr := 0x9FFFF000, us_length := 0x1000\<rparr>"
  let ?s = "mapped_example\<lparr>units := [0x400 \<mapsto> unit_low, 0x410 \<mapsto> ?u]\<rparr>"
  have l: "ll_data (mmapped_ustate_list ?s) [0x400]" "map (units ?s) [0x400] = map Some [unit_low]"
    "[unit_low] \<noteq> []" "placed [unit_low]" "unit_end (last [unit_low]) + unat (us_length ?u) < 0xA0000000"
    "units ?s 0x410 = Some ?u" "us_addr ?u = choose_area (us_length ?u) [unit_low]"
    by (simp_all add: mapped_example_def placed_def unit_low_def unit_end_def choose_area_def
        CHANNEL_ADDR_def CHANNEL_SIZE_def)
  show ?thesis
    using insert_mmapped_unit_above_faults [OF l]
    by (simp add: mapped_example_def units_example_def boot_def single_list_def)
qed

text \<open>
  After the first call, \<^verbatim>\<open>ablib_sbrk\<close> asks the kernel to move the break by
  one unit: if the kernel moves it that far, the call returns the old break, which is
  where the new unit starts; otherwise it returns -1.
\<close>

theorem ablib_sbrk_unit:
  assumes "ab_curbrk s = b" and "b \<noteq> 0" and "unat b + unat UNIT_SIZE < 2 ^ 32"
    and "sys_ret s (sys_trace s) (Absys_brk pid (b + UNIT_SIZE)) = b'"
  shows "ablib_sbrk pid UNIT_SIZE s =
    ret (if b + UNIT_SIZE \<le> b' then b else - 1,
         s\<lparr>sys_trace := sys_trace s @ [Absys_brk pid (b + UNIT_SIZE)], ab_curbrk := b'\<rparr>)"
proof -
  have "0 <s UNIT_SIZE" by code_simp
  moreover have "\<not> b + UNIT_SIZE < b" "UNIT_SIZE \<noteq> 0"
    using assms(3) by (simp_all add: word_less_nat_alt unat_add_le UNIT_SIZE_def)
  ultimately show ?thesis using assms
    by (auto simp: ablib_sbrk_def sb_def ablib_brk_app Let_def not_less not_le)
qed

theorem ablib_sbrk_unit_witness:
  "ablib_sbrk 7 UNIT_SIZE units_example =
     ret (0x8000A000, units_example\<lparr>sys_trace := [Absys_brk 7 0x80014000], ab_curbrk := 0x80014000\<rparr>)"
  using ablib_sbrk_unit [of units_example "0x8000A000" 7 "0x80014000"]
  by (simp add: units_example_def boot_def UNIT_SIZE_def)

end
