(* ===== verification/AB_Free.thy ===== *)
theory AB_Free
  imports Units
begin

text \<open>
  \<^verbatim>\<open>monitor/ablib_free.c\<close>: initialisation of an allocator state, consolidation of the
  fast bins and \<^verbatim>\<open>ablib_free\<close>.
\<close>

section \<open>Initialisation\<close>

definition DEFAULT_MXFAST :: word32 where
  "DEFAULT_MXFAST = 64"

definition DEFAULT_TRIM_THRESHOLD :: word32 where
  "DEFAULT_TRIM_THRESHOLD = 10 * 1024 * 4"

definition DEFAULT_TOP_PAD :: word32 where
  "DEFAULT_TOP_PAD = 0"

definition DEFAULT_MMAP_THRESHOLD :: word32 where
  "DEFAULT_MMAP_THRESHOLD = UNIT_SIZE"

definition DEFAULT_MMAP_MAX :: word32 where
  "DEFAULT_MMAP_MAX = 65536"

definition FASTBIN_CONSOLIDATION_THRESHOLD :: word32 where
  "FASTBIN_CONSOLIDATION_THRESHOLD = drop_bit 1 DEFAULT_TRIM_THRESHOLD"

fun init_bins :: "addr \<Rightarrow> word32 list \<Rightarrow> unit call" where
  "init_bins av [] = sret ()"
| "init_bins av (i # is) =
     (let bin = bin_at av i
      in sb (wr (bk_of bin) bin) (\<lambda>_. sb (wr (fd_of bin) bin) (\<lambda>_. init_bins av is)))"

definition malloc_init_state :: "addr \<Rightarrow> unit call" where
  "malloc_init_state av =
     sb (init_bins av (map of_nat [1..<unat NBINS])) (\<lambda>_.
     sb (upd_ms av (\<lambda>ms. set_max_fast (set_contiguous (ms
          \<lparr>ms_top_pad := DEFAULT_TOP_PAD, ms_n_mmaps_max := DEFAULT_MMAP_MAX,
           ms_mmap_threshold := DEFAULT_MMAP_THRESHOLD,
           ms_trim_threshold := DEFAULT_TRIM_THRESHOLD\<rparr>)) DEFAULT_MXFAST)) (\<lambda>_.
     sb (upd_ms av (\<lambda>ms. ms\<lparr>ms_ustate_list := init_linked_list (ms_ustate_list ms),
          ms_pagesize := 4096\<rparr>)) (\<lambda>_.
     insert_tail_at mstate_list (\<lambda>l s. s\<lparr>mstate_list := l\<rparr>) av)))"

text \<open>The arbiter maps the whole channel and writes it with zeroes.\<close>

definition in_channel :: "addr \<Rightarrow> bool" where
  "in_channel a \<longleftrightarrow> CHANNEL_ADDR \<le> a \<and> a < CHANNEL_ADDR + CHANNEL_SIZE \<and> a AND 3 = 0"

definition map_channel :: "unit call" where
  "map_channel =
     sb (sys_call (Mmap CHANNEL_ADDR CHANNEL_SIZE)) (\<lambda>r.
     if r = - 1 then sfail Segv
     else modify (\<lambda>s. s\<lparr>mem := (\<lambda>a. if in_channel a then Some 0 else mem s a)\<rparr>))"

definition init_abheap :: "unit call" where
  "init_abheap =
     sb (modify (\<lambda>s. s\<lparr>mstate_list := init_linked_list (mstate_list s),
                       ustate_list := init_linked_list (ustate_list s),
                       mmapped_ustate_list := init_linked_list (mmapped_ustate_list s),
                       ab_top := CHANNEL_ADDR\<rparr>)) (\<lambda>_. map_channel)"

section \<open>Consolidation\<close>

text \<open>Merging with a free chunk right before: the merged chunk and its size.\<close>

definition consolidate_backward :: "addr \<Rightarrow> word32 \<Rightarrow> (addr \<times> word32) call" where
  "consolidate_backward p sz =
     sb (prev_inuse p) (\<lambda>pi.
     if pi then sret (p, sz)
     else sb (rd (prev_size_of p)) (\<lambda>prevsize.
          let q = chunk_at_offset p (- prevsize)
          in sb (unlink q) (\<lambda>_. sret (q, sz + prevsize))))"

definition consolidate_chunk :: "addr \<Rightarrow> addr \<Rightarrow> addr call" where
  "consolidate_chunk av p =
     sb (rd (fd_of p)) (\<lambda>nextp.
     sb (rd (size_of p)) (\<lambda>v.
     let sz = v AND NOT PREV_INUSE; nextchunk = chunk_at_offset p sz; unsorted_bin = unsorted_chunks av in
     sb (chunksize nextchunk) (\<lambda>nextsize.
     sb (consolidate_backward p sz) (\<lambda>(p, sz).
     sb (lookup_ustate_by_mem p) (\<lambda>unit.
     sb (get_us unit) (\<lambda>u.
     if nextchunk \<noteq> us_unit_top u
     then sb (inuse_bit_at_offset nextchunk nextsize) (\<lambda>nextinuse.
          sb (set_head nextchunk nextsize) (\<lambda>_.
          sb (if \<not> nextinuse then sb (unlink nextchunk) (\<lambda>_. sret (sz + nextsize)) else sret sz) (\<lambda>sz.
          sb (rd (fd_of unsorted_bin)) (\<lambda>first_unsorted.
          sb (wr (fd_of unsorted_bin) p) (\<lambda>_.
          sb (wr (bk_of first_unsorted) p) (\<lambda>_.
          sb (set_head p (sz OR PREV_INUSE)) (\<lambda>_.
          sb (wr (bk_of p) unsorted_bin) (\<lambda>_.
          sb (wr (fd_of p) first_unsorted) (\<lambda>_.
          sb (set_foot p sz) (\<lambda>_. sret nextp))))))))))
     else sb (set_head p ((sz + nextsize) OR PREV_INUSE)) (\<lambda>_.
          sb (upd_us unit (\<lambda>u. u\<lparr>us_unit_top := p\<rparr>)) (\<lambda>_. sret nextp))))))))"

partial_function (option) consolidate_bin :: "addr \<Rightarrow> addr \<Rightarrow> unit call" where
  "consolidate_bin av p s =
     sb (consolidate_chunk av p) (\<lambda>nextp.
     if nextp \<noteq> 0 then consolidate_bin av nextp else sret ()) s"

fun consolidate_bins :: "addr \<Rightarrow> word32 list \<Rightarrow> unit call" where
  "consolidate_bins av [] = sret ()"
| "consolidate_bins av (i # is) =
     sb (fastbin_get av i) (\<lambda>p.
     sb (if p \<noteq> 0 then sb (fastbin_set av i 0) (\<lambda>_. consolidate_bin av p) else sret ()) (\<lambda>_.
     consolidate_bins av is))"

definition malloc_consolidate :: "addr \<Rightarrow> unit call" where
  "malloc_consolidate av =
     sb (get_ms av) (\<lambda>ms.
     if ms_max_fast ms \<noteq> 0
     then sb (upd_ms av clear_fastchunks) (\<lambda>_.
          consolidate_bins av (map of_nat [0..<Suc (unat (fastbin_index (ms_max_fast ms)))]))
     else sb (gets (\<lambda>s. ll_num (mstate_list s))) (\<lambda>n.
          sb (if n = 0 then init_abheap else sret ()) (\<lambda>_. malloc_init_state av)))"

section \<open>Free\<close>

definition free_fast :: "addr \<Rightarrow> addr \<Rightarrow> word32 \<Rightarrow> unit call" where
  "free_fast av p sz =
     sb (upd_ms av set_fastchunks) (\<lambda>_.
     sb (fastbin_get av (fastbin_index sz)) (\<lambda>old.
     sb (wr (fd_of p) old) (\<lambda>_.
     fastbin_set av (fastbin_index sz) p)))"

text \<open>The merged chunk goes to the front of the unsorted list; the result is its size.\<close>

definition free_to_unsorted :: "addr \<Rightarrow> addr \<Rightarrow> word32 \<Rightarrow> addr \<Rightarrow> word32 \<Rightarrow> word32 call" where
  "free_to_unsorted av p sz nextchunk nextsize =
     sb (inuse_bit_at_offset nextchunk nextsize) (\<lambda>nextinuse.
     sb (set_head nextchunk nextsize) (\<lambda>_.
     sb (if \<not> nextinuse then sb (unlink nextchunk) (\<lambda>_. sret (sz + nextsize)) else sret sz) (\<lambda>sz.
     let bck = unsorted_chunks av in
     sb (rd (fd_of bck)) (\<lambda>fwd.
     sb (wr (bk_of p) bck) (\<lambda>_.
     sb (wr (fd_of p) fwd) (\<lambda>_.
     sb (wr (fd_of bck) p) (\<lambda>_.
     sb (wr (bk_of fwd) p) (\<lambda>_.
     sb (set_head p (sz OR PREV_INUSE)) (\<lambda>_.
     sb (set_foot p sz) (\<lambda>_. sret sz))))))))))"

definition free_normal :: "addr \<Rightarrow> addr \<Rightarrow> addr \<Rightarrow> word32 \<Rightarrow> unit call" where
  "free_normal unit av p sz =
     sb (upd_ms av set_anychunks) (\<lambda>_.
     let nextchunk = chunk_at_offset p sz in
     sb (chunksize nextchunk) (\<lambda>nextsize.
     sb (consolidate_backward p sz) (\<lambda>(p, sz).
     sb (get_us unit) (\<lambda>u.
     sb (if nextchunk \<noteq> us_unit_top u
         then free_to_unsorted av p sz nextchunk nextsize
         else sb (set_head p ((sz + nextsize) OR PREV_INUSE)) (\<lambda>_.
              sb (upd_us unit (\<lambda>u. u\<lparr>us_unit_top := p\<rparr>)) (\<lambda>_. sret (sz + nextsize)))) (\<lambda>sz.
     sb (get_ms av) (\<lambda>ms.
     swhen (FASTBIN_CONSOLIDATION_THRESHOLD \<le> sz \<and> have_fastchunks ms) (malloc_consolidate av)))))))"

definition locate_in :: "(mon \<Rightarrow> linked_list) \<Rightarrow> addr \<Rightarrow> addr call" where
  "locate_in g d s = bnd (linked_list_locate (g s) d) (\<lambda>n. ret (n, s))"

definition free_mmapped :: "pid \<Rightarrow> addr \<Rightarrow> addr \<Rightarrow> addr \<Rightarrow> word32 \<Rightarrow> unit call" where
  "free_mmapped pid unit av p sz =
     sb (rd (prev_size_of p)) (\<lambda>offset.
     sb (upd_ms av (\<lambda>ms. ms\<lparr>ms_n_mmaps := ms_n_mmaps ms - 1,
                            ms_mmapped_mem := ms_mmapped_mem ms - (sz + offset)\<rparr>)) (\<lambda>_.
     sb (sys_call (Absys_munmap pid (p - offset) (sz + offset))) (\<lambda>_.
     sb (locate_in mmapped_ustate_list unit) (\<lambda>node.
     sb (del_entry_at mmapped_ustate_list (\<lambda>l s. s\<lparr>mmapped_ustate_list := l\<rparr>) node) (\<lambda>data.
     sb (sguard Assert_failed (data = unit)) (\<lambda>_.
     sb (locate_in ustate_list unit) (\<lambda>node.
     sb (del_entry_at ustate_list (\<lambda>l s. s\<lparr>ustate_list := l\<rparr>) node) (\<lambda>data.
     sb (sguard Assert_failed (data = unit)) (\<lambda>_.
     modify (\<lambda>s. s\<lparr>units := (units s)(unit := None)\<rparr>))))))))))"

definition ablib_free :: "pid \<Rightarrow> addr \<Rightarrow> unit call" where
  "ablib_free pid m =
     (if m = 0 then sret ()
      else sb MALLOC_LOCK (\<lambda>_.
           sb (lookup_ustate_by_mem m) (\<lambda>unit.
           sb (get_us unit) (\<lambda>u.
           let av = us_unit_av u; p = mem2chunk m in
           sb (chunksize p) (\<lambda>sz.
           sb (get_ms av) (\<lambda>ms.
           sb (if sz \<le> ms_max_fast ms then free_fast av p sz
               else sb (chunk_is_mmapped p) (\<lambda>mm.
                    if \<not> mm then free_normal unit av p sz
                    else free_mmapped pid unit av p sz)) (\<lambda>_.
           MALLOC_UNLOCK)))))))"

end
