(* ===== verification/AB_Malloc.thy ===== *)
theory AB_Malloc
  imports AB_Free
begin

text \<open>
  \<^verbatim>\<open>ablib_malloc\<close> and \<^verbatim>\<open>__malloc_alloc\<close> of \<^verbatim>\<open>monitor/ablib_malloc.c\<close>.  The stages of
  \<^verbatim>\<open>ablib_malloc\<close> between its labels are one definition each; a stage returns \<open>Some m\<close>
  where the code jumps to \<^verbatim>\<open>DONE\<close> with \<open>m\<close>, and \<open>None\<close> where it goes on.
  \<^verbatim>\<open>__malloc_alloc\<close> calls \<^verbatim>\<open>ablib_malloc\<close> again after consolidating the fast bins; the
  recursion is unfolded with fuel, and two levels are shown to be enough for every
  argument because the inner call meets the lock its caller holds.
\<close>

section \<open>Memory from the system\<close>

definition update_mmap_stats :: "word32 \<Rightarrow> malloc_state \<Rightarrow> malloc_state" where
  "update_mmap_stats sz ms =
     (let n = ms_n_mmaps ms + 1;
          ms = ms\<lparr>ms_n_mmaps := n\<rparr>;
          ms = (if ms_max_n_mmaps ms <s n then ms\<lparr>ms_max_n_mmaps := n\<rparr> else ms);
          sum = ms_mmapped_mem ms + sz;
          ms = ms\<lparr>ms_mmapped_mem := sum\<rparr>;
          ms = (if sum > ms_max_mmapped_mem ms then ms\<lparr>ms_max_mmapped_mem := sum\<rparr> else ms);
          sum = sum + ms_sbrked_mem ms
      in if sum > ms_max_total_mem ms then ms\<lparr>ms_max_total_mem := sum\<rparr> else ms)"

definition mmap_head :: "addr \<Rightarrow> word32 \<Rightarrow> addr call" where
  "mmap_head mm sz =
     (let front_misalign = chunk2mem mm AND MALLOC_ALIGN_MASK in
      if front_misalign > 0
      then let correction = MALLOC_ALIGNMENT - front_misalign; p = mm + correction in
           sb (wr (prev_size_of p) correction) (\<lambda>_.
           sb (set_head p ((sz - correction) OR IS_MMAPPED)) (\<lambda>_. sret p))
      else sb (wr (prev_size_of mm) 0) (\<lambda>_.
           sb (set_head mm (sz OR IS_MMAPPED)) (\<lambda>_. sret mm)))"

definition alloc_mmap :: "pid \<Rightarrow> word32 \<Rightarrow> addr \<Rightarrow> label_t \<Rightarrow> (addr option) call" where
  "alloc_mmap pid nb av L =
     sb (get_ms av) (\<lambda>ms.
     let pagemask = ms_pagesize ms - 1;
         sz = (nb + SIZE_SZ + MALLOC_ALIGN_MASK + pagemask) AND NOT pagemask in
     if \<not> sz > nb then sret None
     else sb (get_unmapped_area sz) (\<lambda>mm.
          if mm = MORECORE_FAILURE then sret None
          else sb (mmap_head mm sz) (\<lambda>p.
               sb (sys_call (Absys_mmap pid mm sz (PROT_READ OR PROT_WRITE))) (\<lambda>ab_mm.
               sb (sguard Assert_failed (ab_mm = mm)) (\<lambda>_.
               if ab_mm = MORECORE_FAILURE then sret None
               else sb (unit_init_state mm mm sz av) (\<lambda>unit.
                    sb (insert_head_at ustate_list (\<lambda>l s. s\<lparr>ustate_list := l\<rparr>) unit) (\<lambda>_.
                    sb (insert_mmapped_unit unit) (\<lambda>_.
                    sb (upd_ms av (update_mmap_stats sz)) (\<lambda>_.
                    sb (prot_update pid mm sz L) (\<lambda>_.
                    sret (Some (chunk2mem p)))))))))))) "

definition ms_insert_unit :: "addr \<Rightarrow> addr \<Rightarrow> unit call" where
  "ms_insert_unit av unit =
     sb libc_malloc (\<lambda>new.
     sb (get_ms av) (\<lambda>ms.
     sb (lift_res (list_insert_head new (ms_ustate_list ms) unit)) (\<lambda>l.
     upd_ms av (\<lambda>ms. ms\<lparr>ms_ustate_list := l\<rparr>))))"

definition update_sbrk_stats :: "malloc_state \<Rightarrow> malloc_state" where
  "update_sbrk_stats ms =
     (let sum = ms_sbrked_mem ms;
          ms = (if sum > ms_max_sbrked_mem ms then ms\<lparr>ms_max_sbrked_mem := sum\<rparr> else ms);
          sum = sum + ms_mmapped_mem ms
      in if sum > ms_max_total_mem ms then ms\<lparr>ms_max_total_mem := sum\<rparr> else ms)"

text \<open>A new unit: descriptor, list entries, the top chunk and two fenceposts at its end.\<close>

definition new_unit :: "addr \<Rightarrow> addr \<Rightarrow> addr call" where
  "new_unit av fst_brk =
     sb (upd_ms av (\<lambda>ms. ms\<lparr>ms_sbrked_mem := ms_sbrked_mem ms + UNIT_SIZE\<rparr>)) (\<lambda>_.
     sb (sguard Assert_failed (aligned_OK (chunk2mem fst_brk))) (\<lambda>_.
     sb (unit_init_state fst_brk fst_brk UNIT_SIZE av) (\<lambda>unit.
     sb (ms_insert_unit av unit) (\<lambda>_.
     sb (insert_head_at ustate_list (\<lambda>l s. s\<lparr>ustate_list := l\<rparr>) unit) (\<lambda>_.
     let unit_top = fst_brk;
         unit_top_size = (UNIT_SIZE - 3 * SIZE_SZ) AND NOT MALLOC_ALIGN_MASK in
     sb (set_head unit_top (unit_top_size OR PREV_INUSE)) (\<lambda>_.
     sb (set_head (chunk_at_offset unit_top unit_top_size) (SIZE_SZ OR PREV_INUSE)) (\<lambda>_.
     sb (set_head (chunk_at_offset unit_top (unit_top_size + SIZE_SZ)) (SIZE_SZ OR PREV_INUSE)) (\<lambda>_.
     sb (upd_ms av update_sbrk_stats) (\<lambda>_. sret unit)))))))))"

definition alloc_unit :: "pid \<Rightarrow> word32 \<Rightarrow> addr \<Rightarrow> label_t \<Rightarrow> addr call" where
  "alloc_unit pid nb av L =
     sb (get_ms av) (\<lambda>ms.
     sb (sguard Assert_failed (\<not> have_fastchunks ms)) (\<lambda>_.
     sb (ablib_sbrk pid UNIT_SIZE) (\<lambda>fst_brk.
     sb (sguard Assert_failed (fst_brk \<noteq> MORECORE_FAILURE)) (\<lambda>_.
     sb (new_unit av fst_brk) (\<lambda>unit.
     let p = fst_brk in
     sb (chunksize p) (\<lambda>sz.
     if sz \<ge> nb + MINSIZE
     then let remainder_size = sz - nb; remainder = chunk_at_offset p nb in
          sb (upd_us unit (\<lambda>u. u\<lparr>us_unit_top := remainder\<rparr>)) (\<lambda>_.
          sb (set_head p (nb OR PREV_INUSE)) (\<lambda>_.
          sb (set_head remainder (remainder_size OR PREV_INUSE)) (\<lambda>_.
          sb (set_foot remainder remainder_size) (\<lambda>_.
          sb (prot_update pid p sz L) (\<lambda>_.
          sret (chunk2mem p))))))
     else sret 0))))))"

definition malloc_alloc ::
  "(word32 \<Rightarrow> addr call) \<Rightarrow> pid \<Rightarrow> word32 \<Rightarrow> addr \<Rightarrow> label_t \<Rightarrow> addr call" where
  "malloc_alloc again pid nb av L =
     sb (get_ms av) (\<lambda>ms.
     if have_fastchunks ms
     then sb (sguard Assert_failed (in_smallbin_range nb)) (\<lambda>_.
          sb (malloc_consolidate av) (\<lambda>_. again (nb - MALLOC_ALIGN_MASK)))
     else sb (if nb \<ge> ms_mmap_threshold ms \<and> ms_n_mmaps ms <s ms_n_mmaps_max ms
              then alloc_mmap pid nb av L else sret None) (\<lambda>r.
          case r of Some m \<Rightarrow> sret m | None \<Rightarrow> alloc_unit pid nb av L))"

section \<open>Bins\<close>

definition zero_mstate :: malloc_state where
  "zero_mstate =
     \<lparr>ms_label = replicate 8 0, ms_ustate_list = empty_list, ms_max_fast = 0,
      ms_fastbins = replicate (unat NFASTBINS) 0, ms_last_remainder = 0,
      ms_binmap = replicate (unat (BINMAPSIZE + 1)) 0, ms_trim_threshold = 0, ms_top_pad = 0,
      ms_mmap_threshold = 0, ms_n_mmaps = 0, ms_n_mmaps_max = 0, ms_max_n_mmaps = 0,
      ms_pagesize = 0, ms_morecore_properties = 0, ms_mmapped_mem = 0, ms_sbrked_mem = 0,
      ms_max_sbrked_mem = 0, ms_max_mmapped_mem = 0, ms_max_total_mem = 0\<rparr>"

definition in_bins :: "addr \<Rightarrow> addr \<Rightarrow> bool" where
  "in_bins av a \<longleftrightarrow> a - (av + bins_offset) < 8 * NBINS \<and> (a - (av + bins_offset)) AND 3 = 0"

definition new_mstate :: "addr call" where
  "new_mstate =
     sb libc_malloc (\<lambda>av.
     if av = 0 then sfail Segv
     else sb (modify (\<lambda>s. s\<lparr>mstates := (mstates s)(av \<mapsto> zero_mstate),
                            mem := (\<lambda>a. if in_bins av a then Some 0 else mem s a)\<rparr>)) (\<lambda>_. sret av))"

definition malloc_fastbin :: "addr \<Rightarrow> word32 \<Rightarrow> (addr option) call" where
  "malloc_fastbin av nb =
     sb (get_ms av) (\<lambda>ms.
     if nb \<le> ms_max_fast ms
     then sb (fastbin_get av (fastbin_index nb)) (\<lambda>victim.
          if victim \<noteq> 0
          then sb (rd (fd_of victim)) (\<lambda>fd.
               sb (fastbin_set av (fastbin_index nb) fd) (\<lambda>_. sret (Some (chunk2mem victim))))
          else sret None)
     else sret None)"

definition malloc_smallbin :: "addr \<Rightarrow> word32 \<Rightarrow> (addr option) call" where
  "malloc_smallbin av nb =
     (let bin = bin_at av (smallbin_index nb) in
      sb (rd (bk_of bin)) (\<lambda>victim.
      if victim \<noteq> bin
      then sb (rd (bk_of victim)) (\<lambda>bck.
           sb (set_inuse_bit_at_offset victim nb) (\<lambda>_.
           sb (wr (bk_of bin) bck) (\<lambda>_.
           sb (wr (fd_of bck) bin) (\<lambda>_. sret (Some (chunk2mem victim))))))
      else sret None))"

text \<open>The low part of a chunk is handed out, the rest becomes the only unsorted chunk.\<close>

definition split_to_unsorted :: "addr \<Rightarrow> addr \<Rightarrow> word32 \<Rightarrow> word32 \<Rightarrow> bool \<Rightarrow> addr call" where
  "split_to_unsorted av victim nb remainder_size advertise =
     (let remainder = chunk_at_offset victim nb; un = unsorted_chunks av in
      sb (wr (fd_of un) remainder) (\<lambda>_.
      sb (wr (bk_of un) remainder) (\<lambda>_.
      sb (wr (fd_of remainder) un) (\<lambda>_.
      sb (wr (bk_of remainder) un) (\<lambda>_.
      sb (swhen advertise (upd_ms av (\<lambda>ms. ms\<lparr>ms_last_remainder := remainder\<rparr>))) (\<lambda>_.
      sb (set_head victim (nb OR PREV_INUSE)) (\<lambda>_.
      sb (set_head remainder (remainder_size OR PREV_INUSE)) (\<lambda>_.
      sb (set_foot remainder remainder_size) (\<lambda>_.
      sret (chunk2mem victim))))))))))"

partial_function (option) sorted_loop :: "word32 \<Rightarrow> addr \<Rightarrow> addr call" where
  "sorted_loop sz fwd s =
     sb (rd (size_of fwd)) (\<lambda>v.
     if sz < v then sb (rd (fd_of fwd)) (sorted_loop sz) else sret fwd) s"

text \<open>The neighbours between which a chunk enters its bin.\<close>

definition bin_position :: "addr \<Rightarrow> word32 \<Rightarrow> (addr \<times> addr) call" where
  "bin_position av sz =
     (if in_smallbin_range sz
      then let bck = bin_at av (smallbin_index sz) in
           sb (rd (fd_of bck)) (\<lambda>fwd. sret (bck, fwd))
      else let bck = bin_at av (malloc_largebin_index sz) in
           sb (rd (fd_of bck)) (\<lambda>fwd.
           if fwd \<noteq> bck
           then sb (rd (bk_of bck)) (\<lambda>lst.
                sb (rd (size_of lst)) (\<lambda>smallest.
                if sz < smallest then sret (lst, bck)
                else if sz \<ge> FIRST_SORTED_BIN_SIZE
                then sb (sorted_loop (sz OR PREV_INUSE) fwd) (\<lambda>fwd.
                     sb (rd (bk_of fwd)) (\<lambda>bck. sret (bck, fwd)))
                else sret (bck, fwd)))
           else sret (bck, fwd)))"

definition place_in_bin :: "addr \<Rightarrow> addr \<Rightarrow> word32 \<Rightarrow> unit call" where
  "place_in_bin av victim sz =
     sb (bin_position av sz) (\<lambda>(bck, fwd).
     sb (mark_bin av (if in_smallbin_range sz then smallbin_index sz else malloc_largebin_index sz)) (\<lambda>_.
     sb (wr (bk_of victim) bck) (\<lambda>_.
     sb (wr (fd_of victim) fwd) (\<lambda>_.
     sb (wr (bk_of fwd) victim) (\<lambda>_.
     wr (fd_of bck) victim)))))"

partial_function (option) unsorted_loop :: "addr \<Rightarrow> word32 \<Rightarrow> (addr option) call" where
  "unsorted_loop av nb s =
     sb (rd (bk_of (unsorted_chunks av))) (\<lambda>victim.
     if victim = unsorted_chunks av then sret None
     else sb (rd (bk_of victim)) (\<lambda>bck.
          sb (chunksize victim) (\<lambda>sz.
          sb (get_ms av) (\<lambda>ms.
          if in_smallbin_range nb \<and> bck = unsorted_chunks av \<and>
             victim = ms_last_remainder ms \<and> sz > nb + MINSIZE
          then sb (split_to_unsorted av victim nb (sz - nb) True) (\<lambda>m. sret (Some m))
          else sb (wr (bk_of (unsorted_chunks av)) bck) (\<lambda>_.
               sb (wr (fd_of bck) (unsorted_chunks av)) (\<lambda>_.
               if sz = nb
               then sb (set_inuse_bit_at_offset victim sz) (\<lambda>_. sret (Some (chunk2mem victim)))
               else sb (place_in_bin av victim sz) (\<lambda>_. unsorted_loop av nb))))))) s"

partial_function (option) large_scan :: "addr \<Rightarrow> word32 \<Rightarrow> addr \<Rightarrow> addr \<Rightarrow> (addr option) call" where
  "large_scan av nb bin victim s =
     (if victim = bin then sret None
      else sb (chunksize victim) (\<lambda>sz.
           if sz \<ge> nb
           then sb (unlink victim) (\<lambda>_.
                if sz - nb < MINSIZE
                then sb (set_inuse_bit_at_offset victim sz) (\<lambda>_. sret (Some (chunk2mem victim)))
                else sb (split_to_unsorted av victim nb (sz - nb) False) (\<lambda>m. sret (Some m)))
           else sb (rd (bk_of victim)) (large_scan av nb bin))) s"

text \<open>The bin-map search.  The loop over blocks; its result is the block and its map.\<close>

partial_function (option) next_block :: "addr \<Rightarrow> word32 \<Rightarrow> ((word32 \<times> word32) option) call" where
  "next_block av block s =
     (if block + 1 \<ge> BINMAPSIZE then sret None
      else sb (get_ms av) (\<lambda>ms.
           sb (arr_get (ms_binmap ms) (block + 1)) (\<lambda>mp.
           if mp = 0 then next_block av (block + 1) else sret (Some (block + 1, mp))))) s"

partial_function (option) advance_bin :: "word32 \<Rightarrow> addr \<Rightarrow> word32 \<Rightarrow> (addr \<times> word32) call" where
  "advance_bin mp bin bt s =
     (if bt AND mp = 0
      then sb (sguard Assert_failed (push_bit 1 bt \<noteq> 0)) (\<lambda>_.
           advance_bin mp (next_bin bin) (push_bit 1 bt))
      else sret (bin, bt)) s"

definition take_from_bin :: "addr \<Rightarrow> word32 \<Rightarrow> addr \<Rightarrow> addr \<Rightarrow> addr call" where
  "take_from_bin av nb bin victim =
     sb (chunksize victim) (\<lambda>sz.
     sb (sguard Assert_failed (sz \<ge> nb)) (\<lambda>_.
     sb (rd (bk_of victim)) (\<lambda>bck.
     sb (wr (bk_of bin) bck) (\<lambda>_.
     sb (wr (fd_of bck) bin) (\<lambda>_.
     if sz - nb < MINSIZE
     then sb (set_inuse_bit_at_offset victim sz) (\<lambda>_. sret (chunk2mem victim))
     else split_to_unsorted av victim nb (sz - nb) (in_smallbin_range nb))))))"

partial_function (option) binmap_loop ::
  "addr \<Rightarrow> word32 \<Rightarrow> word32 \<Rightarrow> word32 \<Rightarrow> word32 \<Rightarrow> addr \<Rightarrow> (addr option) call" where
  "binmap_loop av nb block bt mp bin s =
     sb (if bt > mp \<or> bt = 0
         then sb (next_block av block) (\<lambda>r.
              case r of None \<Rightarrow> sret None
              | Some (block, mp) \<Rightarrow>
                  sret (Some (block, 1, mp, bin_at av (push_bit BINMAPSHIFT block))))
         else sret (Some (block, bt, mp, bin))) (\<lambda>r.
     case r of None \<Rightarrow> sret None
     | Some (block, bt, mp, bin) \<Rightarrow>
         sb (advance_bin mp bin bt) (\<lambda>(bin, bt).
         sb (rd (bk_of bin)) (\<lambda>victim.
         if victim = bin
         then sb (upd_ms av (\<lambda>ms. ms\<lparr>ms_binmap := (ms_binmap ms)[unat block := mp AND NOT bt]\<rparr>)) (\<lambda>_.
              binmap_loop av nb block (push_bit 1 bt) (mp AND NOT bt) (next_bin bin))
         else sb (take_from_bin av nb bin victim) (\<lambda>m. sret (Some m))))) s"

definition binmap_search :: "addr \<Rightarrow> word32 \<Rightarrow> word32 \<Rightarrow> (addr option) call" where
  "binmap_search av nb idx =
     sb (get_ms av) (\<lambda>ms.
     sb (arr_get (ms_binmap ms) (idx2block idx)) (\<lambda>mp.
     binmap_loop av nb (idx2block idx) (idx2bit idx) mp (bin_at av idx)))"

section \<open>The unit tops\<close>

definition take_from_top :: "addr \<Rightarrow> word32 \<Rightarrow> addr \<Rightarrow> word32 \<Rightarrow> addr call" where
  "take_from_top unit nb victim sz =
     (let remainder_size = sz - nb; remainder = chunk_at_offset victim nb in
      sb (upd_us unit (\<lambda>u. u\<lparr>us_unit_top := remainder\<rparr>)) (\<lambda>_.
      sb (if remainder_size < MINSIZE then set_inuse_bit_at_offset victim sz
          else sb (set_head victim (nb OR PREV_INUSE)) (\<lambda>_.
               sb (set_head remainder (remainder_size OR PREV_INUSE)) (\<lambda>_.
               set_foot remainder remainder_size))) (\<lambda>_.
      sret (chunk2mem victim))))"

partial_function (option) unit_top_loop :: "addr \<Rightarrow> word32 \<Rightarrow> addr \<Rightarrow> (addr option) call" where
  "unit_top_loop av nb victim_unit s =
     sb (get_ms av) (\<lambda>ms.
     sb (lift_res (deref (ll_nodes (ms_ustate_list ms)) victim_unit)) (\<lambda>n.
     sb (get_us (ln_data n)) (\<lambda>u.
     sb (chunksize (us_unit_top u)) (\<lambda>sz.
     if sz \<ge> nb
     then sb (take_from_top (ln_data n) nb (us_unit_top u) sz) (\<lambda>m. sret (Some m))
     else if ln_prev n \<noteq> 0 then unit_top_loop av nb (ln_prev n)
     else sret None)))) s"

definition use_unit_top ::
  "(word32 \<Rightarrow> addr call) \<Rightarrow> pid \<Rightarrow> word32 \<Rightarrow> addr \<Rightarrow> label_t \<Rightarrow> addr call" where
  "use_unit_top again pid nb av L =
     sb (get_ms av) (\<lambda>ms.
     sb (if ll_num (ms_ustate_list ms) \<noteq> 0
         then unit_top_loop av nb (ll_tail (ms_ustate_list ms))
         else sret None) (\<lambda>r.
     case r of Some m \<Rightarrow> sret m | None \<Rightarrow> malloc_alloc again pid nb av L))"

section \<open>Malloc\<close>

text \<open>After the exact-fit attempts: the unsorted list, the current bin, the larger bins.\<close>

definition search_bins :: "addr \<Rightarrow> word32 \<Rightarrow> word32 \<Rightarrow> (addr option) call" where
  "search_bins av nb idx =
     sb (unsorted_loop av nb) (\<lambda>r.
     case r of Some m \<Rightarrow> sret (Some m)
     | None \<Rightarrow>
         sb (if \<not> in_smallbin_range nb
             then sb (rd (bk_of (bin_at av idx))) (large_scan av nb (bin_at av idx))
             else sret None) (\<lambda>r.
         case r of Some m \<Rightarrow> sret (Some m) | None \<Rightarrow> binmap_search av nb (idx + 1)))"

definition malloc_search :: "addr \<Rightarrow> word32 \<Rightarrow> (addr option) call" where
  "malloc_search av nb =
     sb (malloc_fastbin av nb) (\<lambda>r.
     case r of Some m \<Rightarrow> sret (Some m)
     | None \<Rightarrow>
         if in_smallbin_range nb
         then sb (malloc_smallbin av nb) (\<lambda>r.
              case r of Some m \<Rightarrow> sret (Some m)
              | None \<Rightarrow> search_bins av nb (smallbin_index nb))
         else sb (get_ms av) (\<lambda>ms.
              sb (swhen (have_fastchunks ms) (malloc_consolidate av)) (\<lambda>_.
              search_bins av nb (malloc_largebin_index nb))))"

text \<open>The part under the lock, for a request padded to \<open>nb\<close>.\<close>

definition malloc_request ::
  "(word32 \<Rightarrow> addr call) \<Rightarrow> pid \<Rightarrow> word32 \<Rightarrow> addr \<Rightarrow> label_t \<Rightarrow> addr call" where
  "malloc_request again pid nb av L =
     sb (get_ms av) (\<lambda>ms.
     if \<not> have_anychunks ms
     then sb (swhen (ms_max_fast ms = 0)
                (sb (malloc_consolidate av) (\<lambda>_. upd_ms av (\<lambda>ms. ms\<lparr>ms_label := L\<rparr>)))) (\<lambda>_.
          use_unit_top again pid nb av L)
     else sb (malloc_search av nb) (\<lambda>r.
          case r of Some m \<Rightarrow> sret m | None \<Rightarrow> use_unit_top again pid nb av L))"

definition ablib_malloc_body ::
  "(word32 \<Rightarrow> addr call) \<Rightarrow> pid \<Rightarrow> word32 \<Rightarrow> label_t \<Rightarrow> addr call" where
  "ablib_malloc_body again pid bytes L =
     sb (lookup_mstate_by_label L) (\<lambda>av.
     if bytes = 0 then sret 0
     else sb MALLOC_LOCK (\<lambda>_.
          sb (if av = 0 then new_mstate else sret av) (\<lambda>av.
          if REQUEST_OUT_OF_RANGE bytes then sret 0
          else sb (malloc_request again pid (request2size bytes) av L) (\<lambda>retval.
               sb MALLOC_UNLOCK (\<lambda>_. sret retval)))))"

fun ablib_malloc_fuel :: "nat \<Rightarrow> pid \<Rightarrow> word32 \<Rightarrow> label_t \<Rightarrow> addr call" where
  "ablib_malloc_fuel 0 pid bytes L s = None"
| "ablib_malloc_fuel (Suc n) pid bytes L s =
     ablib_malloc_body (\<lambda>b. ablib_malloc_fuel n pid b L) pid bytes L s"

definition ablib_malloc :: "pid \<Rightarrow> word32 \<Rightarrow> label_t \<Rightarrow> addr call" where
  "ablib_malloc = ablib_malloc_fuel 2"

end
