(* ===== verification/AB_Realloc.thy ===== *)
theory AB_Realloc
  imports AB_Malloc
begin

text \<open>
  \<^verbatim>\<open>monitor/ablib_realloc.c\<close> and \<^verbatim>\<open>monitor/ablib_calloc.c\<close>.  \<^verbatim>\<open>memset\<close> and \<^verbatim>\<open>memcpy\<close> are
  only applied to whole words here.
\<close>

section \<open>Word copies\<close>

fun zero_words :: "addr \<Rightarrow> nat \<Rightarrow> unit call" where
  "zero_words d 0 = sret ()"
| "zero_words d (Suc n) = sb (wr d 0) (\<lambda>_. zero_words (d + 4) n)"

fun copy_words :: "addr \<Rightarrow> addr \<Rightarrow> nat \<Rightarrow> unit call" where
  "copy_words d src 0 = sret ()"
| "copy_words d src (Suc n) = sb (rd src) (\<lambda>v. sb (wr d v) (\<lambda>_. copy_words (d + 4) (src + 4) n))"

text \<open>How many words the unrolled code for up to nine words touches.\<close>

definition unrolled :: "word32 \<Rightarrow> nat" where
  "unrolled n = (if n > 4 then if n > 6 then if n > 8 then 9 else 7 else 5 else 3)"

section \<open>Calloc\<close>

definition clear_chunk :: "addr \<Rightarrow> unit call" where
  "clear_chunk m =
     sb (chunksize (mem2chunk m)) (\<lambda>sz.
     let clearsize = sz - SIZE_SZ; nclears = clearsize div SIZE_SZ in
     sb (sguard Assert_failed (nclears \<ge> 3)) (\<lambda>_.
     if nclears > 9 then zero_words m (unat nclears)
     else zero_words m (unrolled nclears)))"

definition ablib_calloc :: "pid \<Rightarrow> word32 \<Rightarrow> word32 \<Rightarrow> label_t \<Rightarrow> addr call" where
  "ablib_calloc pid n_elements elem_size L =
     (let sz = n_elements * elem_size in
      if n_elements \<noteq> 0 \<and> elem_size \<noteq> sz div n_elements then sret 0
      else sb (ablib_malloc pid sz L) (\<lambda>m.
           if m \<noteq> 0
           then sb (chunk_is_mmapped (mem2chunk m)) (\<lambda>mm.
                sb (swhen (\<not> mm) (clear_chunk m)) (\<lambda>_. sret m))
           else sret m))"

section \<open>Realloc\<close>

definition realloc_split :: "pid \<Rightarrow> addr \<Rightarrow> word32 \<Rightarrow> word32 \<Rightarrow> addr call" where
  "realloc_split pid newp newsize nb =
     sb (sguard Assert_failed (newsize \<ge> nb)) (\<lambda>_.
     let remainder_size = newsize - nb in
     sb (if remainder_size < MINSIZE
         then sb (set_head_size newp newsize) (\<lambda>_.
              sb (set_inuse_bit_at_offset newp newsize) (\<lambda>_. MALLOC_UNLOCK))
         else let remainder = chunk_at_offset newp nb in
              sb (set_head_size newp nb) (\<lambda>_.
              sb (set_head remainder (remainder_size OR PREV_INUSE)) (\<lambda>_.
              sb (set_inuse_bit_at_offset remainder remainder_size) (\<lambda>_.
              sb MALLOC_UNLOCK (\<lambda>_.
              ablib_free pid (chunk2mem remainder)))))) (\<lambda>_.
     sret (chunk2mem newp)))"

definition realloc_move ::
  "pid \<Rightarrow> addr \<Rightarrow> word32 \<Rightarrow> addr \<Rightarrow> word32 \<Rightarrow> label_t \<Rightarrow> addr call" where
  "realloc_move pid oldmem oldsize nextp nb L =
     sb MALLOC_UNLOCK (\<lambda>_.
     sb (ablib_malloc pid (nb - MALLOC_ALIGN_MASK) L) (\<lambda>newmem.
     if newmem = 0 then sret 0
     else sb MALLOC_LOCK (\<lambda>_.
          let newp = mem2chunk newmem in
          sb (chunksize newp) (\<lambda>newsize.
          if newp = nextp then realloc_split pid (mem2chunk oldmem) (newsize + oldsize) nb
          else let copysize = oldsize - SIZE_SZ; ncopies = copysize div SIZE_SZ in
               sb (sguard Assert_failed (ncopies \<ge> 3)) (\<lambda>_.
               sb (if ncopies > 9 then copy_words newmem oldmem (unat ncopies)
                   else copy_words newmem oldmem (unrolled ncopies)) (\<lambda>_.
               sb MALLOC_UNLOCK (\<lambda>_.
               sb (ablib_free pid oldmem) (\<lambda>_.
               sret (chunk2mem newp)))))))))"

definition realloc_normal ::
  "pid \<Rightarrow> addr \<Rightarrow> addr \<Rightarrow> word32 \<Rightarrow> word32 \<Rightarrow> label_t \<Rightarrow> addr call" where
  "realloc_normal pid unit oldmem oldsize nb L =
     (let oldp = mem2chunk oldmem in
      if oldsize \<ge> nb then realloc_split pid oldp oldsize nb
      else let nextp = chunk_at_offset oldp oldsize in
           sb (get_us unit) (\<lambda>u.
           if nextp = us_unit_top u
           then sb (chunksize nextp) (\<lambda>nextsize.
                let newsize = oldsize + nextsize in
                if newsize \<ge> nb + MINSIZE
                then sb (set_head_size oldp nb) (\<lambda>_.
                     sb (upd_us unit (\<lambda>u. u\<lparr>us_unit_top := chunk_at_offset oldp nb\<rparr>)) (\<lambda>_.
                     sb (set_head (chunk_at_offset oldp nb) ((newsize - nb) OR PREV_INUSE)) (\<lambda>_.
                     sb MALLOC_UNLOCK (\<lambda>_. sret (chunk2mem oldp)))))
                else realloc_move pid oldmem oldsize nextp nb L)
           else sb (inuse nextp) (\<lambda>used.
                if used then realloc_move pid oldmem oldsize nextp nb L
                else sb (chunksize nextp) (\<lambda>nextsize.
                     let newsize = oldsize + nextsize in
                     if newsize \<ge> nb
                     then sb (unlink nextp) (\<lambda>_. realloc_split pid oldp newsize nb)
                     else realloc_move pid oldmem oldsize nextp nb L))))"

definition realloc_mmapped ::
  "pid \<Rightarrow> addr \<Rightarrow> addr \<Rightarrow> word32 \<Rightarrow> word32 \<Rightarrow> label_t \<Rightarrow> addr call" where
  "realloc_mmapped pid av oldmem oldsize nb L =
     sb (rd (prev_size_of (mem2chunk oldmem))) (\<lambda>offset.
     sb (get_ms av) (\<lambda>ms.
     let pagemask = ms_pagesize ms - 1;
         newsize = (nb + offset + SIZE_SZ + pagemask) AND NOT pagemask in
     if oldsize = newsize - offset
     then sb MALLOC_UNLOCK (\<lambda>_. sret oldmem)
     else if oldsize \<ge> nb + SIZE_SZ
     then sb MALLOC_UNLOCK (\<lambda>_. sret oldmem)
     else sb MALLOC_UNLOCK (\<lambda>_.
          sb (ablib_malloc pid (nb - MALLOC_ALIGN_MASK) L) (\<lambda>newmem.
          if newmem \<noteq> 0
          then sb (copy_words newmem oldmem (unat ((oldsize - 2 * SIZE_SZ) div 4))) (\<lambda>_.
               sb (ablib_free pid oldmem) (\<lambda>_. sret newmem))
          else sret newmem))))"

definition ablib_realloc :: "pid \<Rightarrow> addr \<Rightarrow> word32 \<Rightarrow> label_t \<Rightarrow> addr call" where
  "ablib_realloc pid oldmem bytes L =
     (if oldmem = 0 then ablib_malloc pid bytes L
      else if bytes = 0 then sb (ablib_free pid oldmem) (\<lambda>_. sret 0)
      else sb MALLOC_LOCK (\<lambda>_.
           sb (lookup_ustate_by_mem oldmem) (\<lambda>unit.
           sb (get_us unit) (\<lambda>u.
           if REQUEST_OUT_OF_RANGE bytes then sret 0
           else let nb = request2size bytes in
                sb (chunksize (mem2chunk oldmem)) (\<lambda>oldsize.
                sb (chunk_is_mmapped (mem2chunk oldmem)) (\<lambda>mm.
                if \<not> mm then realloc_normal pid unit oldmem oldsize nb L
                else realloc_mmapped pid (us_unit_av u) oldmem oldsize nb L))))))"

end
