(* ===== verification/Protocol.thy ===== *)
theory Protocol
  imports Monitor_State
begin

text \<open>
  \<^verbatim>\<open>common/include/abthread_protocol.h\<close>: opcodes and message structs, as byte images
  with the i386 layout (fields in order; 64-bit fields aligned to 4 bytes).  A
  sender lays a struct out with \<open>*_bytes\<close>; a receiver reads fields of the buffer with
  \<open>u8_at\<close>, \<open>u32_at\<close>, \<open>u64_at\<close> at the offsets of the struct the buffer is cast to.
\<close>

section \<open>Opcodes\<close>

datatype abt_opcode =
    ABT_FORK | ABT_PTHREAD_JOIN | ABT_MALLOC | ABT_FREE | ABT_CREATE_CAT | ABT_GET_LABEL
  | ABT_GET_OWNERSHIP | ABT_GET_MEM_LABEL | ABT_CALLOC | ABT_REALLOC | ABT_RPC

definition opcodes :: "abt_opcode list" where
  "opcodes = [ABT_FORK, ABT_PTHREAD_JOIN, ABT_MALLOC, ABT_FREE, ABT_CREATE_CAT, ABT_GET_LABEL,
     ABT_GET_OWNERSHIP, ABT_GET_MEM_LABEL, ABT_CALLOC, ABT_REALLOC, ABT_RPC]"

fun opcode_val :: "abt_opcode \<Rightarrow> word32" where
  "opcode_val ABT_FORK = 0"
| "opcode_val ABT_PTHREAD_JOIN = 1"
| "opcode_val ABT_MALLOC = 2"
| "opcode_val ABT_FREE = 3"
| "opcode_val ABT_CREATE_CAT = 4"
| "opcode_val ABT_GET_LABEL = 5"
| "opcode_val ABT_GET_OWNERSHIP = 6"
| "opcode_val ABT_GET_MEM_LABEL = 7"
| "opcode_val ABT_CALLOC = 8"
| "opcode_val ABT_REALLOC = 9"
| "opcode_val ABT_RPC = 10"

definition opcode_of :: "word32 \<Rightarrow> abt_opcode option" where
  "opcode_of w = find (\<lambda>c. opcode_val c = w) opcodes"

section \<open>Buffers\<close>

definition ABT_RPC_MAGIC :: word32 where
  "ABT_RPC_MAGIC = 0xABC0DE"

definition RPC_DATA_LEN :: nat where
  "RPC_DATA_LEN = 256"

definition u8_at :: "byte list \<Rightarrow> nat \<Rightarrow> byte" where
  "u8_at d i = le_word (take 1 (drop i d))"

definition u32_at :: "byte list \<Rightarrow> nat \<Rightarrow> word32" where
  "u32_at d i = le_word (take 4 (drop i d))"

definition u64_at :: "byte list \<Rightarrow> nat \<Rightarrow> 64 word" where
  "u64_at d i = le_word (take 8 (drop i d))"

definition rpc_header_size :: nat where
  "rpc_header_size = 12"

definition rpc_header_bytes :: "nat \<Rightarrow> abt_opcode \<Rightarrow> byte list" where
  "rpc_header_bytes len c =
     le_bytes 4 ABT_RPC_MAGIC @ le_bytes 4 (of_nat len :: word32) @ le_bytes 4 (opcode_val c)"

section \<open>Requests\<close>

definition abreq_create_cat_bytes :: "byte \<Rightarrow> byte list \<Rightarrow> byte list" where
  "abreq_create_cat_bytes t pad = rpc_header_bytes 16 ABT_CREATE_CAT @ [t] @ take 3 pad"

definition abreq_fork_bytes :: "64 word \<Rightarrow> 64 word \<Rightarrow> word32 \<Rightarrow> byte list" where
  "abreq_fork_bytes L O1 pid =
     rpc_header_bytes 32 ABT_FORK @ le_bytes 8 L @ le_bytes 8 O1 @ le_bytes 4 pid"

definition abreq_pthread_join_bytes :: "word32 \<Rightarrow> byte list" where
  "abreq_pthread_join_bytes pid = rpc_header_bytes 16 ABT_PTHREAD_JOIN @ le_bytes 4 pid"

definition abreq_malloc_bytes :: "word32 \<Rightarrow> 64 word \<Rightarrow> byte list" where
  "abreq_malloc_bytes sz L = rpc_header_bytes 24 ABT_MALLOC @ le_bytes 4 sz @ le_bytes 8 L"

definition abreq_free_bytes :: "addr \<Rightarrow> byte list" where
  "abreq_free_bytes a = rpc_header_bytes 16 ABT_FREE @ le_bytes 4 a"

definition abreq_label_bytes :: "byte list" where
  "abreq_label_bytes = rpc_header_bytes 12 ABT_GET_LABEL"

definition abreq_ownership_bytes :: "byte list" where
  "abreq_ownership_bytes = rpc_header_bytes 12 ABT_GET_OWNERSHIP"

definition abreq_mem_label_bytes :: "addr \<Rightarrow> byte list" where
  "abreq_mem_label_bytes a = rpc_header_bytes 16 ABT_GET_MEM_LABEL @ le_bytes 4 a"

definition abreq_calloc_bytes :: "word32 \<Rightarrow> word32 \<Rightarrow> 64 word \<Rightarrow> byte list" where
  "abreq_calloc_bytes n sz L =
     rpc_header_bytes 28 ABT_CALLOC @ le_bytes 4 n @ le_bytes 4 sz @ le_bytes 8 L"

definition abreq_realloc_bytes :: "addr \<Rightarrow> word32 \<Rightarrow> byte list" where
  "abreq_realloc_bytes a sz = rpc_header_bytes 20 ABT_REALLOC @ le_bytes 4 a @ le_bytes 4 sz"

text \<open>\<^verbatim>\<open>ab_RPC\<close> sends a realloc struct whose fields it never sets.\<close>

definition abreq_rpc_bytes :: "byte list \<Rightarrow> byte list" where
  "abreq_rpc_bytes pad = rpc_header_bytes 20 ABT_RPC @ take 8 pad"

section \<open>Replies\<close>

definition reply_size :: nat where
  "reply_size = 20"

definition reply_bytes :: "abt_reply_header \<Rightarrow> byte list" where
  "reply_bytes r =
     le_bytes 4 (rp_magic r) @ le_bytes 4 (rp_msg_len r) @ le_bytes 4 (rp_return_val r) @
     le_bytes 8 (rp_return_val_64 r)"

definition reply_of_bytes :: "byte list \<Rightarrow> abt_reply_header" where
  "reply_of_bytes d =
     \<lparr>rp_magic = u32_at d 0, rp_msg_len = u32_at d 4, rp_return_val = u32_at d 8,
      rp_return_val_64 = u64_at d 12\<rparr>"

section \<open>Socket addresses\<close>

text \<open>A \<^verbatim>\<open>struct sockaddr_un\<close>: a 16-bit family and a path.\<close>

definition AF_UNIX :: "16 word" where
  "AF_UNIX = 1"

definition GET_FAMILY :: "byte list \<Rightarrow> 16 word" where
  "GET_FAMILY a = le_word (take 2 a)"

definition GET_PATH :: "byte list \<Rightarrow> byte list" where
  "GET_PATH a = drop 2 a"

fun dec_nat :: "nat \<Rightarrow> byte list" where
  "dec_nat n = (if n < 10 then [48 + of_nat n] else dec_nat (n div 10) @ [48 + of_nat (n mod 10)])"

definition dec_int :: "int \<Rightarrow> byte list" where
  "dec_int i = (if i < 0 then 45 # dec_nat (nat (- i)) else dec_nat (nat i))"

definition bytes_of_string :: "string \<Rightarrow> byte list" where
  "bytes_of_string cs = map of_char cs"

definition MONITOR_SOCKET :: "byte list" where
  "MONITOR_SOCKET = bytes_of_string ''/tmp/abt_monitor_socket''"

text \<open>\<^verbatim>\<open>"/tmp/abt_client_%d"\<close>\<close>

definition client_path :: "pid \<Rightarrow> byte list" where
  "client_path pid = bytes_of_string ''/tmp/abt_client_'' @ dec_int (sint pid)"

text \<open>Writing bytes into a buffer at an offset.\<close>

definition put_at :: "nat \<Rightarrow> byte list \<Rightarrow> byte list \<Rightarrow> byte list" where
  "put_at i xs d = take i d @ xs @ drop (i + length xs) d"

text \<open>\<^verbatim>\<open>strncmp(p, q, n) == 0\<close>; reading past either object is undefined.\<close>

fun strncmp_eq :: "nat \<Rightarrow> byte list \<Rightarrow> byte list \<Rightarrow> bool res" where
  "strncmp_eq 0 p q = ret True"
| "strncmp_eq (Suc n) (x # p) (y # q) =
     (if x \<noteq> y then ret False else if x = 0 then ret True else strncmp_eq n p q)"
| "strncmp_eq (Suc n) _ _ = fail Undef"

declare dec_nat.simps [simp del]

section \<open>Reading back what was written\<close>

lemma u32_at_le_bytes [simp]: "length xs = i \<Longrightarrow> u32_at (xs @ le_bytes 4 w @ ys) i = w"
  by (simp add: u32_at_def)

lemma u64_at_le_bytes [simp]: "length xs = i \<Longrightarrow> u64_at (xs @ le_bytes 8 w @ ys) i = w"
  by (simp add: u64_at_def)

lemma u8_at_byte [simp]: "length xs = i \<Longrightarrow> u8_at (xs @ b # ys) i = b"
  by (simp add: u8_at_def)

lemma length_header [simp]: "length (rpc_header_bytes n c) = 12"
  by (simp add: rpc_header_bytes_def)

text \<open>Fields behind the header, at the offset of the field inside the body.\<close>

lemma body_field [simp]:
  "12 \<le> i \<Longrightarrow> u32_at (rpc_header_bytes n c @ xs) i = u32_at xs (i - 12)"
  "12 \<le> i \<Longrightarrow> u64_at (rpc_header_bytes n c @ xs) i = u64_at xs (i - 12)"
  "12 \<le> i \<Longrightarrow> u8_at (rpc_header_bytes n c @ xs) i = u8_at xs (i - 12)"
  by (simp_all add: u32_at_def u64_at_def u8_at_def)

lemma field_0 [simp]: "u32_at (le_bytes 4 w @ ys) 0 = w" "u64_at (le_bytes 8 v @ ys) 0 = v"
  "u32_at (le_bytes 4 w) 0 = w" "u64_at (le_bytes 8 v) 0 = v" "u8_at (b # ys) 0 = b"
  by (simp_all add: u32_at_def u64_at_def u8_at_def)

lemma field_skip [simp]:
  "4 \<le> i \<Longrightarrow> u32_at (le_bytes 4 w @ ys) i = u32_at ys (i - 4)"
  "4 \<le> i \<Longrightarrow> u64_at (le_bytes 4 w @ ys) i = u64_at ys (i - 4)"
  "8 \<le> i \<Longrightarrow> u32_at (le_bytes 8 v @ ys) i = u32_at ys (i - 8)"
  "8 \<le> i \<Longrightarrow> u64_at (le_bytes 8 v @ ys) i = u64_at ys (i - 8)"
  for w :: word32 and v :: "64 word"
  by (simp_all add: u32_at_def u64_at_def)

lemma header_fields:
  "u32_at (rpc_header_bytes n c @ xs) 0 = ABT_RPC_MAGIC" "u32_at (rpc_header_bytes n c @ xs) 4 = of_nat n"
  "u32_at (rpc_header_bytes n c @ xs) 8 = opcode_val c"
  "u32_at (rpc_header_bytes n c) 0 = ABT_RPC_MAGIC" "u32_at (rpc_header_bytes n c) 4 = of_nat n"
  "u32_at (rpc_header_bytes n c) 8 = opcode_val c"
  by (simp_all add: rpc_header_bytes_def)

lemma opcode_of_val [simp]: "opcode_of (opcode_val c) = Some c"
  by (cases c) (simp_all add: opcode_of_def opcodes_def)

lemma opcode_of_Some: "opcode_of w = Some c \<longleftrightarrow> w = opcode_val c"
proof
  assume "opcode_of w = Some c"
  then show "w = opcode_val c" by (auto simp: opcode_of_def find_Some_iff)
qed simp


text \<open>
  A reply arrives as it was sent, in 20 bytes.
\<close>

theorem reply_roundtrip: "reply_of_bytes (reply_bytes r) = r \<and> length (reply_bytes r) = reply_size"
  by (simp add: reply_of_bytes_def reply_bytes_def reply_size_def)

section \<open>Client addresses\<close>

lemma dec_digit: "n < 10 \<Longrightarrow> unat (48 + of_nat n :: byte) = 48 + n"
  by (simp add: unat_word_ariths unat_of_nat)

lemma dec_nat_nonempty [simp]: "dec_nat n \<noteq> []"
  by (subst dec_nat.simps) simp

lemma dec_nat_value: "foldl (\<lambda>v d. 10 * v + (unat d - 48)) 0 (dec_nat n) = n"
proof (induction n rule: dec_nat.induct)
  case (1 n)
  have d: "unat (48 + of_nat (n mod 10) :: byte) - 48 = n mod 10" using dec_digit [of "n mod 10"] by simp
  show ?case
    by (subst dec_nat.simps) (use 1 d dec_digit [of n] in simp)
qed

lemma dec_nat_digits: "set (dec_nat n) \<subseteq> {48..57}"
proof (induction n rule: dec_nat.induct)
  case (1 n)
  have d: "(48 + of_nat (m mod 10) :: byte) \<in> {48..57}" for m
    using dec_digit [of "m mod 10"] by (simp add: word_le_nat_alt)
  show ?case
    by (subst dec_nat.simps) (use 1 d [of n] in auto)
qed

lemma dec_int_inj: "dec_int i = dec_int j \<longleftrightarrow> i = j"
proof
  assume eq: "dec_int i = dec_int j"
  have no_minus: "dec_nat n \<noteq> 45 # xs" for n xs
    using dec_nat_digits [of n] by (auto simp: word_le_nat_alt)
  have inj: "dec_nat m = dec_nat n \<Longrightarrow> m = n" for m n by (metis dec_nat_value)
  have neg: "nat (- i) = nat (- j)" if "i < 0" "j < 0" using eq that inj by (simp add: dec_int_def)
  have pos: "nat i = nat j" if "\<not> i < 0" "\<not> j < 0" using eq that inj by (simp add: dec_int_def)
  have sign: "i < 0 \<longleftrightarrow> j < 0" using eq no_minus no_minus [symmetric] by (auto simp: dec_int_def split: if_splits)
  show "i = j" using neg pos sign by linarith
qed simp

lemma client_path_inj: "client_path p = client_path q \<longleftrightarrow> p = q"
  unfolding client_path_def by (simp add: dec_int_inj) (metis signed_word_eqI)

lemma dec_int_nz: "0 \<notin> set (dec_int i)"
  using dec_nat_digits [of "nat i"] dec_nat_digits [of "nat (- i)"]
  by (auto simp: dec_int_def word_le_nat_alt)

lemma client_path_nz: "0 \<notin> set (client_path p)"
  by (auto simp: client_path_def dec_int_nz bytes_of_string_def)

lemma strncmp_terminated:
  "0 \<notin> set p \<Longrightarrow> 0 \<notin> set q \<Longrightarrow> length p < n \<Longrightarrow>
   strncmp_eq n (p @ 0 # r) (q @ 0 # r') = ret (p = q)"
proof (induction p arbitrary: q n)
  case Nil
  then obtain m where "n = Suc m" by (cases n) auto
  then show ?case using Nil by (cases q) auto
next
  case (Cons x p)
  then obtain m where "n = Suc m" by (cases n) auto
  then show ?case using Cons by (cases q) auto
qed

end
