(* ===== verification/Arbiter.thy ===== *)
theory Arbiter
  imports AB_Realloc Protocol
begin

text \<open>
  The arbiter process: the client table (\<^verbatim>\<open>monitor/client.c\<close>), message transport
  (\<^verbatim>\<open>monitor/ipc.c\<close>), the request handlers, their dispatch and the server loop
  (\<^verbatim>\<open>monitor/arbiter.c\<close>).  The reply struct of a handler is an uninitialised local, so
  each handler takes the bytes it finds there as an argument \<open>rply\<close>; fields the code
  does not set go out as they are.
\<close>

section \<open>Requests\<close>

record abt_request =
  rq_pkt_sn :: word32
  rq_pkt_size :: int
  rq_data :: "byte list"
  rq_client_addr :: "byte list"
  rq_client_addr_len :: word32

text \<open>What \<^verbatim>\<open>recvfrom\<close> delivers: a datagram with the address of its sender, or an error.\<close>

datatype incoming = Datagram "byte list" "byte list" | Recv_error

definition overlay :: "byte list \<Rightarrow> byte list \<Rightarrow> byte list" where
  "overlay xs d = take (length d) xs @ drop (length xs) d"

definition wait_client_call :: "incoming \<Rightarrow> word32 \<Rightarrow> abt_request \<Rightarrow> abt_request \<times> word32" where
  "wait_client_call i serial req =
     (case i of
        Datagram d a \<Rightarrow>
          (req\<lparr>rq_pkt_size := int (min (length d) RPC_DATA_LEN),
               rq_data := overlay (take RPC_DATA_LEN d) (rq_data req),
               rq_client_addr := overlay a (rq_client_addr req),
               rq_client_addr_len := of_nat (length a), rq_pkt_sn := serial\<rparr>, serial + 1)
      | Recv_error \<Rightarrow>
          (req\<lparr>rq_pkt_size := - 1, rq_client_addr_len := 256, rq_pkt_sn := serial\<rparr>, serial + 1))"

definition abt_sendreply :: "abt_request \<Rightarrow> abt_reply_header \<Rightarrow> unit call" where
  "abt_sendreply req rply =
     sb (sys_call (Sendto (take (unat (rq_client_addr_len req)) (rq_client_addr req)))) (\<lambda>rc.
     sb (sguard Assert_failed (0 \<le>s rc)) (\<lambda>_.
     modify (\<lambda>s. s\<lparr>sent := sent s @ [(rq_client_addr req, rq_client_addr_len req, rply)]\<rparr>)))"

section \<open>Clients\<close>

definition cmp_client :: "mon \<Rightarrow> byte list \<Rightarrow> word32 \<Rightarrow> addr \<Rightarrow> bool res" where
  "cmp_client s ua len d =
     bnd (deref (clients s) d) (\<lambda>c.
     if len \<noteq> cd_addr_len c then ret False
     else if GET_FAMILY ua \<noteq> GET_FAMILY (cd_unix_addr c) then ret False
     else strncmp_eq (unat len) (GET_PATH ua) (GET_PATH (cd_unix_addr c)))"

definition arbiter_lookup_client :: "byte list \<Rightarrow> word32 \<Rightarrow> addr call" where
  "arbiter_lookup_client ua len s =
     bnd (linked_list_lookup (client_list s) (cmp_client s ua len)) (\<lambda>d. ret (d, s))"

definition cmp_client_pid :: "mon \<Rightarrow> pid \<Rightarrow> addr \<Rightarrow> bool res" where
  "cmp_client_pid s pid d = bnd (deref (clients s) d) (\<lambda>c. ret (cd_pid c = pid))"

definition arbiter_lookup_client_pid :: "pid \<Rightarrow> addr call" where
  "arbiter_lookup_client_pid pid s =
     bnd (linked_list_lookup (client_list s) (cmp_client_pid s pid)) (\<lambda>d. ret (d, s))"

definition arbiter_del_client :: "addr \<Rightarrow> addr call" where
  "arbiter_del_client c =
     sb (locate_in client_list c) (\<lambda>node.
     sb (sguard Assert_failed (node \<noteq> 0)) (\<lambda>_.
     del_entry_at client_list (\<lambda>l s. s\<lparr>client_list := l\<rparr>) node))"

definition upd_client :: "addr \<Rightarrow> (client_desc \<Rightarrow> client_desc) \<Rightarrow> unit call" where
  "upd_client p f s = (case clients s p of None \<Rightarrow> fail Segv
     | Some v \<Rightarrow> ret ((), s\<lparr>clients := (clients s)(p \<mapsto> f v)\<rparr>))"

section \<open>Handlers\<close>

definition reply_head :: "abt_reply_header \<Rightarrow> abt_reply_header" where
  "reply_head rply = rply\<lparr>rp_magic := ABT_RPC_MAGIC, rp_msg_len := of_nat reply_size\<rparr>"

definition reply_val :: "abt_reply_header \<Rightarrow> word32 \<Rightarrow> abt_reply_header" where
  "reply_val rply v = (reply_head rply)\<lparr>rp_return_val := v\<rparr>"

definition handle_create_cat_rpc :: "abt_reply_header \<Rightarrow> addr \<Rightarrow> abt_request \<Rightarrow> unit call" where
  "handle_create_cat_rpc rply c req =
     (let t = u8_at (rq_data req) 12 in
      sb (gets cat_gen) (\<lambda>gen.
      case create_cat t gen of (cat, gen') \<Rightarrow>
      sb (modify (\<lambda>s. s\<lparr>cat_gen := gen'\<rparr>)) (\<lambda>_.
      sb (get_client c) (\<lambda>cd.
      case add_onwership (label_of_u64 (cd_ownership cd)) cat of (cat, own) \<Rightarrow>
      sb (upd_client c (\<lambda>cd. cd\<lparr>cd_ownership := u64_of_label own\<rparr>)) (\<lambda>_.
      sb (sguard Assert_failed (cat \<noteq> 0)) (\<lambda>_.
      abt_sendreply req
        ((reply_head rply)\<lparr>rp_return_val := (rp_return_val rply AND NOT 0xFF) OR ucast cat\<rparr>)))))))"

text \<open>
  The descriptor of a new client: every field is assigned, but the address buffer
  first receives a copy of the sender's address.
\<close>

definition client_addr_bytes :: "pid \<Rightarrow> byte list \<Rightarrow> byte list" where
  "client_addr_bytes pid d = put_at 2 (client_path pid @ [0]) (put_at 0 (le_bytes 2 AF_UNIX) d)"

definition client_addr_len :: "pid \<Rightarrow> word32" where
  "client_addr_len pid = 2 + of_nat (length (client_path pid)) + 1"

definition register_client :: "byte list \<Rightarrow> pid \<Rightarrow> 64 word \<Rightarrow> 64 word \<Rightarrow> addr call" where
  "register_client buf pid L O1 =
     sb libc_malloc (\<lambda>c_new.
     if c_new = 0 then sfail Segv
     else sb (modify (\<lambda>s. s\<lparr>clients := (clients s)(c_new \<mapsto>
            \<lparr>cd_unix_addr = client_addr_bytes pid buf, cd_addr_len = client_addr_len pid,
             cd_pid = pid, cd_label = L, cd_ownership = O1\<rparr>)\<rparr>)) (\<lambda>_.
          sb (insert_tail_at client_list (\<lambda>l s. s\<lparr>client_list := l\<rparr>) c_new) (\<lambda>_.
          sret c_new)))"

definition handle_fork_rpc :: "abt_reply_header \<Rightarrow> addr \<Rightarrow> abt_request \<Rightarrow> unit call" where
  "handle_fork_rpc rply c req =
     sb (get_client c) (\<lambda>cd.
     let L1 = label_of_u64 (cd_label cd); O1 = label_of_u64 (cd_ownership cd);
         L2 = label_of_u64 (u64_at (rq_data req) 12); O2 = label_of_u64 (u64_at (rq_data req) 20);
         pid = u32_at (rq_data req) 28 in
     if check_label L1 O1 L2 (Some O2) \<noteq> 0
     then abt_sendreply req (reply_val rply (- 1))
     else sb (register_client (rq_client_addr req) pid (u64_of_label L2) (u64_of_label O2)) (\<lambda>c_new.
          sb (malloc_update c_new) (\<lambda>_.
          abt_sendreply req (reply_val rply 0))))"

definition handle_pthread_join_rpc :: "abt_reply_header \<Rightarrow> addr \<Rightarrow> abt_request \<Rightarrow> unit call" where
  "handle_pthread_join_rpc rply c req =
     sb (arbiter_lookup_client_pid (u32_at (rq_data req) 12)) (\<lambda>c_join.
     if c_join = 0 then abt_sendreply req (reply_val rply (- 1))
     else sb (get_client c) (\<lambda>cd.
          sb (get_client c_join) (\<lambda>cj.
          if check_label (label_of_u64 (cd_label cd)) (label_of_u64 (cd_ownership cd))
               (label_of_u64 (cd_label cj)) (Some (label_of_u64 (cd_ownership cj))) \<noteq> 0
          then abt_sendreply req (reply_val rply (- 1))
          else sb (arbiter_del_client c_join) (\<lambda>_.
               sb (modify (\<lambda>s. s\<lparr>clients := (clients s)(c_join := None)\<rparr>)) (\<lambda>_.
               abt_sendreply req (reply_val rply 0))))))"

definition handle_malloc_rpc :: "abt_reply_header \<Rightarrow> addr \<Rightarrow> abt_request \<Rightarrow> unit call" where
  "handle_malloc_rpc rply c req =
     (let sz = u32_at (rq_data req) 12; L2 = label_of_u64 (u64_at (rq_data req) 16) in
      sb (get_client c) (\<lambda>cd.
      if check_label (label_of_u64 (cd_label cd)) (label_of_u64 (cd_ownership cd)) L2 None \<noteq> 0
      then abt_sendreply req (reply_val rply 0)
      else sb (ablib_malloc (cd_pid cd) sz L2) (\<lambda>ptr.
           abt_sendreply req (reply_val rply ptr))))"

text \<open>
  The label of the unit that holds an address; for \<^verbatim>\<open>NULL\<close> the client's own label.  The
  realloc handler also asserts that a unit was found.
\<close>

definition label_of_unit :: "bool \<Rightarrow> addr \<Rightarrow> client_desc \<Rightarrow> label_t call" where
  "label_of_unit asserted ptr cd =
     (if ptr \<noteq> 0
      then sb (lookup_ustate_by_mem ptr) (\<lambda>unit.
           sb (sguard Assert_failed (asserted \<longrightarrow> unit \<noteq> 0)) (\<lambda>_.
           sb (get_us unit) (\<lambda>u.
           sb (get_ms (us_unit_av u)) (\<lambda>ms. sret (ms_label ms)))))
      else sret (label_of_u64 (cd_label cd)))"

definition handle_free_rpc :: "abt_reply_header \<Rightarrow> addr \<Rightarrow> abt_request \<Rightarrow> unit call" where
  "handle_free_rpc rply c req =
     (let ptr = u32_at (rq_data req) 12 in
      sb (get_client c) (\<lambda>cd.
      sb (label_of_unit False ptr cd) (\<lambda>L2.
      if check_label (label_of_u64 (cd_label cd)) (label_of_u64 (cd_ownership cd)) L2 None \<noteq> 0
      then abt_sendreply req (reply_head rply)
      else sb (ablib_free (cd_pid cd) ptr) (\<lambda>_.
           abt_sendreply req (reply_head rply)))))"

definition handle_get_label_rpc :: "abt_reply_header \<Rightarrow> addr \<Rightarrow> abt_request \<Rightarrow> unit call" where
  "handle_get_label_rpc rply c req =
     sb (get_client c) (\<lambda>cd.
     abt_sendreply req ((reply_head rply)\<lparr>rp_return_val_64 := cd_label cd\<rparr>))"

definition handle_get_ownership_rpc :: "abt_reply_header \<Rightarrow> addr \<Rightarrow> abt_request \<Rightarrow> unit call" where
  "handle_get_ownership_rpc rply c req =
     sb (get_client c) (\<lambda>cd.
     abt_sendreply req ((reply_head rply)\<lparr>rp_return_val_64 := cd_ownership cd\<rparr>))"

definition handle_get_mem_label_rpc :: "abt_reply_header \<Rightarrow> addr \<Rightarrow> abt_request \<Rightarrow> unit call" where
  "handle_get_mem_label_rpc rply c req =
     sb (lookup_label_by_mem (u32_at (rq_data req) 12)) (\<lambda>L.
     abt_sendreply req ((reply_head rply)\<lparr>rp_return_val_64 := u64_of_label L\<rparr>))"

definition handle_calloc_rpc :: "abt_reply_header \<Rightarrow> addr \<Rightarrow> abt_request \<Rightarrow> unit call" where
  "handle_calloc_rpc rply c req =
     (let nmemb = u32_at (rq_data req) 12; sz = u32_at (rq_data req) 16;
          L2 = label_of_u64 (u64_at (rq_data req) 20) in
      sb (get_client c) (\<lambda>cd.
      if check_label (label_of_u64 (cd_label cd)) (label_of_u64 (cd_ownership cd)) L2 None \<noteq> 0
      then abt_sendreply req (reply_val rply 0)
      else sb (ablib_calloc (cd_pid cd) nmemb sz L2) (\<lambda>ptr.
           abt_sendreply req (reply_val rply ptr))))"

definition handle_rpc :: "abt_reply_header \<Rightarrow> addr \<Rightarrow> abt_request \<Rightarrow> unit call" where
  "handle_rpc rply c req = abt_sendreply req (reply_val rply 0)"

definition handle_realloc_rpc :: "abt_reply_header \<Rightarrow> addr \<Rightarrow> abt_request \<Rightarrow> unit call" where
  "handle_realloc_rpc rply c req =
     (let ptr = u32_at (rq_data req) 12; sz = u32_at (rq_data req) 16 in
      sb (get_client c) (\<lambda>cd.
      sb (label_of_unit True ptr cd) (\<lambda>L2.
      if check_label (label_of_u64 (cd_label cd)) (label_of_u64 (cd_ownership cd)) L2 None \<noteq> 0
      then abt_sendreply req (reply_head rply)
      else sb (ablib_realloc (cd_pid cd) ptr sz L2) (\<lambda>rval.
           abt_sendreply req (reply_val rply rval)))))"

section \<open>Dispatch\<close>

definition dispatch :: "abt_opcode \<Rightarrow> abt_reply_header \<Rightarrow> addr \<Rightarrow> abt_request \<Rightarrow> unit call" where
  "dispatch opc = (case opc of
       ABT_CREATE_CAT \<Rightarrow> handle_create_cat_rpc
     | ABT_FORK \<Rightarrow> handle_fork_rpc
     | ABT_PTHREAD_JOIN \<Rightarrow> handle_pthread_join_rpc
     | ABT_MALLOC \<Rightarrow> handle_malloc_rpc
     | ABT_FREE \<Rightarrow> handle_free_rpc
     | ABT_GET_LABEL \<Rightarrow> handle_get_label_rpc
     | ABT_GET_OWNERSHIP \<Rightarrow> handle_get_ownership_rpc
     | ABT_GET_MEM_LABEL \<Rightarrow> handle_get_mem_label_rpc
     | ABT_CALLOC \<Rightarrow> handle_calloc_rpc
     | ABT_REALLOC \<Rightarrow> handle_realloc_rpc
     | ABT_RPC \<Rightarrow> handle_rpc)"

definition well_formed :: "abt_request \<Rightarrow> bool" where
  "well_formed req \<longleftrightarrow>
     \<not> rq_pkt_size req \<le> 0 \<and> \<not> rq_pkt_size req < int rpc_header_size \<and>
     \<not> (u32_at (rq_data req) 0 \<noteq> ABT_RPC_MAGIC \<or>
        u32_at (rq_data req) 4 < of_nat rpc_header_size)"

definition handle_client_rpc :: "abt_reply_header \<Rightarrow> abt_request \<Rightarrow> unit call" where
  "handle_client_rpc rply req =
     (if \<not> well_formed req then sret ()
      else sb (arbiter_lookup_client (rq_client_addr req) (rq_client_addr_len req)) (\<lambda>c.
           if c = 0 then sret ()
           else case opcode_of (u32_at (rq_data req) 8) of
                  None \<Rightarrow> sret ()
                | Some opc \<Rightarrow> dispatch opc rply c req))"

section \<open>The server\<close>

text \<open>
  One iteration of \<^verbatim>\<open>server_loop\<close>.  The request buffer and the packet counter live across
  iterations: the buffer is cleared only once, before the loop.
\<close>

record server =
  sv_serial :: word32
  sv_req :: abt_request
  sv_mon :: mon

definition server_step :: "incoming \<Rightarrow> abt_reply_header \<Rightarrow> server \<Rightarrow> server res" where
  "server_step i rply sv =
     (case wait_client_call i (sv_serial sv) (sv_req sv) of (req, serial) \<Rightarrow>
      bnd (handle_client_rpc rply req (sv_mon sv)) (\<lambda>(u, s).
      ret \<lparr>sv_serial = serial, sv_req = req, sv_mon = s\<rparr>))"

text \<open>The loop over the packets that arrive; it never ends by itself.\<close>

fun server_loop :: "(incoming \<times> abt_reply_header) list \<Rightarrow> server \<Rightarrow> server res" where
  "server_loop [] sv = ret sv"
| "server_loop ((i, rply) # is) sv = bnd (server_step i rply sv) (server_loop is)"

definition init_arbiter_thread :: "unit call" where
  "init_arbiter_thread = modify (\<lambda>s. s\<lparr>client_list := init_linked_list (client_list s)\<rparr>)"

text \<open>
  The first child.  \<^verbatim>\<open>memset(c_new, 0, sizeof(c_new))\<close> clears the first four bytes only, and
  label and ownership are never assigned: they keep what the block \<open>junk\<close> held.
\<close>

definition init_first_child :: "client_desc \<Rightarrow> pid \<Rightarrow> unit call" where
  "init_first_child junk pid =
     sb libc_malloc (\<lambda>c_new.
     if c_new = 0 then sfail Segv
     else sb (modify (\<lambda>s. s\<lparr>clients := (clients s)(c_new \<mapsto>
            junk\<lparr>cd_unix_addr := client_addr_bytes pid (put_at 0 [0, 0, 0, 0] (cd_unix_addr junk)),
                 cd_addr_len := client_addr_len pid, cd_pid := pid\<rparr>)\<rparr>)) (\<lambda>_.
          insert_tail_at client_list (\<lambda>l s. s\<lparr>client_list := l\<rparr>) c_new))"

definition zero_request :: abt_request where
  "zero_request = \<lparr>rq_pkt_sn = 0, rq_pkt_size = 0, rq_data = replicate RPC_DATA_LEN 0,
     rq_client_addr = replicate 256 0, rq_client_addr_len = 0\<rparr>"

definition arbiter_main ::
  "client_desc \<Rightarrow> pid \<Rightarrow> (incoming \<times> abt_reply_header) list \<Rightarrow> mon \<Rightarrow> server res" where
  "arbiter_main junk pid is s =
     bnd (sb init_arbiter_thread (\<lambda>_. init_first_child junk pid) s) (\<lambda>(u, s).
     server_loop is \<lparr>sv_serial = 0, sv_req = zero_request, sv_mon = s\<rparr>)"

end
