(* ===== verification/Alloc_Frame.thy ===== *)
theory Alloc_Frame
  imports AB_Realloc
begin

text \<open>
  What the allocator leaves alone.  The locale \<open>heap_frame\<close> takes a preorder on states
  that every elementary write of the allocator respects, and shows that every inner
  operation of \<open>Units\<close>, \<open>AB_Free\<close>, \<open>AB_Malloc\<close> and \<open>AB_Realloc\<close> respects it; \<open>alloc_frame\<close>
  adds the lock and covers the public entry points.  The interpretations at the end
  use equality of the lock, and equality of the client table, the category counter,
  the sent datagrams and the environment together with growth of the system-call
  trace by allocator calls only.
\<close>

definition alloc_syscall :: "syscall \<Rightarrow> bool" where
  "alloc_syscall c = (case c of Sendto _ \<Rightarrow> False | _ \<Rightarrow> True)"

lemma alloc_syscall_simps [simp]:
  "alloc_syscall (Absys_mmap pid a n pr)" "alloc_syscall (Absys_brk pid a)"
  "alloc_syscall (Absys_munmap pid a n)" "alloc_syscall (Absys_mprotect pid a n pr)"
  "alloc_syscall (Mmap a n)" "\<not> alloc_syscall (Sendto d)"
  by (simp_all add: alloc_syscall_def)

text \<open>For loops: the relation on the states a finished run connects.\<close>

definition okR :: "(mon \<Rightarrow> mon \<Rightarrow> bool) \<Rightarrow> mon \<Rightarrow> cerr + 'a \<times> mon \<Rightarrow> bool" where
  "okR R s y \<longleftrightarrow> (\<forall>x s'. y = Inr (x, s') \<longrightarrow> R s s')"

lemma keeps_okI: "(\<And>s y. m s = Some y \<Longrightarrow> okR R s y) \<Longrightarrow> keeps R m"
  by (auto simp: keeps_def ret_def okR_def)

lemma okR_keeps: "m s = Some y \<Longrightarrow> keeps R m \<Longrightarrow> okR R s y"
  by (auto simp: keeps_def ret_def okR_def)

locale heap_frame = state_frame R for R :: "mon \<Rightarrow> mon \<Rightarrow> bool" +
  assumes R_mem: "R s (s\<lparr>mem := h\<rparr>)"
    and R_mstates: "R s (s\<lparr>mstates := ms\<rparr>)"
    and R_units: "R s (s\<lparr>units := us\<rparr>)"
    and R_ab_top: "R s (s\<lparr>ab_top := a\<rparr>)"
    and R_mstate_list: "R s (s\<lparr>mstate_list := l\<rparr>)"
    and R_ustate_list: "R s (s\<lparr>ustate_list := l\<rparr>)"
    and R_mmapped: "R s (s\<lparr>mmapped_ustate_list := l\<rparr>)"
    and R_curbrk: "R s (s\<lparr>ab_curbrk := a\<rparr>)"
    and R_calls: "R s (s\<lparr>libc_calls := Suc (libc_calls s)\<rparr>)"
    and R_trace: "alloc_syscall c \<Longrightarrow> R s (s\<lparr>sys_trace := sys_trace s @ [c]\<rparr>)"
begin

lemma keeps_reads: "keeps R (rd a)" "keeps R (get_ms p)" "keeps R (get_us p)" "keeps R (get_client p)"
  "keeps R (arr_get xs i)" "keeps R (get_node g p)"
  by (auto simp: keeps_def rd_def get_ms_def get_us_def get_client_def arr_get_def get_node_def
      intro: refl_R split: option.splits if_splits)

lemma keeps_writes: "keeps R (wr a v)" "keeps R (upd_ms p f)" "keeps R (upd_us q g)"
  by (auto simp: keeps_def wr_def upd_ms_def upd_us_def intro: R_mem R_mstates R_units split: option.splits)

lemma keeps_libc_malloc: "keeps R libc_malloc"
  by (auto simp: keeps_def intro: R_calls)

lemma keeps_sys: "alloc_syscall c \<Longrightarrow> keeps R (sys_call c)"
  by (auto simp: keeps_def intro: R_trace)

lemmas base = keeps_rules keeps_reads keeps_writes keeps_libc_malloc

lemma keeps_lists:
  "keeps R (insert_head_at mmapped_ustate_list (\<lambda>l s. s\<lparr>mmapped_ustate_list := l\<rparr>) d)"
  "keeps R (insert_head_at ustate_list (\<lambda>l s. s\<lparr>ustate_list := l\<rparr>) d)"
  "keeps R (insert_tail_at mstate_list (\<lambda>l s. s\<lparr>mstate_list := l\<rparr>) d)"
  "keeps R (del_entry_at mmapped_ustate_list (\<lambda>l s. s\<lparr>mmapped_ustate_list := l\<rparr>) d)"
  "keeps R (del_entry_at ustate_list (\<lambda>l s. s\<lparr>ustate_list := l\<rparr>) d)"
  "keeps R (locate_in g d)"
  by (auto simp: keeps_def insert_head_at_app insert_tail_at_app del_entry_at_def locate_in_def Let_def
      bnd_eq_ret intro: refl_R trans_R [OF R_calls] R_mmapped R_ustate_list R_mstate_list)

lemma keeps_chunk: "keeps R (prev_inuse p)" "keeps R (chunk_is_mmapped p)" "keeps R (chunksize p)"
  "keeps R (inuse p)" "keeps R (inuse_bit_at_offset p n)" "keeps R (set_inuse_bit_at_offset p n)"
  "keeps R (set_head_size p n)" "keeps R (set_head p n)" "keeps R (set_foot p n)" "keeps R (unlink p)"
  "keeps R (mark_bin av i)" "keeps R (fastbin_get av i)" "keeps R (fastbin_set av i p)"
  unfolding prev_inuse_def chunk_is_mmapped_def chunksize_def inuse_def inuse_bit_at_offset_def
    set_inuse_bit_at_offset_def set_head_size_def set_head_def set_foot_def unlink_def mark_bin_def
    fastbin_get_def fastbin_set_def
  by (intro base)+

lemmas base2 = base keeps_lists keeps_chunk

section \<open>Units\<close>

lemma keeps_sbrk: "keeps R (ablib_brk pid a)" "keeps R (ablib_sbrk pid n)"
proof -
  show *: "keeps R (ablib_brk pid a)" for a
    unfolding ablib_brk_def by (intro base keeps_sys alloc_syscall_simps keeps_modify R_curbrk)
  show "keeps R (ablib_sbrk pid n)"
    unfolding ablib_sbrk_def by (intro base *)
qed

lemma keeps_unit_init_state: "keeps R (unit_init_state t a n av)"
  unfolding unit_init_state_def by (intro base keeps_modify R_units)

lemma keeps_lookup_unit_loop: "keeps R (lookup_unit_loop ptr v)"
  by (rule keeps_okI, erule lookup_unit_loop.raw_induct [rotated], erule okR_keeps)
    (intro base; rule keeps_okI, blast)

lemma keeps_lookups: "keeps R (lookup_ustate_by_mem ptr)" "keeps R (lookup_label_by_mem ptr)"
  "keeps R (lookup_mstate_by_label L)"
proof -
  show *: "keeps R (lookup_ustate_by_mem ptr)"
    unfolding lookup_ustate_by_mem_def by (intro base keeps_lookup_unit_loop)
  show "keeps R (lookup_label_by_mem ptr)"
    unfolding lookup_label_by_mem_def by (intro base *)
  show "keeps R (lookup_mstate_by_label L)"
    by (auto simp: keeps_def lookup_mstate_by_label_def bnd_eq_ret intro: refl_R)
qed

lemma keeps_hole_loop: "keeps R (hole_loop n ptr)"
  by (rule keeps_okI, erule hole_loop.raw_induct [rotated], erule okR_keeps)
    (intro base; rule keeps_okI, blast)

lemma keeps_get_unmapped_area: "keeps R (get_unmapped_area n)"
  unfolding get_unmapped_area_def by (intro base keeps_hole_loop)

lemma keeps_insert_after: "keeps R (insert_after ptr d)"
  unfolding insert_after_def node_write_def by (intro base keeps_modify R_mmapped)

lemma keeps_insert_mmapped_loop: "keeps R (insert_mmapped_loop u d ptr)"
  by (rule keeps_okI, erule insert_mmapped_loop.raw_induct [rotated], erule okR_keeps)
    (intro base keeps_insert_after; rule keeps_okI, blast)

lemma keeps_insert_mmapped_unit: "keeps R (insert_mmapped_unit d)"
  unfolding insert_mmapped_unit_def
  by (intro base keeps_lists keeps_insert_mmapped_loop)

lemma keeps_prot_update_loop: "keeps R (prot_update_loop pid p n L ptr)"
  by (rule keeps_okI, erule prot_update_loop.raw_induct [rotated], erule okR_keeps)
    (intro base keeps_sys alloc_syscall_simps; rule keeps_okI, blast)

lemma keeps_prot_update: "keeps R (prot_update pid p n L)"
  unfolding prot_update_def by (intro base keeps_prot_update_loop)

lemma keeps_malloc_update_loop: "keeps R (malloc_update_loop pid L O1 ptr)"
  by (rule keeps_okI, erule malloc_update_loop.raw_induct [rotated], erule okR_keeps)
    (intro base keeps_sys alloc_syscall_simps; rule keeps_okI, blast)

lemma keeps_malloc_update: "keeps R (malloc_update c)"
  unfolding malloc_update_def by (intro base keeps_malloc_update_loop)

lemmas base3 = base2 keeps_sbrk keeps_unit_init_state keeps_lookups keeps_get_unmapped_area
  keeps_insert_mmapped_unit keeps_prot_update keeps_malloc_update

section \<open>Free\<close>

lemma keeps_init_bins: "keeps R (init_bins av is)"
proof (induction "is")
  case Nil
  show ?case unfolding init_bins.simps by (intro base)
next
  case (Cons i js)
  then show ?case unfolding init_bins.simps Let_def by (intro base)
qed

lemma keeps_init: "keeps R (malloc_init_state av)" "keeps R map_channel" "keeps R init_abheap"
proof -
  show "keeps R (malloc_init_state av)"
    unfolding malloc_init_state_def by (intro base3 keeps_init_bins)
  show *: "keeps R map_channel"
    unfolding map_channel_def by (intro base3 keeps_sys alloc_syscall_simps keeps_modify R_mem)
  have "R s (s\<lparr>mstate_list := l1, ustate_list := l2, mmapped_ustate_list := l3, ab_top := a\<rparr>)"
    for s l1 l2 l3 a
    using R_mstate_list [of s l1] R_ustate_list R_mmapped R_ab_top by (blast intro: trans_R)
  then show "keeps R init_abheap"
    unfolding init_abheap_def by (intro base3 * keeps_modify) auto
qed

lemma keeps_consolidate_backward: "keeps R (consolidate_backward p n)"
  unfolding consolidate_backward_def Let_def by (intro base3)

lemma keeps_consolidate_chunk: "keeps R (consolidate_chunk av p)"
  unfolding consolidate_chunk_def Let_def by (intro base3 keeps_consolidate_backward)

lemma keeps_consolidate_bin: "keeps R (consolidate_bin av p)"
  by (rule keeps_okI, erule consolidate_bin.raw_induct [rotated], erule okR_keeps)
    (intro base keeps_consolidate_chunk; rule keeps_okI, blast)

lemma keeps_consolidate_bins: "keeps R (consolidate_bins av is)"
proof (induction "is")
  case Nil
  show ?case unfolding consolidate_bins.simps by (intro base)
next
  case (Cons i js)
  then show ?case unfolding consolidate_bins.simps by (intro base3 keeps_consolidate_bin)
qed

lemma keeps_malloc_consolidate: "keeps R (malloc_consolidate av)"
  unfolding malloc_consolidate_def by (intro base3 keeps_consolidate_bins keeps_init)

lemma keeps_free_paths: "keeps R (free_fast av p n)" "keeps R (free_normal unit av p n)"
  "keeps R (free_mmapped pid unit av p n)"
proof -
  show "keeps R (free_fast av p n)"
    unfolding free_fast_def by (intro base3)
  show "keeps R (free_normal unit av p n)"
    unfolding free_normal_def free_to_unsorted_def Let_def
    by (intro base3 keeps_consolidate_backward keeps_malloc_consolidate)
  show "keeps R (free_mmapped pid unit av p n)"
    unfolding free_mmapped_def by (intro base3 keeps_sys alloc_syscall_simps keeps_modify R_units)
qed

section \<open>Malloc\<close>

lemma keeps_alloc_mmap: "keeps R (alloc_mmap pid nb av L)"
  unfolding alloc_mmap_def mmap_head_def Let_def
  by (intro base3 keeps_sys alloc_syscall_simps)

lemma keeps_alloc_unit: "keeps R (alloc_unit pid nb av L)"
  unfolding alloc_unit_def new_unit_def ms_insert_unit_def Let_def by (intro base3)

lemma keeps_malloc_alloc: "(\<And>b. keeps R (again b)) \<Longrightarrow> keeps R (malloc_alloc again pid nb av L)"
  unfolding malloc_alloc_def
  by (intro base3 keeps_malloc_consolidate keeps_alloc_mmap keeps_alloc_unit)

lemma keeps_new_mstate: "keeps R new_mstate"
proof -
  have "R s (s\<lparr>mstates := m, mem := h\<rparr>)" for s m h
    using R_mstates [of s m] R_mem by (blast intro: trans_R)
  then show ?thesis unfolding new_mstate_def by (intro base keeps_modify) auto
qed

lemma keeps_sorted_loop: "keeps R (sorted_loop n fwd)"
  by (rule keeps_okI, erule sorted_loop.raw_induct [rotated], erule okR_keeps)
    (intro base; rule keeps_okI, blast)

lemma keeps_bin_stages: "keeps R (malloc_fastbin av nb)" "keeps R (malloc_smallbin av nb)"
  "keeps R (split_to_unsorted av v nb r adv)" "keeps R (place_in_bin av v n)"
  "keeps R (take_from_bin av nb bin v)"
proof -
  show "keeps R (malloc_fastbin av nb)" "keeps R (malloc_smallbin av nb)"
    unfolding malloc_fastbin_def malloc_smallbin_def Let_def by (intro base3)+
  show *: "keeps R (split_to_unsorted av v nb r adv)" for av v nb r adv
    unfolding split_to_unsorted_def Let_def by (intro base3)
  show "keeps R (place_in_bin av v n)"
    unfolding place_in_bin_def bin_position_def Let_def
    by (intro base3 keeps_sorted_loop)
  show "keeps R (take_from_bin av nb bin v)"
    unfolding take_from_bin_def by (intro base3 *)
qed

lemmas base4 = base3 keeps_bin_stages

lemma keeps_unsorted_loop: "keeps R (unsorted_loop av nb)"
  by (rule keeps_okI, erule unsorted_loop.raw_induct [rotated], erule okR_keeps)
    (intro base4; rule keeps_okI, blast)

lemma keeps_large_scan: "keeps R (large_scan av nb bin v)"
  by (rule keeps_okI, erule large_scan.raw_induct [rotated], erule okR_keeps)
    (intro base4; rule keeps_okI, blast)

lemma keeps_next_block: "keeps R (next_block av b)"
  by (rule keeps_okI, erule next_block.raw_induct [rotated], erule okR_keeps)
    (intro base4; rule keeps_okI, blast)

lemma keeps_advance_bin: "keeps R (advance_bin mp bin bt)"
  by (rule keeps_okI, erule advance_bin.raw_induct [rotated], erule okR_keeps)
    (intro base4; rule keeps_okI, blast)

lemma keeps_binmap_loop: "keeps R (binmap_loop av nb block bt mp bin)"
  by (rule keeps_okI, erule binmap_loop.raw_induct [rotated], erule okR_keeps)
    (intro base4 keeps_next_block keeps_advance_bin; rule keeps_okI, blast)

lemma keeps_malloc_search: "keeps R (malloc_search av nb)"
  unfolding malloc_search_def search_bins_def binmap_search_def
  by (intro base4 keeps_malloc_consolidate keeps_unsorted_loop
      keeps_large_scan keeps_binmap_loop)

lemma keeps_take_from_top: "keeps R (take_from_top unit nb v n)"
  unfolding take_from_top_def Let_def by (intro base3)

lemma keeps_unit_top_loop: "keeps R (unit_top_loop av nb v)"
  by (rule keeps_okI, erule unit_top_loop.raw_induct [rotated], erule okR_keeps)
    (intro base3 keeps_take_from_top; rule keeps_okI, blast)

lemma keeps_use_unit_top:
  "(\<And>b. keeps R (again b)) \<Longrightarrow> keeps R (use_unit_top again pid nb av L)"
  unfolding use_unit_top_def by (intro base3 keeps_malloc_alloc keeps_unit_top_loop)

lemma keeps_malloc_request:
  "(\<And>b. keeps R (again b)) \<Longrightarrow> keeps R (malloc_request again pid nb av L)"
  unfolding malloc_request_def
  by (intro base3 keeps_malloc_consolidate keeps_malloc_search keeps_use_unit_top)

lemma keeps_words: "keeps R (zero_words d n)" "keeps R (copy_words d src n)"
proof -
  show "keeps R (zero_words d n)"
    by (induction n arbitrary: d) (simp_all only: zero_words.simps, intro base, intro base)
  show "keeps R (copy_words d src n)"
    by (induction n arbitrary: d src) (simp_all only: copy_words.simps, intro base, intro base)
qed

end

section \<open>Whole calls\<close>

text \<open>The public entry points also take and release the allocator lock.\<close>

locale alloc_frame = heap_frame R for R :: "mon \<Rightarrow> mon \<Rightarrow> bool" +
  assumes R_lock: "R s (s\<lparr>malloc_lock := b\<rparr>)"
begin

lemma keeps_lock: "keeps R MALLOC_LOCK" "keeps R MALLOC_UNLOCK"
  by (auto simp: keeps_def MALLOC_LOCK_def MALLOC_UNLOCK_def intro: R_lock split: if_splits)

lemma keeps_ablib_free: "keeps R (ablib_free pid m)"
  unfolding ablib_free_def Let_def by (intro base3 keeps_lock keeps_free_paths)

lemma keeps_ablib_malloc_body:
  "(\<And>b. keeps R (again b)) \<Longrightarrow> keeps R (ablib_malloc_body again pid bytes L)"
  unfolding ablib_malloc_body_def
  by (intro base3 keeps_lock keeps_new_mstate keeps_malloc_request)

lemma keeps_ablib_malloc: "keeps R (ablib_malloc pid bytes L)"
proof -
  have "keeps R (ablib_malloc_fuel n pid bytes L)" for n bytes
  proof (induction n arbitrary: bytes)
    case 0
    show ?case by (simp add: keeps_def)
  next
    case (Suc n)
    then show ?case using keeps_ablib_malloc_body [of "\<lambda>b. ablib_malloc_fuel n pid b L"]
      by (simp add: keeps_def)
  qed
  then show ?thesis by (simp add: ablib_malloc_def)
qed

lemma keeps_ablib_calloc: "keeps R (ablib_calloc pid n e L)"
  unfolding ablib_calloc_def clear_chunk_def Let_def
  by (intro base3 keeps_ablib_malloc keeps_words)

lemma keeps_ablib_realloc: "keeps R (ablib_realloc pid m bytes L)"
  unfolding ablib_realloc_def realloc_normal_def realloc_mmapped_def realloc_move_def
    realloc_split_def Let_def
  by (intro base3 keeps_lock keeps_ablib_malloc keeps_ablib_free keeps_words)

end

section \<open>The client side is untouched\<close>

definition same_clients :: "mon \<Rightarrow> mon \<Rightarrow> bool" where
  "same_clients s s' \<longleftrightarrow>
     clients s' = clients s \<and> client_list s' = client_list s \<and> cat_gen s' = cat_gen s \<and>
     sent s' = sent s \<and> libc_ptrs s' = libc_ptrs s \<and> sys_ret s' = sys_ret s \<and>
     (\<exists>cs. sys_trace s' = sys_trace s @ cs \<and> (\<forall>c\<in>set cs. alloc_syscall c))"

text \<open>The inner operations do not touch the lock.\<close>

definition same_lock :: "mon \<Rightarrow> mon \<Rightarrow> bool" where
  "same_lock s s' \<longleftrightarrow> malloc_lock s' = malloc_lock s"

interpretation lk: heap_frame same_lock
  by unfold_locales (auto simp: same_lock_def)

interpretation sc: alloc_frame same_clients
proof
  fix s t u assume "same_clients s t" "same_clients t u"
  then show "same_clients s u" by (fastforce simp: same_clients_def)
qed (auto simp: same_clients_def)

end
