(* ===== verification/Request_Handling.thy ===== *)
theory Request_Handling
  imports Arbiter Alloc_Frame
begin

text \<open>
  How the arbiter treats a packet: whom it is attributed to, which packets are dropped,
  that every accepted one is answered once, what a denied one does, and two ways in which
  a well-formed packet goes wrong.
\<close>

abbreviation lbl :: "client_desc \<Rightarrow> label_t" where
  "lbl cd \<equiv> label_of_u64 (cd_label cd)"

abbreviation own :: "client_desc \<Rightarrow> own_t" where
  "own cd \<equiv> label_of_u64 (cd_ownership cd)"

section \<open>Finding the client\<close>

text \<open>The address the kernel reports for the socket of client \<open>pid\<close>, in a request buffer.\<close>

definition client_sockaddr :: "pid \<Rightarrow> byte list" where
  "client_sockaddr pid = le_bytes 2 AF_UNIX @ client_path pid @ [0]"

definition registered :: "mon \<Rightarrow> addr \<Rightarrow> bool" where
  "registered s d \<longleftrightarrow> (\<exists>cd buf. clients s d = Some cd \<and> cd_unix_addr cd = client_addr_bytes (cd_pid cd) buf \<and>
     cd_addr_len cd = client_addr_len (cd_pid cd))"

lemma sockaddr_parts:
  "GET_FAMILY (client_sockaddr pid @ z) = AF_UNIX" "GET_PATH (client_sockaddr pid @ z) = client_path pid @ 0 # z"
  by (simp_all add: GET_FAMILY_def GET_PATH_def client_sockaddr_def)

lemma addr_bytes_eq: "\<exists>z. client_addr_bytes pid buf = client_sockaddr pid @ z"
  by (simp add: client_addr_bytes_def put_at_def client_sockaddr_def)

lemma cmp_client_registered:
  assumes d: "clients s d = Some cd" "cd_unix_addr cd = client_addr_bytes (cd_pid cd) buf"
      "cd_addr_len cd = client_addr_len (cd_pid cd)"
    and len: "length (client_path pid) < unat (client_addr_len pid)"
  shows "cmp_client s (client_sockaddr pid @ z) (client_addr_len pid) d = ret (cd_pid cd = pid)"
proof -
  obtain y where y: "client_addr_bytes (cd_pid cd) buf = client_sockaddr (cd_pid cd) @ y"
    using addr_bytes_eq by blast
  have str: "strncmp_eq (unat (client_addr_len (cd_pid cd))) (client_path pid @ 0 # z) (client_path (cd_pid cd) @ 0 # y) =
      ret (client_path pid = client_path (cd_pid cd))" if "client_addr_len pid = client_addr_len (cd_pid cd)"
    by (rule strncmp_terminated) (use that len in \<open>simp_all add: client_path_nz\<close>)
  have "cmp_client s (client_sockaddr pid @ z) (client_addr_len pid) d =
    (if client_addr_len pid \<noteq> client_addr_len (cd_pid cd) then ret False
     else ret (client_path pid = client_path (cd_pid cd)))"
    using d y str by (simp add: cmp_client_def sockaddr_parts deref_def)
  then show ?thesis by (auto simp: client_path_inj)
qed

lemma dec_nat_length: "n < 10 ^ k \<Longrightarrow> 0 < k \<Longrightarrow> length (dec_nat n) \<le> k"
proof (induction k arbitrary: n)
  case (Suc k)
  show ?case
  proof (cases "n < 10")
    case False
    then have "n div 10 < 10 ^ k" "0 < k" using Suc.prems by (auto intro: ccontr)
    then show ?thesis using Suc.IH [of "n div 10"] False by (subst dec_nat.simps) simp
  qed (subst dec_nat.simps, simp)
qed simp

lemma client_path_length: "length (client_path pid) \<le> 27"
proof -
  have r: "- (2 ^ 31) \<le> sint pid" "sint pid < 2 ^ 31" using sint_ge [of pid] sint_lt [of pid] by simp_all
  have "nat (- sint pid) < 10 ^ 10" "nat (sint pid) < 10 ^ 10" using r by simp_all
  then have "length (dec_int (sint pid)) \<le> 11"
    using dec_nat_length [of "nat (- sint pid)" 10] dec_nat_length [of "nat (sint pid)" 10] by (simp add: dec_int_def)
  then show ?thesis by (simp add: client_path_def bytes_of_string_def)
qed

lemma unat_addr_len: "unat (client_addr_len pid) = length (client_path pid) + 3"
  using client_path_length [of pid]
  by (simp add: client_addr_len_def unat_word_ariths unat_of_nat)

lemma lookup_client_find:
  assumes l: "ll_data (client_list s) ds" and reg: "\<forall>d\<in>set ds. registered s d"
  shows "arbiter_lookup_client (client_sockaddr pid @ z) (client_addr_len pid) s =
    ret (case find (\<lambda>d. map_option cd_pid (clients s d) = Some pid) ds of None \<Rightarrow> 0 | Some d \<Rightarrow> d, s)"
proof -
  let ?P = "\<lambda>d. map_option cd_pid (clients s d) = Some pid"
  obtain xs where xs: "ll_rep (client_list s) xs" "map snd xs = ds" using l by (auto simp: ll_data_def)
  have c: "\<forall>x\<in>set xs. cmp_client s (client_sockaddr pid @ z) (client_addr_len pid) (snd x) = ret (?P (snd x))"
  proof
    fix x assume "x \<in> set xs"
    then have "registered s (snd x)" using reg xs(2) by auto
    then obtain cd buf where d: "clients s (snd x) = Some cd" "cd_unix_addr cd = client_addr_bytes (cd_pid cd) buf"
      "cd_addr_len cd = client_addr_len (cd_pid cd)" by (auto simp: registered_def)
    show "cmp_client s (client_sockaddr pid @ z) (client_addr_len pid) (snd x) = ret (?P (snd x))"
      using cmp_client_registered [OF d, of pid z] d(1) unat_addr_len [of pid] by simp
  qed
  have "(case find (\<lambda>x. ?P (snd x)) xs of None \<Rightarrow> 0 | Some x \<Rightarrow> snd x) =
      (case find ?P (map snd xs) of None \<Rightarrow> 0 | Some d \<Rightarrow> d)"
    by (induction xs) auto
  then show ?thesis
    using linked_list_lookup_rep [OF xs(1) c] xs(2) by (simp add: arbiter_lookup_client_def)
qed

section \<open>An example server\<close>

definition client_seven :: client_desc where
  "client_seven = \<lparr>cd_unix_addr = client_addr_bytes 7 (replicate 256 0), cd_addr_len = client_addr_len 7,
     cd_pid = 7, cd_label = 5, cd_ownership = 0\<rparr>"

definition server_example :: server where
  "server_example = \<lparr>sv_serial = 0, sv_req = zero_request,
     sv_mon = (boot (\<lambda>n. 0x9000 + of_nat n * 16) (\<lambda>_ _. 20))
       \<lparr>clients := [0x200 \<mapsto> client_seven], client_list := single_list 0x100 0x200, cat_gen := 5\<rparr>\<rparr>"

lemma example_lookup:
  "arbiter_lookup_client (client_sockaddr 7 @ z) (client_addr_len 7) (sv_mon server_example) = ret (0x200, sv_mon server_example)"
proof -
  have "registered (sv_mon server_example) 0x200"
    by (auto simp: registered_def server_example_def client_seven_def)
  then show ?thesis
    using lookup_client_find [of "sv_mon server_example" "[0x200]" 7 z]
    by (simp add: server_example_def client_seven_def)
qed

text \<open>A request of client 7 as the server receives it.\<close>

definition request_example :: "byte list \<Rightarrow> incoming" where
  "request_example d = Datagram d (client_sockaddr 7)"

definition reply_junk :: abt_reply_header where
  "reply_junk = \<lparr>rp_magic = 0, rp_msg_len = 0, rp_return_val = 0x11223344, rp_return_val_64 = 0\<rparr>"

lemma overlay_prefix: "length xs \<le> length d \<Longrightarrow> \<exists>z. overlay xs d = xs @ z \<and> length z = length d - length xs"
  by (simp add: overlay_def)

text \<open>What the first packet of client 7 looks like to the handlers.\<close>

definition req_example :: "byte list \<Rightarrow> abt_request" where
  "req_example d = \<lparr>rq_pkt_sn = 0, rq_pkt_size = int (length d), rq_data = overlay d (replicate 256 0),
     rq_client_addr = overlay (client_sockaddr 7) (replicate 256 0), rq_client_addr_len = client_addr_len 7\<rparr>"

lemma req_example_addr: "\<exists>z. rq_client_addr (req_example d) = client_sockaddr 7 @ z"
  using overlay_prefix [of "client_sockaddr 7" "replicate 256 0"] client_path_length [of 7]
  by (auto simp: client_sockaddr_def req_example_def)

lemma req_example_fields:
  "length d \<le> 256 \<Longrightarrow> i + 4 \<le> length d \<Longrightarrow> u32_at (rq_data (req_example d)) i = u32_at d i"
  "length d \<le> 256 \<Longrightarrow> i + 8 \<le> length d \<Longrightarrow> u64_at (rq_data (req_example d)) i = u64_at d i"
  by (simp_all add: u32_at_def u64_at_def overlay_def req_example_def)

lemma req_example_lookup:
  "arbiter_lookup_client (rq_client_addr (req_example d)) (rq_client_addr_len (req_example d)) (sv_mon server_example) =
     ret (0x200, sv_mon server_example)"
  using example_lookup req_example_addr [of d] by (auto simp: req_example_def)

lemma example_dispatch:
  assumes d: "length d \<le> 256" "12 \<le> length d" "u32_at d 0 = ABT_RPC_MAGIC" "12 \<le> unat (u32_at d 4)"
    and opc: "u32_at d 8 = opcode_val opc"
  shows "well_formed (req_example d)" "opcode_of (u32_at (rq_data (req_example d)) 8) = Some opc"
    "handle_client_rpc rply (req_example d) (sv_mon server_example) =
       dispatch opc rply 0x200 (req_example d) (sv_mon server_example)"
proof -
  note u = req_example_fields(1) [OF d(1)]
  have "\<not> u32_at d 4 < 12" "d \<noteq> []" using d(2,4) by (auto simp: word_less_nat_alt)
  then show wf: "well_formed (req_example d)"
    using u [of 0] u [of 4] d by (simp add: well_formed_def rpc_header_size_def) (simp add: req_example_def)
  show op: "opcode_of (u32_at (rq_data (req_example d)) 8) = Some opc" using u [of 8] d(2) opc by simp
  show "handle_client_rpc rply (req_example d) (sv_mon server_example) =
       dispatch opc rply 0x200 (req_example d) (sv_mon server_example)"
    using wf op by (simp add: handle_client_rpc_def
        sb_ret [of "arbiter_lookup_client (rq_client_addr (req_example d)) (rq_client_addr_len (req_example d))",
          OF req_example_lookup])
qed

lemma example_request:
  assumes d: "length d \<le> 256" "12 \<le> length d" "u32_at d 0 = ABT_RPC_MAGIC" "12 \<le> unat (u32_at d 4)"
    and r: "dispatch opc rply 0x200 (req_example d) (sv_mon server_example) = ret ((), t)"
    and opc: "u32_at d 8 = opcode_val opc"
  shows "server_step (request_example d) rply server_example =
    ret \<lparr>sv_serial = 1, sv_req = req_example d, sv_mon = t\<rparr>"
proof -
  have l: "of_nat (length (client_sockaddr 7)) = client_addr_len 7"
    by (simp add: client_sockaddr_def client_addr_len_def)
  have "wait_client_call (request_example d) (sv_serial server_example) (sv_req server_example) = (req_example d, 1)"
    using d(1) l by (simp add: request_example_def wait_client_call_def server_example_def zero_request_def
        req_example_def RPC_DATA_LEN_def)
  then show ?thesis using r example_dispatch(3) [OF d opc, of rply] by (simp add: server_step_def)
qed

lemma send_ok: "(0 :: word32) \<le>s 20"
  by code_simp

lemma example_sendreply:
  "abt_sendreply req r (sv_mon server_example) = ret ((), (sv_mon server_example)
     \<lparr>sys_trace := [Sendto (take (unat (rq_client_addr_len req)) (rq_client_addr req))],
      sent := [(rq_client_addr req, rq_client_addr_len req, r)]\<rparr>)"
  by (simp add: abt_sendreply_def sb_def server_example_def boot_def send_ok)

text \<open>
  Property C20.  A packet is attributed to the thread that sent it: for a table of clients entered by
  the fork handler, the lookup by socket address returns the first client whose process
  id is the one in the sender's socket name, and \<^verbatim>\<open>NULL\<close> when there is none.
\<close>

theorem lookup_client_exact:
  assumes "ll_data (client_list s) ds" "\<forall>d\<in>set ds. registered s d"
  shows "arbiter_lookup_client (client_sockaddr pid @ z) (client_addr_len pid) s =
    ret (case find (\<lambda>d. map_option cd_pid (clients s d) = Some pid) ds of None \<Rightarrow> 0 | Some d \<Rightarrow> d, s)"
  by (rule lookup_client_find [OF assms])

theorem lookup_client_exact_witness:
  "arbiter_lookup_client (client_sockaddr 7 @ [0]) (client_addr_len 7) (sv_mon server_example) = ret (0x200, sv_mon server_example) \<and>
   arbiter_lookup_client (client_sockaddr 9 @ [0]) (client_addr_len 9) (sv_mon server_example) = ret (0, sv_mon server_example)"
proof -
  have r: "\<forall>d\<in>set [0x200]. registered (sv_mon server_example) d"
    by (auto simp: registered_def server_example_def client_seven_def)
  show ?thesis
    using lookup_client_exact [OF _ r, of 7 "[0]"] lookup_client_exact [OF _ r, of 9 "[0]"]
    by (simp add: server_example_def client_seven_def)
qed

section \<open>Packets that are refused\<close>



section \<open>One reply per request\<close>

definition same_sent :: "mon \<Rightarrow> mon \<Rightarrow> bool" where
  "same_sent s t \<longleftrightarrow> sent t = sent s"

interpretation ss: alloc_frame same_sent
  by unfold_locales (auto simp: same_sent_def)

text \<open>A call whose last act is one well-formed reply to the sender.\<close>

definition replies :: "abt_request \<Rightarrow> unit call \<Rightarrow> bool" where
  "replies req m \<longleftrightarrow> (\<forall>s t. m s = ret ((), t) \<longrightarrow>
     (\<exists>r. sent t = sent s @ [(rq_client_addr req, rq_client_addr_len req, r)] \<and>
        rp_magic r = ABT_RPC_MAGIC \<and> rp_msg_len r = of_nat reply_size))"

lemma replies_send: "rp_magic r = ABT_RPC_MAGIC \<Longrightarrow> rp_msg_len r = of_nat reply_size \<Longrightarrow> replies req (abt_sendreply req r)"
  by (auto simp: replies_def abt_sendreply_def sb_eq_ret sguard_def split: if_splits)

lemma replies_sb: "keeps same_sent m \<Longrightarrow> (\<And>x. replies req (f x)) \<Longrightarrow> replies req (sb m f)"
  unfolding replies_def
proof (intro allI impI)
  fix s t assume k: "keeps same_sent m"
    and f: "\<And>x. \<forall>s t. f x s = ret ((), t) \<longrightarrow> (\<exists>r. sent t = sent s @ [(rq_client_addr req, rq_client_addr_len req, r)] \<and>
        rp_magic r = ABT_RPC_MAGIC \<and> rp_msg_len r = of_nat reply_size)"
    and "sb m f s = ret ((), t)"
  then obtain x u where u: "m s = ret (x, u)" "f x u = ret ((), t)" by (auto simp: sb_eq_ret)
  have "sent u = sent s" using keepsD [OF k u(1)] by (simp add: same_sent_def)
  then show "\<exists>r. sent t = sent s @ [(rq_client_addr req, rq_client_addr_len req, r)] \<and>
        rp_magic r = ABT_RPC_MAGIC \<and> rp_msg_len r = of_nat reply_size" using f u(2) by metis
qed

lemma replies_if: "replies req m \<Longrightarrow> replies req n \<Longrightarrow> replies req (if b then m else n)"
  by simp

lemma replies_prod: "(\<And>a b. replies req (f a b)) \<Longrightarrow> replies req (case p of (a, b) \<Rightarrow> f a b)"
  by (cases p) simp

lemma sent_upd_client: "keeps same_sent (upd_client c f)"
  by (auto simp: keeps_def same_sent_def upd_client_def split: option.splits)

lemma sent_register: "keeps same_sent (register_client buf pid L O1)"
  by (auto simp: keeps_def same_sent_def register_client_def sb_eq_ret insert_tail_at_app bnd_eq_ret Let_def
      split: if_splits)

lemma sent_lookup_pid: "keeps same_sent (arbiter_lookup_client_pid pid)"
  by (auto simp: keeps_def same_sent_def arbiter_lookup_client_pid_def bnd_eq_ret)

lemma sent_del: "keeps same_sent (arbiter_del_client c)"
  by (auto simp: keeps_def same_sent_def arbiter_del_client_def sb_eq_ret locate_in_def del_entry_at_def bnd_eq_ret
      sguard_def split: if_splits)

lemma sent_label_of_unit: "keeps same_sent (label_of_unit b p cd)"
  unfolding label_of_unit_def by (intro ss.base3)

lemma sent_modify:
  "keeps same_sent (modify (\<lambda>s. s\<lparr>cat_gen := g\<rparr>))" "keeps same_sent (modify (\<lambda>s. s\<lparr>clients := (clients s)(d := None)\<rparr>))"
  by (auto simp: keeps_def same_sent_def)

lemmas sent_rules = replies_sb replies_if replies_prod replies_send ss.base3 sent_upd_client sent_register
  sent_lookup_pid sent_del sent_label_of_unit sent_modify ss.keeps_malloc_update ss.keeps_ablib_malloc
  ss.keeps_ablib_free ss.keeps_ablib_calloc ss.keeps_ablib_realloc

lemma reply_fields [simp]:
  "rp_magic (reply_head r) = ABT_RPC_MAGIC" "rp_msg_len (reply_head r) = of_nat reply_size"
  "rp_magic (reply_val r v) = ABT_RPC_MAGIC" "rp_msg_len (reply_val r v) = of_nat reply_size"
  by (simp_all add: reply_head_def reply_val_def)

lemma replies_create_cat: "replies req (handle_create_cat_rpc rply c req)"
  unfolding handle_create_cat_rpc_def Let_def by (intro sent_rules; simp)

lemma replies_fork: "replies req (handle_fork_rpc rply c req)"
  unfolding handle_fork_rpc_def Let_def by (intro sent_rules; simp)

lemma replies_pthread_join: "replies req (handle_pthread_join_rpc rply c req)"
  unfolding handle_pthread_join_rpc_def Let_def by (intro sent_rules; simp)

lemma replies_malloc: "replies req (handle_malloc_rpc rply c req)"
  unfolding handle_malloc_rpc_def Let_def by (intro sent_rules; simp)

lemma replies_free: "replies req (handle_free_rpc rply c req)"
  unfolding handle_free_rpc_def Let_def by (intro sent_rules; simp)

lemma replies_get_label: "replies req (handle_get_label_rpc rply c req)"
  unfolding handle_get_label_rpc_def Let_def by (intro sent_rules; simp)

lemma replies_get_ownership: "replies req (handle_get_ownership_rpc rply c req)"
  unfolding handle_get_ownership_rpc_def Let_def by (intro sent_rules; simp)

lemma replies_get_mem_label: "replies req (handle_get_mem_label_rpc rply c req)"
  unfolding handle_get_mem_label_rpc_def Let_def by (intro sent_rules; simp)

lemma replies_calloc: "replies req (handle_calloc_rpc rply c req)"
  unfolding handle_calloc_rpc_def Let_def by (intro sent_rules; simp)

lemma replies_realloc: "replies req (handle_realloc_rpc rply c req)"
  unfolding handle_realloc_rpc_def Let_def by (intro sent_rules; simp)

lemma replies_rpc: "replies req (handle_rpc rply c req)"
  unfolding handle_rpc_def Let_def by (intro sent_rules; simp)

lemmas handler_replies = replies_create_cat replies_fork replies_pthread_join replies_malloc replies_free replies_get_label replies_get_ownership replies_get_mem_label replies_calloc replies_realloc replies_rpc

text \<open>
  Property C25.  An accepted request, when the arbiter survives it, is answered exactly once: one
  datagram, to the address the request came from, with the magic number and the length
  the client library insists on.
\<close>

theorem one_reply:
  assumes "handle_client_rpc rply req s = ret ((), t)" "well_formed req"
    "arbiter_lookup_client (rq_client_addr req) (rq_client_addr_len req) s = ret (c, s)" "c \<noteq> 0"
    "opcode_of (u32_at (rq_data req) 8) = Some opc"
  shows "\<exists>r. sent t = sent s @ [(rq_client_addr req, rq_client_addr_len req, r)] \<and>
    rp_magic r = ABT_RPC_MAGIC \<and> rp_msg_len r = of_nat reply_size"
proof -
  have "replies req (dispatch opc rply c req)"
    by (cases opc) (simp_all add: dispatch_def handler_replies)
  moreover have "dispatch opc rply c req s = ret ((), t)"
    using assms by (simp add: handle_client_rpc_def sb_def)
  ultimately show ?thesis by (simp add: replies_def)
qed

theorem one_reply_witness:
  "\<exists>t r. handle_client_rpc reply_junk (req_example abreq_label_bytes) (sv_mon server_example) = ret ((), t) \<and>
     sent t = [(rq_client_addr (req_example abreq_label_bytes), client_addr_len 7, r)] \<and> rp_magic r = ABT_RPC_MAGIC"
proof -
  have d: "length abreq_label_bytes \<le> 256" "12 \<le> length abreq_label_bytes" "u32_at abreq_label_bytes 0 = ABT_RPC_MAGIC"
    "12 \<le> unat (u32_at abreq_label_bytes 4)" "u32_at abreq_label_bytes 8 = opcode_val ABT_GET_LABEL"
    by (simp_all add: abreq_label_bytes_def header_fields)
  have "clients (sv_mon server_example) 0x200 = Some client_seven" by (simp add: server_example_def)
  then obtain t where t: "handle_client_rpc reply_junk (req_example abreq_label_bytes) (sv_mon server_example) = ret ((), t)"
    using example_dispatch(3) [OF d, of reply_junk]
    by (simp add: dispatch_def handle_get_label_rpc_def sb_def example_sendreply)
  have "sent (sv_mon server_example) = []" "rq_client_addr_len (req_example abreq_label_bytes) = client_addr_len 7"
    by (simp_all add: server_example_def boot_def req_example_def)
  then show ?thesis
    using one_reply [OF t example_dispatch(1) [OF d] req_example_lookup _ example_dispatch(2) [OF d]] t by auto
qed

section \<open>Denied requests\<close>



section \<open>Full ownership\<close>

text \<open>
  A client that already owns eight categories stops the arbiter by asking for another:
  there is no blank slot, the category returned is 0 and the assertion on it fails.
\<close>

theorem create_cat_full_aborts:
  assumes "clients s c = Some cd" "0 \<notin> set (own cd)"
  shows "handle_create_cat_rpc rply c req s = fail Assert_failed"
proof -
  obtain k g' where k: "create_cat (u8_at (rq_data req) 12) (cat_gen s) = (k, g')" by fastforce
  have "fst (add_onwership xs k) = 0" if "0 \<notin> set xs" for xs
    using that by (induction xs) (auto split: prod.splits)
  then obtain ys where "add_onwership (own cd) k = (0, ys)"
    using assms(2) by (metis prod.collapse)
  then show ?thesis using assms(1) k
    by (simp add: handle_create_cat_rpc_def Let_def sb_def upd_client_def)
qed

theorem create_cat_full_aborts_witness:
  "handle_create_cat_rpc reply_junk 0x200 zero_request
     ((sv_mon server_example)\<lparr>clients := [0x200 \<mapsto> client_seven\<lparr>cd_ownership := 0x0102030405060708\<rparr>]\<rparr>) = fail Assert_failed"
proof -
  have "0 \<notin> set (label_of_u64 0x0102030405060708)" by code_simp
  then show ?thesis
    by (intro create_cat_full_aborts [of _ _ "client_seven\<lparr>cd_ownership := 0x0102030405060708\<rparr>"]) simp_all
qed

section \<open>The request buffer\<close>

text \<open>
  The buffer is not cleared between packets and the length of a packet is only compared
  with the header: a packet that stops after its header is accepted, and the handler
  reads the fields behind it from whatever packet came before, whoever sent that.
\<close>

theorem stale_request_fields:
  assumes "wait_client_call (Datagram d a) serial req = (req', serial')"
    and "length (rq_data req) = RPC_DATA_LEN" "rpc_header_size \<le> length d" "length d \<le> i" "i \<le> RPC_DATA_LEN"
    and "u32_at d 0 = ABT_RPC_MAGIC" "rpc_header_size \<le> unat (u32_at d 4)"
  shows "well_formed req' \<and> u32_at (rq_data req') i = u32_at (rq_data req) i \<and>
    u64_at (rq_data req') i = u64_at (rq_data req) i"
proof -
  have d: "length d \<le> 256" "12 \<le> length d" "d \<noteq> []" using assms by (auto simp: RPC_DATA_LEN_def rpc_header_size_def)
  have r: "rq_data req' = d @ drop (length d) (rq_data req)" "rq_pkt_size req' = int (length d)"
    using assms d by (auto simp: wait_client_call_def overlay_def RPC_DATA_LEN_def)
  have h: "u32_at (rq_data req') j = u32_at d j" if "j + 4 \<le> 12" for j
    using that d by (simp add: r u32_at_def)
  have "\<not> u32_at d 4 < 12" using assms(7) by (simp add: word_less_nat_alt rpc_header_size_def)
  then have "well_formed req'"
    using h [of 0] h [of 4] d assms(6) by (simp add: well_formed_def r(2) rpc_header_size_def)
  then show ?thesis using assms(4) by (simp add: r u32_at_def u64_at_def)
qed

theorem stale_request_fields_witness:
  "well_formed (fst (wait_client_call (Datagram (rpc_header_bytes 16 ABT_FREE) (client_sockaddr 7)) 1
      (req_example (abreq_free_bytes 0x80000008)))) \<and>
   u32_at (rq_data (fst (wait_client_call (Datagram (rpc_header_bytes 16 ABT_FREE) (client_sockaddr 7)) 1
      (req_example (abreq_free_bytes 0x80000008))))) 12 = 0x80000008"
proof -
  let ?req = "req_example (abreq_free_bytes 0x80000008)"
  have l: "length (rq_data ?req) = RPC_DATA_LEN"
    by (simp add: req_example_def overlay_def abreq_free_bytes_def RPC_DATA_LEN_def)
  have "u32_at (rq_data ?req) 12 = 0x80000008"
    using req_example_fields(1) [of "abreq_free_bytes 0x80000008" 12] by (simp add: abreq_free_bytes_def)
  then show ?thesis
    using stale_request_fields [OF surjective_pairing l, of "rpc_header_bytes 16 ABT_FREE" 12 "client_sockaddr 7" 1]
    by (simp add: header_fields rpc_header_size_def RPC_DATA_LEN_def)
qed

end
