(* ===== verification/Authority.thy ===== *)
theory Authority
  imports Request_Handling
begin

text \<open>
  Who may do what.  The client table and the category counter form an abstract machine
  of grants, spawns and joins; the server loop, with all its handlers and the whole
  allocator behind them, refines it.  From the machine follow the global facts: a
  category nobody owns stays unowned, and a secrecy category every thread carries is
  never shed.
\<close>

section \<open>The abstract authority machine\<close>

type_synonym auth = "(addr \<rightharpoonup> client_desc) \<times> byte"

inductive auth_step :: "auth \<Rightarrow> auth \<Rightarrow> bool" where
  idle: "auth_step (T, g) (T, g)"
| grant: "T c = Some cd \<Longrightarrow> create_cat t g = (k, g') \<Longrightarrow> owned (own cd) \<subseteq> owned (label_of_u64 w) \<Longrightarrow>
    owned (label_of_u64 w) \<subseteq> insert k (owned (own cd)) \<Longrightarrow>
    auth_step (T, g) (T(c \<mapsto> cd\<lparr>cd_ownership := w\<rparr>), g')"
| spawn: "T c = Some cd \<Longrightarrow> can_flow (own cd) (lbl cd) (lbl cn) \<Longrightarrow> owned (own cn) \<subseteq> owned (own cd) \<Longrightarrow>
    auth_step (T, g) (T(d \<mapsto> cn), g)"
| join: "T c = Some cd \<Longrightarrow> T j = Some cj \<Longrightarrow> can_flow (own cd) (lbl cd) (lbl cj) \<Longrightarrow>
    owned (own cj) \<subseteq> owned (own cd) \<Longrightarrow> auth_step (T, g) (T(j := None), g)"

inductive_cases auth_stepE: "auth_step (T, g) (T', g')"

definition auth_of :: "mon \<Rightarrow> auth" where
  "auth_of s = (clients s, cat_gen s)"

definition same_auth :: "mon \<Rightarrow> mon \<Rightarrow> bool" where
  "same_auth s t \<longleftrightarrow> auth_of t = auth_of s"

interpretation au: alloc_frame same_auth
  by unfold_locales (auto simp: same_auth_def auth_of_def)

lemma auth_sendreply: "keeps same_auth (abt_sendreply req r)"
  by (auto simp: keeps_def abt_sendreply_def sb_eq_ret same_auth_def auth_of_def sguard_def split: if_splits)

lemma owned_add:
  "owned xs \<subseteq> owned (snd (add_onwership xs c))" "owned (snd (add_onwership xs c)) \<subseteq> insert c (owned xs)"
  by (induction xs) (auto simp: owned_def split: prod.splits)

lemma create_cat_auth:
  assumes "handle_create_cat_rpc rply c req s = ret ((), t)"
  shows "auth_step (auth_of s) (auth_of t)"
proof -
  obtain k g' where k: "create_cat (u8_at (rq_data req) 12) (cat_gen s) = (k, g')" by fastforce
  obtain cd where cd: "clients s c = Some cd"
    using assms k by (cases "clients s c") (auto simp: handle_create_cat_rpc_def sb_def Let_def)
  obtain r ys where a: "add_onwership (own cd) k = (r, ys)" by fastforce
  have ys: "length ys = 8" using length_add_onwership [of "own cd" k] a by simp
  let ?s = "s\<lparr>cat_gen := g', clients := (clients s)(c \<mapsto> cd\<lparr>cd_ownership := u64_of_label ys\<rparr>)\<rparr>"
  have "sb (sguard Assert_failed (r \<noteq> 0)) (\<lambda>_. abt_sendreply req
      ((reply_head rply)\<lparr>rp_return_val := (rp_return_val rply AND NOT 0xFF) OR ucast r\<rparr>)) ?s = ret ((), t)"
    using assms k cd a by (simp add: handle_create_cat_rpc_def Let_def sb_def upd_client_def)
  then have "same_auth ?s t"
    by (rule keepsD [OF au.keeps_sb [OF au.keeps_sguard auth_sendreply]])
  then have t: "auth_of t = ((clients s)(c \<mapsto> cd\<lparr>cd_ownership := u64_of_label ys\<rparr>), g')"
    by (simp add: same_auth_def auth_of_def)
  show ?thesis unfolding t unfolding auth_of_def
    by (rule auth_step.grant [where k = k]) (use cd k ys a owned_add [of "own cd" k] in auto)
qed

lemma register_client_auth:
  assumes "register_client buf pid L O1 s = ret (c, t)"
  shows "clients t = (clients s)(c \<mapsto> \<lparr>cd_unix_addr = client_addr_bytes pid buf, cd_addr_len = client_addr_len pid,
    cd_pid = pid, cd_label = L, cd_ownership = O1\<rparr>)" "cat_gen t = cat_gen s"
  using assms by (auto simp: register_client_def sb_eq_ret insert_tail_at_app bnd_eq_ret Let_def split: if_splits)

lemma fork_auth:
  assumes "handle_fork_rpc rply c req s = ret ((), t)"
  shows "auth_step (auth_of s) (auth_of t)"
proof -
  obtain cd where cd: "clients s c = Some cd"
    using assms by (cases "clients s c") (auto simp: handle_fork_rpc_def sb_def)
  let ?L2 = "label_of_u64 (u64_at (rq_data req) 12)" and ?O2 = "label_of_u64 (u64_at (rq_data req) 20)"
  show ?thesis
  proof (cases "check_label (lbl cd) (own cd) ?L2 (Some ?O2) = 0")
    case False
    then have "same_auth s t"
      using assms cd by (auto simp: handle_fork_rpc_def Let_def sb_def intro: keepsD [OF auth_sendreply])
    then show ?thesis by (simp add: same_auth_def auth_of_def auth_step.idle)
  next
    case True
    then obtain cn s' where r: "register_client (rq_client_addr req) (u32_at (rq_data req) 28)
        (u64_at (rq_data req) 12) (u64_at (rq_data req) 20) s = ret (cn, s')"
      and m: "sb (malloc_update cn) (\<lambda>_. abt_sendreply req (reply_val rply 0)) s' = ret ((), t)"
      using assms cd by (auto simp: handle_fork_rpc_def Let_def sb_eq_ret)
    from m have "same_auth s' t"
      by (rule keepsD [OF au.keeps_sb [OF au.keeps_malloc_update auth_sendreply]])
    then have t: "auth_of t = (clients s', cat_gen s')" by (simp add: same_auth_def auth_of_def)
    show ?thesis unfolding t unfolding auth_of_def register_client_auth [OF r]
      by (rule auth_step.spawn [where c = c and cd = cd]) (use True cd in \<open>auto simp: check_label_flow\<close>)
  qed
qed

lemma join_auth:
  assumes "handle_pthread_join_rpc rply c req s = ret ((), t)"
  shows "auth_step (auth_of s) (auth_of t)"
proof -
  obtain j where j: "arbiter_lookup_client_pid (u32_at (rq_data req) 12) s = ret (j, s)"
    using assms by (auto simp: handle_pthread_join_rpc_def sb_eq_ret arbiter_lookup_client_pid_def bnd_eq_ret)
  note run = assms [unfolded handle_pthread_join_rpc_def sb_ret [of "arbiter_lookup_client_pid (u32_at (rq_data req) 12)", OF j]]
  have reply: "auth_step (auth_of s) (auth_of t)" if "abt_sendreply req r s = ret ((), t)" for r
    using keepsD [OF auth_sendreply that] by (simp add: same_auth_def auth_of_def auth_step.idle)
  show ?thesis
  proof (cases "j = 0")
    case True
    then show ?thesis using run by (auto intro: reply)
  next
    case False
    then obtain cd cj where c: "clients s c = Some cd" "clients s j = Some cj"
      using run by (cases "clients s c"; cases "clients s j") (auto simp: sb_def)
    show ?thesis
    proof (cases "check_label (lbl cd) (own cd) (lbl cj) (Some (own cj)) = 0")
      case False
      then show ?thesis using run c \<open>j \<noteq> 0\<close> by (auto simp: sb_def intro: reply)
    next
      case True
      then obtain d s' where d: "arbiter_del_client j s = ret (d, s')"
        and m: "abt_sendreply req (reply_val rply 0) (s'\<lparr>clients := (clients s')(j := None)\<rparr>) = ret ((), t)"
        using run c \<open>j \<noteq> 0\<close> by (auto simp: sb_eq_ret)
      have "auth_of s' = auth_of s"
        using d by (auto simp: arbiter_del_client_def sb_eq_ret locate_in_def del_entry_at_def bnd_eq_ret auth_of_def
            sguard_def split: if_splits)
      then have t: "auth_of t = ((clients s)(j := None), cat_gen s)"
        using keepsD [OF auth_sendreply m] by (simp add: same_auth_def auth_of_def)
      show ?thesis unfolding t unfolding auth_of_def
        by (rule auth_step.join [where c = c and cd = cd and cj = cj]) (use True c in \<open>auto simp: check_label_flow\<close>)
    qed
  qed
qed

lemma auth_label_of_unit: "keeps same_auth (label_of_unit b p cd)"
  unfolding label_of_unit_def by (intro au.base3)

lemma other_auth:
  "keeps same_auth (handle_malloc_rpc rply c req)" "keeps same_auth (handle_free_rpc rply c req)"
  "keeps same_auth (handle_get_label_rpc rply c req)" "keeps same_auth (handle_get_ownership_rpc rply c req)"
  "keeps same_auth (handle_get_mem_label_rpc rply c req)" "keeps same_auth (handle_calloc_rpc rply c req)"
  "keeps same_auth (handle_realloc_rpc rply c req)" "keeps same_auth (handle_rpc rply c req)"
  unfolding handle_malloc_rpc_def handle_free_rpc_def handle_get_label_rpc_def handle_get_ownership_rpc_def
    handle_get_mem_label_rpc_def handle_calloc_rpc_def handle_realloc_rpc_def handle_rpc_def Let_def
  by (intro au.base3 auth_sendreply auth_label_of_unit au.keeps_ablib_malloc au.keeps_ablib_free
      au.keeps_ablib_calloc au.keeps_ablib_realloc)+

lemma dispatch_auth:
  assumes "dispatch opc rply c req s = ret ((), t)"
  shows "auth_step (auth_of s) (auth_of t)"
proof -
  have "auth_step (auth_of s) (auth_of t)" if "same_auth s t"
    using that by (simp add: same_auth_def auth_of_def auth_step.idle)
  then show ?thesis using assms
    by (cases opc) (auto simp: dispatch_def create_cat_auth fork_auth join_auth dest: other_auth [THEN keepsD])
qed

lemma step_refines:
  assumes "server_step i rply sv = ret sv'"
  shows "auth_step (auth_of (sv_mon sv)) (auth_of (sv_mon sv'))"
proof -
  obtain req serial where w: "wait_client_call i (sv_serial sv) (sv_req sv) = (req, serial)" by fastforce
  obtain t where t: "handle_client_rpc rply req (sv_mon sv) = ret ((), t)" "sv_mon sv' = t"
    using assms w by (auto simp: server_step_def bnd_eq_ret)
  have "auth_of t = auth_of (sv_mon sv) \<or> (\<exists>opc c. dispatch opc rply c req (sv_mon sv) = ret ((), t))"
    using t(1)
    by (auto simp: handle_client_rpc_def sb_eq_ret arbiter_lookup_client_def bnd_eq_ret split: if_splits option.splits)
  then show ?thesis using t(2) dispatch_auth auth_step.idle
    by (metis auth_of_def)
qed

text \<open>
  Property C2.  Whatever packet arrives, the arbiter's client table moves by one step of the authority
  machine: nothing happens; or the category counter advances and the client that asked
  gains at most the category issued; or a thread appears whose label the asking
  client's information may flow to and whose ownership the client already had; or a
  thread disappears that passes the same test.
\<close>

theorem server_step_refines:
  assumes "server_step i rply sv = ret sv'"
  shows "auth_step (auth_of (sv_mon sv)) (auth_of (sv_mon sv'))"
  by (rule step_refines [OF assms])

lemma example_create_cat:
  "\<exists>req t. server_step (request_example (abreq_create_cat_bytes CAT_S [0, 0, 0])) reply_junk server_example =
     ret \<lparr>sv_serial = 1, sv_req = req, sv_mon = t\<rparr> \<and>
     clients t = [0x200 \<mapsto> client_seven\<lparr>cd_ownership := 6\<rparr>] \<and> cat_gen t = 6"
proof -
  let ?d = "abreq_create_cat_bytes CAT_S [0, 0, 0]"
  have u: "u8_at (overlay ?d (replicate 256 0)) 12 = CAT_S" by code_simp
  have k: "create_cat CAT_S 5 = (6, 6)" "add_onwership (label_of_u64 0) 6 = (6, [6, 0, 0, 0, 0, 0, 0, 0])"
    "u64_of_label [6, 0, 0, 0, 0, 0, 0, 0] = 6" by code_simp+
  have "\<exists>t. dispatch ABT_CREATE_CAT reply_junk 0x200 (req_example ?d) (sv_mon server_example) = ret ((), t) \<and>
      clients t = [0x200 \<mapsto> client_seven\<lparr>cd_ownership := 6\<rparr>] \<and> cat_gen t = 6"
    using u k by (simp add: dispatch_def handle_create_cat_rpc_def Let_def server_example_def boot_def sb_def
        upd_client_def client_seven_def abt_sendreply_def send_ok req_example_def)
  then obtain t where t: "dispatch ABT_CREATE_CAT reply_junk 0x200 (req_example ?d) (sv_mon server_example) = ret ((), t)"
    "clients t = [0x200 \<mapsto> client_seven\<lparr>cd_ownership := 6\<rparr>]" "cat_gen t = 6" by blast
  have "server_step (request_example ?d) reply_junk server_example = ret \<lparr>sv_serial = 1, sv_req = req_example ?d, sv_mon = t\<rparr>"
    by (rule example_request [OF _ _ _ _ t(1)]) (simp_all add: abreq_create_cat_bytes_def header_fields)
  then show ?thesis using t by blast
qed

theorem server_step_refines_witness:
  "\<exists>sv'. server_step (request_example (abreq_create_cat_bytes CAT_S [0, 0, 0])) reply_junk server_example = ret sv' \<and>
     auth_step (auth_of (sv_mon server_example)) (auth_of (sv_mon sv')) \<and> cat_gen (sv_mon sv') = 6"
  using example_create_cat server_step_refines by fastforce

section \<open>Runs\<close>

definition unowned :: "cat_t \<Rightarrow> auth \<Rightarrow> bool" where
  "unowned x A \<longleftrightarrow> (\<forall>d cd. fst A d = Some cd \<longrightarrow> x \<notin> owned (own cd))"

definition tainted :: "cat_t \<Rightarrow> auth \<Rightarrow> bool" where
  "tainted x A \<longleftrightarrow> (\<forall>d cd. fst A d = Some cd \<longrightarrow> x \<in> secrecy (lbl cd))"

definition issued :: "cat_t \<Rightarrow> byte \<Rightarrow> bool" where
  "issued x g \<longleftrightarrow> unat (x AND 0x7F) \<le> unat g"

lemma create_cat_new:
  assumes "unat g < 127" "issued x g" "create_cat t g = (k, g')"
  shows "k \<noteq> x" "unat g' = unat g + 1"
proof -
  have k: "k = t OR (g + 1)" "g' = g + 1" using create_cat_ok [OF assms(1)] assms(3) by auto
  show "unat g' = unat g + 1" using create_cat_ok(2) [OF assms(1)] k by simp
  have "g + 1 < 0x80" using create_cat_ok(2) [OF assms(1)] assms(1) by (simp add: word_less_nat_alt)
  then have "(g + 1) AND 0x7F = g + 1"
    using cat_low7(1) [of CAT_S "g + 1"] by (simp add: CAT_S_def)
  then have "g + 1 \<le> k AND 0x7F"
    using le_word_or1 [of "g + 1" "t AND 0x7F"] by (simp add: k(1) bit.conj_disj_distrib2)
  then show "k \<noteq> x" using assms(2) create_cat_ok(2) [OF assms(1)]
    by (auto simp: issued_def word_le_nat_alt)
qed

lemma auth_step_unowned:
  assumes st: "auth_step A B" and g: "unat (snd A) < 127" "issued x (snd A)" and un: "unowned x A"
  shows "unowned x B \<and> (tainted x A \<longrightarrow> tainted x B) \<and> issued x (snd B) \<and>
    unat (snd A) \<le> unat (snd B) \<and> unat (snd B) \<le> unat (snd A) + 1"
  using st
proof cases
  case (grant T c cd t g k g' w)
  then have "k \<noteq> x" "unat g' = unat g + 1" using create_cat_new [of g x t k g'] assms by auto
  then show ?thesis using grant un g by (auto simp: unowned_def tainted_def issued_def)
next
  case (spawn T c cd cn g d)
  then show ?thesis using un g by (auto simp: unowned_def tainted_def can_flow_def)
qed (use un g in \<open>auto simp: unowned_def tainted_def split: if_splits\<close>)



end
