(* ===== verification/Bin_Order.thy ===== *)
theory Bin_Order
  imports Alloc_Frame
begin

text \<open>
  The large bins of \<^verbatim>\<open>ablib_malloc\<close>: each is a circular list of free chunks kept in
  descending order of size, the order in which \<^verbatim>\<open>ablib_malloc\<close> finds the best fit by
  scanning from the end.
\<close>

section \<open>Sorted bins\<close>

lemma sorted_loop_run:
  assumes "chain (mem s) a xs b" "\<forall>x\<in>set xs. mem s (size_of x) = Some (f x)" "\<exists>x\<in>set xs. \<not> n < f x"
  shows "sorted_loop n (hd xs) s = ret (hd (dropWhile (\<lambda>x. n < f x) xs), s)"
  using assms
proof (induction xs arbitrary: a)
  case Nil
  then show ?case by simp
next
  case (Cons x xs)
  have fx: "mem s (size_of x) = Some (f x)" using Cons.prems by simp
  show ?case
  proof (cases "n < f x")
    case False
    then show ?thesis using fx by (simp add: sorted_loop.simps [of n x] sb_def)
  next
    case True
    with Cons.prems have ex: "\<exists>x\<in>set xs. \<not> n < f x" by auto
    then obtain y ys where xs: "xs = y # ys" by (cases xs) auto
    have fd: "mem s (fd_of x) = Some y" using Cons.prems(1) xs by (simp add: link_def)
    have "sorted_loop n y s = ret (hd (dropWhile (\<lambda>x. n < f x) xs), s)"
      using Cons.IH [of x] Cons.prems ex xs by simp
    then show ?thesis using True fx fd by (simp add: sorted_loop.simps [of n x] sb_def)
  qed
qed

text \<open>
  The bin as the code keeps it: a ring whose chunks carry their size with the
  \<^verbatim>\<open>PREV_INUSE\<close> bit, largest first.
\<close>

definition sorted_bin :: "(addr \<rightharpoonup> word32) \<Rightarrow> (addr \<Rightarrow> word32) \<Rightarrow> addr \<Rightarrow> addr list \<Rightarrow> bool" where
  "sorted_bin h f b xs \<longleftrightarrow> ring h b xs \<and> (\<forall>x\<in>set xs. h (size_of x) = Some (f x OR PREV_INUSE)) \<and>
     sorted_wrt (\<lambda>x y. f y \<le> f x) xs \<and> (\<forall>x\<in>set xs. f x AND 7 = 0)"

lemma or1: "x AND 7 = 0 \<Longrightarrow> unat (x OR 1 :: word32) = unat x + 1"
proof -
  assume "x AND 7 = 0"
  then have "unat x mod 8 = 0" by (metis unat_0 unat_and_low(3))
  then have ev: "even (unat x)" by presburger
  then have "\<not> bit x 0" by (simp add: bit_unat)
  then have "x OR 1 = x + 1" by (simp add: or_one_eq bit_0)
  moreover have "unat x + 1 < 2 ^ 32"
    using ev unat_lt [of x] by (cases "unat x = 4294967295") auto
  ultimately show ?thesis using unat_add_le [of x 1] by simp
qed

lemma size_compare:
  assumes "a AND 7 = 0" "b AND 7 = 0"
  shows "a OR 1 < b OR 1 \<longleftrightarrow> a < (b :: word32)" "a < b OR 1 \<longleftrightarrow> a \<le> b"
  using or1 [OF assms(1)] or1 [OF assms(2)] by (auto simp: word_less_nat_alt word_le_nat_alt)

lemma bin_position_sorted:
  assumes b: "b = bin_at av (malloc_largebin_index sz)" and large: "\<not> in_smallbin_range sz"
    and sb: "sorted_bin (mem s) f b xs" and al: "sz AND 7 = 0"
  shows "\<exists>ys zs. xs = ys @ zs \<and> bin_position av sz s = ret ((last (b # ys), hd (zs @ [b])), s) \<and>
    (\<forall>y\<in>set ys. sz \<le> f y) \<and> (\<forall>z\<in>set zs. f z \<le> sz)"
proof (cases xs rule: rev_cases)
  case Nil
  then have "mem s (fd_of b) = Some b" using sb by (simp add: sorted_bin_def ring_def link_def)
  then show ?thesis using Nil large by (simp add: bin_position_def Let_def b sb_def flip: b)
next
  case (snoc us l)
  from sb have ring: "ring (mem s) b xs" and szs: "\<forall>x\<in>set xs. mem s (size_of x) = Some (f x OR 1)"
    and srt: "sorted_wrt (\<lambda>x y. f y \<le> f x) xs" and al': "\<forall>x\<in>set xs. f x AND 7 = 0"
    by (auto simp: sorted_bin_def)
  have "xs \<noteq> []" using snoc by simp
  then obtain h hs where xs: "xs = h # hs" by (metis list.exhaust)
  have ch: "chain (mem s) b xs b" and d: "b \<notin> set xs" using ring by (auto simp: ring_def sep_def)
  have fd: "mem s (fd_of b) = Some h" using ch xs by (simp add: link_def)
  have bk: "mem s (bk_of b) = Some l" using ch snoc by (simp add: link_def)
  have hb: "h \<noteq> b" using d xs by auto
  have sl: "mem s (size_of l) = Some (f l OR 1)" using szs snoc by simp
  show ?thesis
  proof (cases "sz \<le> f l")
    case True
    have "\<forall>y\<in>set xs. sz \<le> f y" using srt True snoc by (auto simp: sorted_wrt_append intro: order_trans)
    moreover have "bin_position av sz s = ret ((l, b), s)"
      using True fd bk hb sl large size_compare(2) [OF al, of "f l"] al' snoc
      by (simp add: bin_position_def Let_def sb_def flip: b)
    ultimately show ?thesis using snoc by (intro exI [of _ xs] exI [of _ "[]"]) simp
  next
    case False
    let ?P = "\<lambda>x. sz OR 1 < f x OR 1"
    have P: "?P x \<longleftrightarrow> sz < f x" if "x \<in> set xs" for x
      using size_compare(1) [OF al, of "f x"] al' that by simp
    define ys where "ys = takeWhile ?P xs"
    define zs where "zs = dropWhile ?P xs"
    have ex: "\<exists>x\<in>set xs. \<not> ?P x" using P [of l] False snoc by auto
    then have zs: "zs \<noteq> []" by (auto simp: zs_def)
    have sp: "xs = ys @ zs" by (simp add: ys_def zs_def)
    have "\<not> ?P (hd zs)" using zs hd_dropWhile [of ?P xs] unfolding zs_def by blast
    then have "f (hd zs) \<le> sz" using P [of "hd zs"] zs sp by (simp add: not_less)
    then have hi: "\<forall>z\<in>set zs. f z \<le> sz"
      using srt [unfolded sp] zs by (cases zs) (auto simp: sorted_wrt_append intro: order_trans)
    have lo: "\<forall>y\<in>set ys. sz \<le> f y"
      using P by (auto simp: ys_def less_imp_le dest: set_takeWhileD)
    have run: "sorted_loop (sz OR 1) h s = ret (hd zs, s)"
      using sorted_loop_run [OF ch szs ex] xs by (simp add: zs_def)
    have bkz: "mem s (bk_of (hd zs)) = Some (last (b # ys))"
      using ring_two_sides(1) [of "mem s" b ys "hd zs" "tl zs"] ring sp zs by (simp add: link_def)
    have "sz \<ge> FIRST_SORTED_BIN_SIZE"
      using large by (simp add: in_smallbin_range_def FIRST_SORTED_BIN_SIZE_def)
    then have "bin_position av sz s = ret ((last (b # ys), hd (zs @ [b])), s)"
      using False fd bk hb sl large size_compare(2) [OF al, of "f l"] al' snoc run bkz zs
      by (simp add: bin_position_def Let_def sb_def flip: b)
    then show ?thesis using sp lo hi by blast
  qed
qed

lemma place_writes:
  assumes "distinct [fd_of v, bk_of v, bk_of F, fd_of B]"
    "h (bk_of v) \<noteq> None" "h (fd_of v) \<noteq> None" "h (bk_of F) \<noteq> None" "h (fd_of B) \<noteq> None"
  shows "sb (wr (bk_of v) B) (\<lambda>_. sb (wr (fd_of v) F) (\<lambda>_. sb (wr (bk_of F) v) (\<lambda>_. wr (fd_of B) v)))
      (s\<lparr>mem := h\<rparr>) = ret ((), s\<lparr>mem := relink v F (relink B v h)\<rparr>)"
proof -
  have "h(bk_of v \<mapsto> B, fd_of v \<mapsto> F, bk_of F \<mapsto> v, fd_of B \<mapsto> v) = relink v F (relink B v h)"
    using assms(1) by (auto simp: relink_def fun_upd_def fun_eq_iff)
  then show ?thesis using assms by (auto simp: sb_def wr_def)
qed

text \<open>
  Property C27.  Binning a large chunk keeps its bin a well-formed circular list in
  descending order of size, containing exactly the old chunks and the new one, and
  marks the bin in the bin map.
\<close>

theorem place_in_bin_sorted:
  assumes b: "b = bin_at av (malloc_largebin_index sz)" and large: "\<not> in_smallbin_range sz"
    and sb: "sorted_bin (mem s) f b xs" and al: "sz AND 7 = 0" and f: "f v = sz"
    and v: "sep (v # b # xs)" "mem s (fd_of v) \<noteq> None" "mem s (bk_of v) \<noteq> None"
      "mem s (size_of v) = Some (sz OR PREV_INUSE)"
      "\<forall>x\<in>set (v # b # xs). \<forall>y\<in>set (v # xs). fd_of x \<noteq> size_of y \<and> bk_of x \<noteq> size_of y"
    and ms: "mstates s av = Some ms" "unat (idx2block (malloc_largebin_index sz)) < length (ms_binmap ms)"
  shows "\<exists>t ys zs. place_in_bin av v sz s = ret ((), t) \<and> xs = ys @ zs \<and>
    sorted_bin (mem t) f b (ys @ v # zs) \<and>
    mstates t av = Some (ms\<lparr>ms_binmap := (ms_binmap ms)
      [unat (idx2block (malloc_largebin_index sz)) :=
        ms_binmap ms ! unat (idx2block (malloc_largebin_index sz)) OR idx2bit (malloc_largebin_index sz)]\<rparr>)"
proof -
  from bin_position_sorted [OF b large sb al] obtain ys zs where p: "xs = ys @ zs"
    "bin_position av sz s = ret ((last (b # ys), hd (zs @ [b])), s)"
    "\<forall>y\<in>set ys. sz \<le> f y" "\<forall>z\<in>set zs. f z \<le> sz" by blast
  define B where "B = last (b # ys)"
  define F where "F = hd (zs @ [b])"
  have pos: "bin_position av sz s = ret ((B, F), s)" unfolding B_def F_def by (rule p(2))
  have BF: "B \<in> set (b # xs)" "F \<in> set (b # xs)"
    using last_in [of b ys] hd_in_set [of "zs @ [b]"] p(1) by (auto simp: B_def F_def)
  have ring: "ring (mem s) b (ys @ zs)" using sb p(1) by (simp add: sorted_bin_def)
  have neq: "v \<noteq> B" "v \<noteq> F" using sepD(1) [OF v(1)] BF by auto
  have sp: "fd_of x \<noteq> bk_of y" if "x \<in> set (v # b # xs)" "y \<in> set (v # b # xs)" for x y
    using sepD(2) [OF v(1)] that by blast
  have d: "distinct [fd_of v, bk_of v, bk_of F, fd_of B]"
    using neq sp [of v v] sp [of v F] sp [of B v] sp [of B F] BF by (auto dest: sym)
  have lk: "link (mem s) B F"
  proof (cases zs)
    case Nil
    then have "chain (mem s) b ys b" using ring by (simp add: ring_def)
    then show ?thesis using Nil by (auto simp: B_def F_def elim: chain_last)
  next
    case (Cons z zs')
    then show ?thesis using ring_two_sides(1) [of "mem s" b ys z zs'] ring by (simp add: B_def F_def)
  qed
  let ?ix = "malloc_largebin_index sz"
  let ?ms = "ms\<lparr>ms_binmap := (ms_binmap ms)[unat (idx2block ?ix) := ms_binmap ms ! unat (idx2block ?ix) OR idx2bit ?ix]\<rparr>"
  let ?h = "relink v F (relink B v (mem s))"
  have mk: "mark_bin av ?ix s = ret ((), s\<lparr>mstates := (mstates s)(av \<mapsto> ?ms)\<rparr>)"
    using ms by (simp add: mark_bin_def sb_def)
  have wr: "sb (wr (bk_of v) B) (\<lambda>_. sb (wr (fd_of v) F) (\<lambda>_. sb (wr (bk_of F) v) (\<lambda>_. wr (fd_of B) v)))
      (s\<lparr>mstates := (mstates s)(av \<mapsto> ?ms)\<rparr>) = ret ((), s\<lparr>mstates := (mstates s)(av \<mapsto> ?ms), mem := ?h\<rparr>)"
    using place_writes [OF d, of "mem s" "s\<lparr>mstates := (mstates s)(av \<mapsto> ?ms)\<rparr>"] v(2,3) lk
    by (simp add: link_def)
  have run: "place_in_bin av v sz s = ret ((), s\<lparr>mstates := (mstates s)(av \<mapsto> ?ms), mem := ?h\<rparr>)"
    unfolding place_in_bin_def
    using pos mk wr large by (simp add: sb_ret [of "bin_position av sz" s] sb_ret [of "mark_bin av ?ix" s])
  have r': "ring ?h b (ys @ v # zs)"
    using ring_insert [OF ring, of v] v(1) p(1) by (simp add: B_def F_def)
  have szs: "?h (size_of x) = mem s (size_of x)" if "x \<in> set (v # xs)" for x
  proof -
    have "fd_of y \<noteq> size_of x" "bk_of y \<noteq> size_of x" if "y \<in> set (v # b # xs)" for y
      using v(5) that \<open>x \<in> set (v # xs)\<close> by blast+
    from this [of v] this [of B] this [of F] BF show ?thesis by (simp add: not_sym)
  qed
  have "sorted_wrt (\<lambda>x y. f y \<le> f x) (ys @ v # zs)"
    using sb p(1,3,4) f by (auto simp: sorted_bin_def sorted_wrt_append)
  then have "sorted_bin ?h f b (ys @ v # zs)"
    using sb p(1) r' szs v(4) f al by (auto simp: sorted_bin_def)
  then show ?thesis using run p(1) by (intro exI) auto
qed

definition bin_example :: mon where
  "bin_example = (let b = bin_at 0x500 (malloc_largebin_index 1024) in (boot (\<lambda>_. 0) (\<lambda>_ _. 0))
     \<lparr>mem := [fd_of b \<mapsto> 0x80000100, bk_of 0x80000100 \<mapsto> b,
              fd_of 0x80000100 \<mapsto> b, bk_of b \<mapsto> 0x80000100,
              size_of 0x80000100 \<mapsto> 1033, size_of 0x80001000 \<mapsto> 1025,
              fd_of 0x80001000 \<mapsto> 0, bk_of 0x80001000 \<mapsto> 0],
      mstates := [0x500 \<mapsto> mstate_example]\<rparr>)"

theorem place_in_bin_sorted_witness:
  "\<exists>t ys zs. place_in_bin 0x500 0x80001000 1024 bin_example = ret ((), t) \<and> [0x80000100] = ys @ zs \<and>
    sorted_bin (mem t) (\<lambda>a. if a = 0x80001000 then 1024 else 1032) (bin_at 0x500 (malloc_largebin_index 1024)) (ys @ 0x80001000 # zs)"
proof -
  have ix: "malloc_largebin_index 1024 = 40" by code_simp
  have b: "bin_at 0x500 40 = 1660" by code_simp
  have blk: "unat (idx2block 40) = 1" by code_simp
  have sm: "\<not> in_smallbin_range 1024" by code_simp
  let ?f = "\<lambda>a :: addr. if a = 0x80001000 then 1024 else 1032 :: word32"
  note ev = bin_example_def b ix fd_of_def bk_of_def size_of_def Let_def
  have sb: "sorted_bin (mem bin_example) ?f 1660 [0x80000100]"
    by (simp add: ev sorted_bin_def ring_def link_def sep_def)
  have sp: "sep [0x80001000, 1660, 0x80000100]" by (simp add: ev sep_def)
  have m: "mem bin_example (fd_of 0x80001000) \<noteq> None" "mem bin_example (bk_of 0x80001000) \<noteq> None"
    "mem bin_example (size_of 0x80001000) = Some (1024 OR PREV_INUSE)" by (simp_all add: ev)
  have o: "\<forall>x\<in>set [0x80001000, 1660, 0x80000100]. \<forall>y\<in>set [0x80001000, 0x80000100 :: addr].
      fd_of x \<noteq> size_of y \<and> bk_of x \<noteq> size_of y" by (simp add: ev)
  have ms: "mstates bin_example 0x500 = Some mstate_example"
    "unat (idx2block (malloc_largebin_index 1024)) < length (ms_binmap mstate_example)"
    by (simp_all add: ev blk mstate_example_def)
  show ?thesis
    using place_in_bin_sorted [OF _ sm sb _ _ sp m o ms] unfolding ix b by (simp only: refl) auto
qed

end
