(* ===== verification/Malloc_Correct.thy ===== *)
theory Malloc_Correct
  imports Alloc_Frame
begin

text \<open>
  What \<^verbatim>\<open>ablib_malloc\<close> and \<^verbatim>\<open>ablib_free\<close> do: the recursion of \<^verbatim>\<open>__malloc_alloc\<close> is bounded, the
  lock is left held by an oversized request, a new unit serves a request, and the fast
  bins return what was freed.
\<close>

section \<open>The recursion through the lock\<close>

lemma sb_cong_ret:
  "(\<And>x s'. m s = ret (x, s') \<Longrightarrow> f x s' = g x s') \<Longrightarrow> sb m f s = sb m g s"
  by (cases "m s" rule: res_cases) (auto simp: sb_def)

lemma lookup_mstate_state: "lookup_mstate_by_label L s = ret (av, s') \<Longrightarrow> s' = s"
  by (auto simp: lookup_mstate_by_label_def bnd_eq_ret)

text \<open>With the lock held, a call that gets as far as the lock never sees its continuation.\<close>

lemma malloc_body_locked:
  assumes "malloc_lock s" "bytes \<noteq> 0"
  shows "ablib_malloc_body a1 pid bytes L s = ablib_malloc_body a2 pid bytes L s"
  unfolding ablib_malloc_body_def
  by (rule sb_cong_ret) (use assms in \<open>auto dest!: lookup_mstate_state simp: sb_def\<close>)

lemma malloc_alloc_again:
  assumes lk: "malloc_lock s"
    and eq: "\<And>t. malloc_lock t \<Longrightarrow> a1 (nb - MALLOC_ALIGN_MASK) t = a2 (nb - MALLOC_ALIGN_MASK) t"
  shows "malloc_alloc a1 pid nb av L s = malloc_alloc a2 pid nb av L s"
  unfolding malloc_alloc_def
proof (rule sb_cong_ret)
  fix ms s' assume g: "get_ms av s = ret (ms, s')"
  have s': "malloc_lock s'" using keepsD [OF lk.keeps_reads(2) g] lk by (simp add: same_lock_def)
  have "sb (malloc_consolidate av) (\<lambda>_. a1 (nb - MALLOC_ALIGN_MASK)) s' =
        sb (malloc_consolidate av) (\<lambda>_. a2 (nb - MALLOC_ALIGN_MASK)) s'"
    by (rule sb_cong_ret, rule eq)
      (use s' keepsD [OF lk.keeps_malloc_consolidate] in \<open>fastforce simp: same_lock_def\<close>)
  then show "(if have_fastchunks ms
      then sb (sguard Assert_failed (in_smallbin_range nb)) (\<lambda>_.
           sb (malloc_consolidate av) (\<lambda>_. a1 (nb - MALLOC_ALIGN_MASK)))
      else sb (if nb \<ge> ms_mmap_threshold ms \<and> ms_n_mmaps ms <s ms_n_mmaps_max ms
               then alloc_mmap pid nb av L else sret None) (\<lambda>r.
           case r of Some m \<Rightarrow> sret m | None \<Rightarrow> alloc_unit pid nb av L)) s' =
     (if have_fastchunks ms
      then sb (sguard Assert_failed (in_smallbin_range nb)) (\<lambda>_.
           sb (malloc_consolidate av) (\<lambda>_. a2 (nb - MALLOC_ALIGN_MASK)))
      else sb (if nb \<ge> ms_mmap_threshold ms \<and> ms_n_mmaps ms <s ms_n_mmaps_max ms
               then alloc_mmap pid nb av L else sret None) (\<lambda>r.
           case r of Some m \<Rightarrow> sret m | None \<Rightarrow> alloc_unit pid nb av L)) s'"
    by (cases "in_smallbin_range nb") simp_all
qed

lemma use_unit_top_again:
  assumes lk: "malloc_lock s"
    and eq: "\<And>t. malloc_lock t \<Longrightarrow> a1 (nb - MALLOC_ALIGN_MASK) t = a2 (nb - MALLOC_ALIGN_MASK) t"
  shows "use_unit_top a1 pid nb av L s = use_unit_top a2 pid nb av L s"
proof -
  let ?attempt = "\<lambda>ms. if ll_num (ms_ustate_list ms) \<noteq> 0
      then unit_top_loop av nb (ll_tail (ms_ustate_list ms)) else sret None"
  have k: "keeps same_lock (sb (get_ms av) ?attempt)"
    by (intro lk.base3 lk.keeps_unit_top_loop)
  have *: "use_unit_top a pid nb av L s = sb (sb (get_ms av) ?attempt)
      (\<lambda>r. case r of Some m \<Rightarrow> sret m | None \<Rightarrow> malloc_alloc a pid nb av L) s" for a
    unfolding use_unit_top_def by (rule sb_assoc [symmetric])
  show ?thesis unfolding *
    by (rule sb_cong_ret)
      (use lk keepsD [OF k] in \<open>auto simp: same_lock_def split: option.split intro!: malloc_alloc_again eq\<close>)
qed

lemma request2size_retry: "\<not> REQUEST_OUT_OF_RANGE bytes \<Longrightarrow> request2size bytes - MALLOC_ALIGN_MASK \<noteq> 0"
  using request2size_bounds [of bytes] by (auto simp: word_le_nat_alt)

lemma malloc_request_again:
  assumes lk: "malloc_lock s"
    and eq: "\<And>t. malloc_lock t \<Longrightarrow> a1 (nb - MALLOC_ALIGN_MASK) t = a2 (nb - MALLOC_ALIGN_MASK) t"
  shows "malloc_request a1 pid nb av L s = malloc_request a2 pid nb av L s"
  unfolding malloc_request_def
proof (rule sb_cong_ret)
  fix ms s' assume "get_ms av s = ret (ms, s')"
  then have s': "malloc_lock s'" using lk keepsD [OF lk.keeps_reads(2)] by (fastforce simp: same_lock_def)
  let ?init = "swhen (ms_max_fast ms = 0)
      (sb (malloc_consolidate av) (\<lambda>_. upd_ms av (\<lambda>ms. ms\<lparr>ms_label := L\<rparr>)))"
  have k: "keeps same_lock ?init"
    by (intro lk.base3 lk.keeps_malloc_consolidate)
  have u: "use_unit_top a1 pid nb av L t = use_unit_top a2 pid nb av L t" if "same_lock s' t" for t
    by (rule use_unit_top_again) (use that s' eq in \<open>auto simp: same_lock_def\<close>)
  have 1: "sb ?init (\<lambda>_. use_unit_top a1 pid nb av L) s' = sb ?init (\<lambda>_. use_unit_top a2 pid nb av L) s'"
    by (rule sb_cong_ret, rule u, erule keepsD [OF k])
  have 2: "sb (malloc_search av nb) (\<lambda>r. case r of Some m \<Rightarrow> sret m | None \<Rightarrow> use_unit_top a1 pid nb av L) s' =
      sb (malloc_search av nb) (\<lambda>r. case r of Some m \<Rightarrow> sret m | None \<Rightarrow> use_unit_top a2 pid nb av L) s'"
    by (rule sb_cong_ret) (auto split: option.split intro!: u dest: keepsD [OF lk.keeps_malloc_search])
  from 1 2 show "(if \<not> have_anychunks ms then sb ?init (\<lambda>_. use_unit_top a1 pid nb av L)
      else sb (malloc_search av nb) (\<lambda>r. case r of Some m \<Rightarrow> sret m | None \<Rightarrow> use_unit_top a1 pid nb av L)) s' =
    (if \<not> have_anychunks ms then sb ?init (\<lambda>_. use_unit_top a2 pid nb av L)
      else sb (malloc_search av nb) (\<lambda>r. case r of Some m \<Rightarrow> sret m | None \<Rightarrow> use_unit_top a2 pid nb av L)) s'"
    by simp
qed

lemma malloc_body_again:
  assumes eq: "\<And>b t. b \<noteq> 0 \<Longrightarrow> malloc_lock t \<Longrightarrow> a1 b t = a2 b t"
  shows "ablib_malloc_body a1 pid bytes L s = ablib_malloc_body a2 pid bytes L s"
proof -
  define rest where "rest = (\<lambda>a av. if REQUEST_OUT_OF_RANGE bytes then sret 0
      else sb (malloc_request a pid (request2size bytes) av L) (\<lambda>retval.
           sb MALLOC_UNLOCK (\<lambda>_. sret retval)))"
  have rest: "rest a1 v t = rest a2 v t" if t: "malloc_lock t" for v t
  proof (cases "REQUEST_OUT_OF_RANGE bytes")
    case False
    have "malloc_request a1 pid (request2size bytes) v L t = malloc_request a2 pid (request2size bytes) v L t"
      using request2size_retry [OF False] by (intro malloc_request_again t eq)
    then show ?thesis by (simp add: rest_def sb_def)
  qed (simp add: rest_def)
  have locked: "sb MALLOC_LOCK (\<lambda>_. sb (if av = 0 then new_mstate else sret av) (rest a1)) t =
        sb MALLOC_LOCK (\<lambda>_. sb (if av = 0 then new_mstate else sret av) (rest a2)) t" for av t
  proof (intro sb_cong_ret rest)
    have new: "keeps same_lock (if av = 0 then new_mstate else sret av)"
      by (intro lk.base3 lk.keeps_new_mstate)
    fix u v t' t'' assume "MALLOC_LOCK t = ret (u, t')" "(if av = 0 then new_mstate else sret av) t' = ret (v, t'')"
    then show "malloc_lock t''" using keepsD [OF new, of t' v t'']
      by (auto simp: same_lock_def MALLOC_LOCK_def split: if_splits)
  qed
  have body: "ablib_malloc_body a pid bytes L s = sb (lookup_mstate_by_label L) (\<lambda>av.
      if bytes = 0 then sret 0
      else sb MALLOC_LOCK (\<lambda>_. sb (if av = 0 then new_mstate else sret av) (rest a))) s" for a
    unfolding ablib_malloc_body_def rest_def by (rule refl)
  show ?thesis unfolding body by (rule sb_cong_ret) (simp add: locked)
qed

lemma malloc_fuel_stable: "ablib_malloc_fuel (Suc (Suc n)) pid bytes L s = ablib_malloc pid bytes L s"
proof -
  have "ablib_malloc_fuel (Suc n) pid b L t = ablib_malloc_fuel (Suc 0) pid b L t"
    if "b \<noteq> 0" "malloc_lock t" for n b t
    using malloc_body_locked [OF that(2,1)] by simp
  then have "ablib_malloc_body (\<lambda>b. ablib_malloc_fuel (Suc n) pid b L) pid bytes L s =
      ablib_malloc_body (\<lambda>b. ablib_malloc_fuel (Suc 0) pid b L) pid bytes L s"
    by (rule malloc_body_again)
  then show ?thesis by (simp add: ablib_malloc_def numeral_2_eq_2)
qed

section \<open>Oversized requests\<close>

lemma lookup_mstate_lock [simp]:
  "lookup_mstate_by_label L (s\<lparr>malloc_lock := b\<rparr>) =
     bnd (lookup_mstate_by_label L s) (\<lambda>(d, s'). ret (d, s\<lparr>malloc_lock := b\<rparr>))"
proof -
  have "cmp_mstate (s\<lparr>malloc_lock := b\<rparr>) L = cmp_mstate s L"
    by (simp add: cmp_mstate_def fun_eq_iff)
  then show ?thesis by (simp add: lookup_mstate_by_label_def bnd_assoc)
qed

lemma ablib_malloc_unfold:
  "ablib_malloc pid bytes L s = ablib_malloc_body (\<lambda>b. ablib_malloc pid b L) pid bytes L s"
  using malloc_fuel_stable [of 1 pid bytes L s] malloc_fuel_stable
  by (metis (no_types) ablib_malloc_fuel.simps(2) ablib_malloc_def One_nat_def Suc_1 malloc_fuel_stable)

lemma malloc_locked:
  assumes "malloc_lock s" "bytes \<noteq> 0" "lookup_mstate_by_label L s = ret (av, s')"
  shows "ablib_malloc pid bytes L s = fail Deadlock"
  using assms lookup_mstate_state [OF assms(3)]
  by (simp add: ablib_malloc_unfold ablib_malloc_body_def sb_def)

lemma free_locked: "malloc_lock s \<Longrightarrow> m \<noteq> 0 \<Longrightarrow> ablib_free pid m s = fail Deadlock"
  by (simp add: ablib_free_def sb_def)

section \<open>New units\<close>

lemma new_unit_run:
  assumes av: "mstates s av = Some ms" and al: "aligned_OK (chunk2mem b)"
    and ptr: "libc_ptrs s (libc_calls s) = u" "u \<noteq> 0"
      "libc_ptrs s (Suc (libc_calls s)) \<noteq> 0" "libc_ptrs s (Suc (Suc (libc_calls s))) \<noteq> 0"
    and l: "ll_rep (ms_ustate_list ms) xs" "libc_ptrs s (Suc (libc_calls s)) \<notin> fst ` set xs"
      "ll_rep (ustate_list s) ys" "libc_ptrs s (Suc (Suc (libc_calls s))) \<notin> fst ` set ys"
    and m: "mem s (b + 4) \<noteq> None" "mem s (b + 40948) \<noteq> None" "mem s (b + 40952) \<noteq> None"
  shows "\<exists>l1 l2. ll_data l1 (u # map snd xs) \<and> ll_data l2 (u # map snd ys) \<and>
    new_unit av b s = ret (u, s
      \<lparr>libc_calls := libc_calls s + 3,
       units := (units s)(u \<mapsto> \<lparr>us_unit_top = b, us_addr = b, us_length = UNIT_SIZE, us_unit_av = av\<rparr>),
       mstates := (mstates s)(av \<mapsto> update_sbrk_stats
         (ms\<lparr>ms_sbrked_mem := ms_sbrked_mem ms + UNIT_SIZE, ms_ustate_list := l1\<rparr>)),
       ustate_list := l2,
       mem := (mem s)(b + 4 \<mapsto> 40945, b + 40948 \<mapsto> 5, b + 40952 \<mapsto> 5)\<rparr>)"
proof -
  from list_insert_head_rep [OF l(1) ptr(3) l(2), of u] obtain l1 where
    l1: "list_insert_head (libc_ptrs s (Suc (libc_calls s))) (ms_ustate_list ms) u = ret l1"
      "ll_rep l1 ((libc_ptrs s (Suc (libc_calls s)), u) # xs)" by blast
  from list_insert_head_rep [OF l(3) ptr(4) l(4), of u] obtain l2 where
    l2: "list_insert_head (libc_ptrs s (Suc (Suc (libc_calls s)))) (ustate_list s) u = ret l2"
      "ll_rep l2 ((libc_ptrs s (Suc (Suc (libc_calls s))), u) # ys)" by blast
  have d: "ll_data l1 (u # map snd xs)" "ll_data l2 (u # map snd ys)"
    using l1(2) l2(2) by (force simp: ll_data_def)+
  obtain v1 v2 v3 where v: "mem s (b + 4) = Some v1" "mem s (b + 40948) = Some v2" "mem s (b + 40952) = Some v3"
    using m by auto
  have "new_unit av b s = ret (u, s
      \<lparr>libc_calls := libc_calls s + 3,
       units := (units s)(u \<mapsto> \<lparr>us_unit_top = b, us_addr = b, us_length = UNIT_SIZE, us_unit_av = av\<rparr>),
       mstates := (mstates s)(av \<mapsto> update_sbrk_stats
         (ms\<lparr>ms_sbrked_mem := ms_sbrked_mem ms + UNIT_SIZE, ms_ustate_list := l1\<rparr>)),
       ustate_list := l2,
       mem := (mem s)(b + 4 \<mapsto> 40945, b + 40948 \<mapsto> 5, b + 40952 \<mapsto> 5)\<rparr>)"
    using av al ptr l1(1) l2(1) v
    by (simp add: new_unit_def unit_init_state_def ms_insert_unit_def insert_head_at_app sb_def
        set_head_def size_of_def chunk_at_offset_def UNIT_SIZE_def Let_def numeral_3_eq_3 add.assoc)
  with d show ?thesis by blast
qed

lemma chunksize_run: "mem s (size_of p) = Some v \<Longrightarrow> chunksize p s = ret (v AND NOT 3, s)"
  by (simp add: chunksize_def sb_def)

definition channel_mapped :: "mon \<Rightarrow> bool" where
  "channel_mapped s \<longleftrightarrow> (\<forall>a. in_channel a \<longrightarrow> mem s a \<noteq> None)"

text \<open>
  The environment in which a new unit at the break \<open>b\<close> is obtained without any failure:
  the channel is mapped and has room, the kernel moves the break as asked, and libc
  returns new blocks, \<open>u\<close> for the descriptor and two for the list nodes.
\<close>

definition fresh_unit_env :: "mon \<Rightarrow> pid \<Rightarrow> addr \<Rightarrow> addr \<Rightarrow> addr \<Rightarrow> bool" where
  "fresh_unit_env s pid av b u \<longleftrightarrow>
     (\<exists>ms xs ys. mstates s av = Some ms \<and> \<not> have_fastchunks ms \<and>
        ll_rep (ms_ustate_list ms) xs \<and> ll_rep (ustate_list s) ys \<and>
        libc_ptrs s (Suc (libc_calls s)) \<notin> fst ` set xs \<and>
        libc_ptrs s (Suc (Suc (libc_calls s))) \<notin> fst ` set ys) \<and>
     ab_curbrk s = b \<and> unat b mod 8 = 0 \<and> 0x80000000 \<le> unat b \<and> unat b + 40960 \<le> 0xA0000000 \<and>
     sys_ret s (sys_trace s) (Absys_brk pid (b + UNIT_SIZE)) = b + UNIT_SIZE \<and>
     channel_mapped s \<and>
     libc_ptrs s (libc_calls s) = u \<and> u \<noteq> 0 \<and>
     libc_ptrs s (Suc (libc_calls s)) \<noteq> 0 \<and> libc_ptrs s (Suc (Suc (libc_calls s))) \<noteq> 0"

lemma unit_word:
  assumes "channel_mapped s" "unat b mod 8 = 0" "0x80000000 \<le> unat b" "unat b + 40960 \<le> 0xA0000000"
    "unat n < 40960" "unat n mod 4 = 0"
  shows "mem s (b + n) \<noteq> None"
proof -
  have u: "unat (b + n) = unat b + unat n" using assms by (simp add: unat_add_le)
  have "unat ((b + n) AND 3) = 0"
    unfolding unat_and_low u using assms(2,6) by presburger
  then have "in_channel (b + n)" using assms u
    by (simp add: in_channel_def CHANNEL_ADDR_def CHANNEL_SIZE_def word_le_nat_alt word_less_nat_alt unat_eq_0)
  then show ?thesis using assms(1) by (simp add: channel_mapped_def)
qed

lemma sbrk_env:
  assumes env: "fresh_unit_env s pid av b u"
  shows "ablib_sbrk pid UNIT_SIZE s = ret (b, s\<lparr>sys_trace := sys_trace s @ [Absys_brk pid (b + UNIT_SIZE)],
    ab_curbrk := b + UNIT_SIZE\<rparr>)"
proof -
  have b: "ab_curbrk s = b" "0x80000000 \<le> unat b" "unat b + 40960 \<le> 0xA0000000"
    "sys_ret s (sys_trace s) (Absys_brk pid (b + UNIT_SIZE)) = b + UNIT_SIZE"
    using env by (auto simp: fresh_unit_env_def)
  have "0 <s UNIT_SIZE" by code_simp
  moreover have "b \<noteq> 0" "\<not> b + UNIT_SIZE < b" "UNIT_SIZE \<noteq> 0"
    using b(2,3) by (auto simp: word_less_nat_alt unat_add_le UNIT_SIZE_def)
  ultimately show ?thesis using b by (simp add: ablib_sbrk_def sb_def ablib_brk_app Let_def)
qed

text \<open>The unit \<open>u\<close> at \<open>b\<close> is registered for the allocator state \<open>av\<close>, with top chunk \<open>tp\<close>.\<close>

definition unit_added :: "mon \<Rightarrow> mon \<Rightarrow> addr \<Rightarrow> addr \<Rightarrow> addr \<Rightarrow> addr \<Rightarrow> bool" where
  "unit_added s t av b u tp \<longleftrightarrow>
     (\<exists>ms es. mstates t av = Some ms \<and> ll_data (ms_ustate_list ms) (u # es)) \<and>
     (\<exists>ds. ll_data (ustate_list t) (u # ds)) \<and>
     units t = (units s)(u \<mapsto> \<lparr>us_unit_top = tp, us_addr = b, us_length = UNIT_SIZE, us_unit_av = av\<rparr>) \<and>
     ab_curbrk t = b + UNIT_SIZE"

lemma new_unit_env:
  assumes env: "fresh_unit_env s pid av b u"
  defines "s1 \<equiv> s\<lparr>sys_trace := sys_trace s @ [Absys_brk pid (b + UNIT_SIZE)], ab_curbrk := b + UNIT_SIZE\<rparr>"
  shows "\<exists>t. new_unit av b s1 = ret (u, t) \<and> unit_added s t av b u b \<and>
    mem t = (mem s)(b + 4 \<mapsto> 40945, b + 40948 \<mapsto> 5, b + 40952 \<mapsto> 5) \<and>
    sys_trace t = sys_trace s1 \<and> clients t = clients s \<and> client_list t = client_list s"
proof -
  from env obtain ms xs ys where e: "mstates s av = Some ms" "\<not> have_fastchunks ms"
    "ll_rep (ms_ustate_list ms) xs" "ll_rep (ustate_list s) ys"
    "libc_ptrs s (Suc (libc_calls s)) \<notin> fst ` set xs" "libc_ptrs s (Suc (Suc (libc_calls s))) \<notin> fst ` set ys"
    by (auto simp: fresh_unit_env_def)
  from env have f: "unat b mod 8 = 0" "0x80000000 \<le> unat b" "unat b + 40960 \<le> 0xA0000000"
    "channel_mapped s" "libc_ptrs s (libc_calls s) = u" "u \<noteq> 0"
    "libc_ptrs s (Suc (libc_calls s)) \<noteq> 0" "libc_ptrs s (Suc (Suc (libc_calls s))) \<noteq> 0"
    by (auto simp: fresh_unit_env_def)
  note uw = unit_word [OF f(4,1,2,3)]
  have al: "aligned_OK (chunk2mem b)"
    using f(1-3) by (simp add: aligned_OK_iff chunk2mem_def unat_add_le)
  have "\<exists>l1 l2. ll_data l1 (u # map snd xs) \<and> ll_data l2 (u # map snd ys) \<and>
    new_unit av b s1 = ret (u, s1
      \<lparr>libc_calls := libc_calls s1 + 3,
       units := (units s1)(u \<mapsto> \<lparr>us_unit_top = b, us_addr = b, us_length = UNIT_SIZE, us_unit_av = av\<rparr>),
       mstates := (mstates s1)(av \<mapsto> update_sbrk_stats
         (ms\<lparr>ms_sbrked_mem := ms_sbrked_mem ms + UNIT_SIZE, ms_ustate_list := l1\<rparr>)),
       ustate_list := l2,
       mem := (mem s1)(b + 4 \<mapsto> 40945, b + 40948 \<mapsto> 5, b + 40952 \<mapsto> 5)\<rparr>)"
    by (rule new_unit_run) (use e f al uw in \<open>simp_all add: s1_def\<close>)
  moreover have "ms_ustate_list (update_sbrk_stats ms') = ms_ustate_list ms'" for ms'
    by (simp add: update_sbrk_stats_def Let_def)
  ultimately show ?thesis by (fastforce simp: unit_added_def s1_def)
qed

lemma alloc_unit_run:
  assumes env: "fresh_unit_env s pid av b u"
  defines "s1 \<equiv> s\<lparr>sys_trace := sys_trace s @ [Absys_brk pid (b + UNIT_SIZE)], ab_curbrk := b + UNIT_SIZE\<rparr>"
  assumes new: "new_unit av b s1 = ret (u, t)" and m: "mem t (b + 4) = Some 40945"
  shows "alloc_unit pid nb av L s =
    (if nb + MINSIZE \<le> 40944
     then sb (upd_us u (\<lambda>x. x\<lparr>us_unit_top := b + nb\<rparr>)) (\<lambda>_.
          sb (set_head b (nb OR PREV_INUSE)) (\<lambda>_.
          sb (set_head (b + nb) ((40944 - nb) OR PREV_INUSE)) (\<lambda>_.
          sb (set_foot (b + nb) (40944 - nb)) (\<lambda>_.
          sb (prot_update pid b 40944 L) (\<lambda>_. sret (chunk2mem b)))))) t
     else ret (0, t))"
proof -
  from env obtain ms where e: "mstates s av = Some ms" "\<not> have_fastchunks ms"
    by (auto simp: fresh_unit_env_def)
  have "unat b \<le> 0xA0000000" using env by (auto simp: fresh_unit_env_def)
  then have "b \<le> 0xA0000000" by (simp add: word_le_nat_alt)
  moreover have "\<not> MORECORE_FAILURE \<le> 0xA0000000" by code_simp
  ultimately have "b \<noteq> MORECORE_FAILURE" by blast
  note e = e this
  have "chunksize b t = ret (40944, t)"
    using m by (simp add: chunksize_run size_of_def)
  then show ?thesis
    using e sbrk_env [OF env] new [unfolded s1_def]
    by (simp add: alloc_unit_def sb_ret [where m = "get_ms av"] sb_ret [where m = "ablib_sbrk pid UNIT_SIZE"]
        sb_ret [where m = "new_unit av b"] sb_ret [where m = "chunksize b"] chunk_at_offset_def Let_def)
qed

lemma alloc_unit_served:
  assumes env: "fresh_unit_env s pid av b u"
    and nb: "16 \<le> unat nb" "unat nb \<le> 40928" "unat nb mod 8 = 0"
    and cl: "ll_data (client_list s) ds" "map (clients s) ds = map Some cs"
  shows "\<exists>t. alloc_unit pid nb av L s = ret (chunk2mem b, t) \<and> unit_added s t av b u (b + nb) \<and>
    mem t = (mem s)(b + 4 \<mapsto> nb OR PREV_INUSE, b + 40948 \<mapsto> 5, b + 40952 \<mapsto> 5,
      b + nb + 4 \<mapsto> (40944 - nb) OR PREV_INUSE, b + 40944 \<mapsto> 40944 - nb) \<and>
    sys_trace t = sys_trace s @ Absys_brk pid (b + UNIT_SIZE) # prot_calls pid b 40944 L cs"
proof -
  from new_unit_env [OF env] obtain t where t:
    "new_unit av b (s\<lparr>sys_trace := sys_trace s @ [Absys_brk pid (b + UNIT_SIZE)], ab_curbrk := b + UNIT_SIZE\<rparr>) = ret (u, t)"
    "unit_added s t av b u b" "mem t = (mem s)(b + 4 \<mapsto> 40945, b + 40948 \<mapsto> 5, b + 40952 \<mapsto> 5)"
    "sys_trace t = sys_trace s @ [Absys_brk pid (b + UNIT_SIZE)]" "clients t = clients s"
    "client_list t = client_list s" by auto
  from env have f: "unat b mod 8 = 0" "0x80000000 \<le> unat b" "unat b + 40960 \<le> 0xA0000000" "channel_mapped s"
    by (auto simp: fresh_unit_env_def)
  note uw = unit_word [OF f(4,1,2,3)]
  have w: "mem s (b + (nb + 4)) \<noteq> None" "mem s (b + 40944) \<noteq> None"
  proof -
    have "unat (nb + 4) = unat nb + 4" using nb by (simp add: unat_add_le)
    then show "mem s (b + (nb + 4)) \<noteq> None" using nb by (intro uw) (simp_all, presburger)
    show "mem s (b + 40944) \<noteq> None" by (rule uw) simp_all
  qed
  let ?t = "t\<lparr>units := (units t)(u \<mapsto> \<lparr>us_unit_top = b + nb, us_addr = b, us_length = UNIT_SIZE, us_unit_av = av\<rparr>),
    mem := (mem t)(b + 4 \<mapsto> nb OR PREV_INUSE, b + nb + 4 \<mapsto> (40944 - nb) OR PREV_INUSE, b + 40944 \<mapsto> 40944 - nb)\<rparr>"
  have small: "nb + MINSIZE \<le> 40944"
    using nb by (simp add: word_le_nat_alt unat_add_le)
  have ne: "nb + 4 \<noteq> 4" "nb + 4 \<noteq> 40948" "nb + 4 \<noteq> 40952" "nb + 4 \<noteq> 40944"
    using nb by (auto simp: word_unat_eq_iff unat_add_le)
  obtain v1 v2 where v: "mem s (b + (nb + 4)) = Some v1" "mem s (b + 40944) = Some v2" using w by auto
  have pu: "prot_update pid b 40944 L ?t = ret ((), ?t\<lparr>sys_trace := sys_trace ?t @ prot_calls pid b 40944 L cs\<rparr>)"
    by (rule prot_update_calls [of _ ds]) (use cl t(5,6) in simp_all)
  have "alloc_unit pid nb av L s = ret (chunk2mem b, ?t\<lparr>sys_trace := sys_trace ?t @ prot_calls pid b 40944 L cs\<rparr>)"
    unfolding alloc_unit_run [OF env t(1), of nb L, unfolded t(3), simplified]
    using small t(2,3) pu v ne
    by (simp add: sb_def set_head_def set_foot_def size_of_def prev_size_of_def unit_added_def add.assoc)
  moreover have "mem ?t = (mem s)(b + 4 \<mapsto> nb OR PREV_INUSE, b + 40948 \<mapsto> 5, b + 40952 \<mapsto> 5,
      b + nb + 4 \<mapsto> (40944 - nb) OR PREV_INUSE, b + 40944 \<mapsto> 40944 - nb)"
    using ne by (simp add: t(3) fun_upd_twist add.assoc)
  moreover have "unit_added s (?t\<lparr>sys_trace := sys_trace ?t @ prot_calls pid b 40944 L cs\<rparr>) av b u (b + nb)"
    using t(2) by (simp add: unit_added_def)
  ultimately show ?thesis using t(4) by auto
qed

text \<open>
  Property C21.  When the system grants a new unit, \<^verbatim>\<open>__malloc_alloc\<close> serves any request of
  up to 40928 padded bytes from its start: the chunk, the remainder as the new top
  and two fenceposts tile the unit, the unit is registered with the allocator state
  and in the list of all units, and every other client receives the protection its
  labels allow on the unit.
\<close>

theorem alloc_unit_serves:
  assumes env: "fresh_unit_env s pid av b u"
    and nb: "16 \<le> unat nb" "unat nb \<le> 40928" "unat nb mod 8 = 0"
    and cl: "ll_data (client_list s) ds" "map (clients s) ds = map Some cs"
  shows "\<exists>t. alloc_unit pid nb av L s = ret (chunk2mem b, t) \<and> unit_added s t av b u (b + nb) \<and>
    mem t = (mem s)(b + 4 \<mapsto> nb OR PREV_INUSE, b + 40948 \<mapsto> 5, b + 40952 \<mapsto> 5,
      b + nb + 4 \<mapsto> (40944 - nb) OR PREV_INUSE, b + 40944 \<mapsto> 40944 - nb) \<and>
    sys_trace t = sys_trace s @ Absys_brk pid (b + UNIT_SIZE) # prot_calls pid b 40944 L cs"
  by (rule alloc_unit_served [OF assms])

text \<open>
  A request padded to more than 40928 but less than 40960 bytes, too large
  for a unit and too small for a mapping of its own, fails although a unit was just
  obtained: the whole unit stays behind as an unused top, and no client's protection on
  it is set.
\<close>

lemma alloc_unit_gap:
  assumes env: "fresh_unit_env s pid av b u" and nb: "40928 < unat nb" "unat nb < 40960"
  shows "\<exists>t. alloc_unit pid nb av L s = ret (0, t) \<and> unit_added s t av b u b \<and>
    sys_trace t = sys_trace s @ [Absys_brk pid (b + UNIT_SIZE)]"
proof -
  from new_unit_env [OF env] obtain t where t:
    "new_unit av b (s\<lparr>sys_trace := sys_trace s @ [Absys_brk pid (b + UNIT_SIZE)], ab_curbrk := b + UNIT_SIZE\<rparr>) = ret (u, t)"
    "unit_added s t av b u b" "mem t = (mem s)(b + 4 \<mapsto> 40945, b + 40948 \<mapsto> 5, b + 40952 \<mapsto> 5)"
    "sys_trace t = sys_trace s @ [Absys_brk pid (b + UNIT_SIZE)]" by auto
  have "\<not> nb + MINSIZE \<le> 40944" using nb by (simp add: word_le_nat_alt unat_add_le)
  then have "alloc_unit pid nb av L s = ret (0, t)"
    using alloc_unit_run [OF env t(1)] t(3) by simp
  with t(2,4) show ?thesis by blast
qed

definition fresh_example :: mon where
  "fresh_example = units_example
     \<lparr>mem := (\<lambda>a. if in_channel a then Some 0 else None), ustate_list := empty_list,
      units := Map.empty, ab_curbrk := 0x80000000\<rparr>"

lemma ll_rep_empty [simp]: "ll_rep empty_list []"
  by (simp add: ll_rep_def empty_list_def)

lemma fresh_example_env: "fresh_unit_env fresh_example 7 0x500 0x80000000 0x9000"
proof -
  have "\<not> have_fastchunks mstate_example" by code_simp
  moreover have "ms_ustate_list mstate_example = empty_list" by (simp add: mstate_example_def)
  ultimately show ?thesis
    by (simp add: fresh_unit_env_def fresh_example_def units_example_def boot_def channel_mapped_def UNIT_SIZE_def)
      (use ll_rep_empty in \<open>intro conjI exI [of _ "[]"]; simp\<close>)
qed

theorem alloc_unit_serves_witness:
  "\<exists>t. alloc_unit 7 64 0x500 [5, 0, 0, 0, 0, 0, 0, 0] fresh_example = ret (0x80000008, t) \<and>
     unit_added fresh_example t 0x500 0x80000000 0x9000 0x80000040"
  using alloc_unit_serves [OF fresh_example_env, of 64 "[0x200]" "[client_example]" "[5, 0, 0, 0, 0, 0, 0, 0]"]
  by (auto simp: fresh_example_def units_example_def chunk2mem_def)

section \<open>Calls that never return\<close>

lemma lookup_mstate_cong:
  assumes "mstate_list t = mstate_list s"
    "\<And>a. map_option ms_label (mstates t a) = map_option ms_label (mstates s a)"
    "lookup_mstate_by_label L s = ret (av, s')"
  shows "lookup_mstate_by_label L t = ret (av, t)"
proof -
  have "cmp_mstate t L d = cmp_mstate s L d" for d
    using assms(2) [of d] by (cases "mstates t d"; cases "mstates s d") (simp_all add: cmp_mstate_def deref_def)
  then have "cmp_mstate t L = cmp_mstate s L" by (rule ext)
  then show ?thesis using assms(1,3) by (auto simp: lookup_mstate_by_label_def bnd_eq_ret)
qed


text \<open>
  Property C35.  A request too large to pad returns \<^verbatim>\<open>NULL\<close> with the allocator's lock still
  held, and from then on every \<^verbatim>\<open>ablib_free\<close> of a pointer and every \<^verbatim>\<open>ablib_malloc\<close> of a
  non-empty block stops at the lock for ever, whoever asks and whatever the label.
\<close>

theorem oversized_request_wedges:
  assumes "\<not> malloc_lock s" "lookup_mstate_by_label L s = ret (av, s)" "av \<noteq> 0"
    "REQUEST_OUT_OF_RANGE bytes" "bytes \<noteq> 0"
  shows "\<exists>t. ablib_malloc pid bytes L s = ret (0, t) \<and>
    (\<forall>pid' m. m \<noteq> 0 \<longrightarrow> ablib_free pid' m t = fail Deadlock) \<and>
    (\<forall>pid' n L' av' s'. n \<noteq> 0 \<longrightarrow> lookup_mstate_by_label L' s = ret (av', s') \<longrightarrow>
       ablib_malloc pid' n L' t = fail Deadlock)"
proof -
  let ?t = "s\<lparr>malloc_lock := True\<rparr>"
  have "ablib_malloc pid bytes L s = ret (0, ?t)"
    using assms by (simp add: ablib_malloc_unfold ablib_malloc_body_def sb_def)
  moreover have "\<forall>pid' m. m \<noteq> 0 \<longrightarrow> ablib_free pid' m ?t = fail Deadlock" by (simp add: free_locked)
  moreover have "\<forall>pid' n L' av' s'. n \<noteq> 0 \<longrightarrow> lookup_mstate_by_label L' s = ret (av', s') \<longrightarrow>
      ablib_malloc pid' n L' ?t = fail Deadlock"
    by (auto intro!: malloc_locked)
  ultimately show ?thesis by blast
qed

definition one_mstate :: mon where
  "one_mstate = (boot (\<lambda>_. 0) (\<lambda>_ _. 0))
     \<lparr>mstates := [0x500 \<mapsto> mstate_example], mstate_list := single_list 0x600 0x500\<rparr>"

lemma one_mstate_lookup: "lookup_mstate_by_label [5, 0, 0, 0, 0, 0, 0, 0] one_mstate = ret (0x500, one_mstate)"
  by (simp add: lookup_mstate_by_label_def linked_list_lookup_def lookup_loop.simps cmp_mstate_def
      one_mstate_def single_list_def mstate_example_def)

theorem oversized_request_wedges_witness:
  "\<exists>t. ablib_malloc 7 0xFFFFFFF0 [5, 0, 0, 0, 0, 0, 0, 0] one_mstate = ret (0, t) \<and>
     ablib_free 8 0x80000008 t = fail Deadlock"
proof -
  have "REQUEST_OUT_OF_RANGE 0xFFFFFFF0" by code_simp
  then show ?thesis
    using oversized_request_wedges [OF _ one_mstate_lookup, of "0xFFFFFFF0" 7]
    by (fastforce simp: one_mstate_def boot_def)
qed

text \<open>
  A small request that finds no free chunk while the fast bins hold some makes
  \<^verbatim>\<open>__malloc_alloc\<close> consolidate them and call \<^verbatim>\<open>ablib_malloc\<close> again under the lock it
  already holds: the call never returns.
\<close>

theorem retry_deadlocks:
  assumes "malloc_lock s" "mstates s av = Some ms" "have_fastchunks ms"
    "in_smallbin_range nb" "nb \<noteq> 7"
    "malloc_consolidate av s = ret ((), t)" "lookup_mstate_by_label L t = ret (av', t)"
  shows "malloc_alloc (\<lambda>b. ablib_malloc pid b L) pid nb av L s = fail Deadlock"
proof -
  have "malloc_lock t" using assms(1,6) keepsD [OF lk.keeps_malloc_consolidate] by (fastforce simp: same_lock_def)
  then have "ablib_malloc pid (nb - 7) L t = fail Deadlock"
    using assms(5,7) by (intro malloc_locked) simp_all
  then show ?thesis using assms by (simp add: malloc_alloc_def sb_def)
qed

lemma consolidate_bins_empty:
  "mstates s av = Some ms \<Longrightarrow> \<forall>i\<in>set is. unat i < length (ms_fastbins ms) \<and> ms_fastbins ms ! unat i = 0 \<Longrightarrow>
   consolidate_bins av is s = ret ((), s)"
  by (induction "is") (simp_all add: fastbin_get_def sb_def)

theorem retry_deadlocks_witness:
  "malloc_alloc (\<lambda>b. ablib_malloc 7 b [5, 0, 0, 0, 0, 0, 0, 0]) 7 16 0x500 [5, 0, 0, 0, 0, 0, 0, 0]
     (one_mstate\<lparr>malloc_lock := True, mstates := [0x500 \<mapsto> set_fastchunks mstate_example]\<rparr>) = fail Deadlock"
proof -
  let ?s = "one_mstate\<lparr>malloc_lock := True, mstates := [0x500 \<mapsto> set_fastchunks mstate_example]\<rparr>"
  let ?t = "one_mstate\<lparr>malloc_lock := True, mstates := [0x500 \<mapsto> clear_fastchunks (set_fastchunks mstate_example)]\<rparr>"
  have f: "ms_max_fast (set_fastchunks mstate_example) = 75" "ms_fastbins (set_fastchunks mstate_example) = replicate 10 0"
    by (simp_all add: set_fastchunks_def mstate_example_def FASTCHUNKS_BIT_def ANYCHUNKS_BIT_def)
  have i: "fastbin_index 75 = 7" by code_simp
  have u: "unat (of_nat n :: word32) = n" if "n < 8" for n
    using that by (simp add: unat_of_nat)
  have "consolidate_bins 0x500 (map of_nat [0..<8]) ?t = ret ((), ?t)"
    by (rule consolidate_bins_empty) (auto simp: clear_fastchunks_def f u simp del: upt_Suc)
  then have "malloc_consolidate 0x500 ?s = ret ((), ?t)"
    by (simp add: malloc_consolidate_def f i sb_def del: upt_Suc)
  moreover have "lookup_mstate_by_label [5, 0, 0, 0, 0, 0, 0, 0] ?t = ret (0x500, ?t)"
    by (rule lookup_mstate_cong [OF _ _ one_mstate_lookup])
      (simp_all add: one_mstate_def clear_fastchunks_def set_fastchunks_def)
  moreover have "have_fastchunks (set_fastchunks mstate_example)" "in_smallbin_range 16" by code_simp+
  ultimately show ?thesis by (intro retry_deadlocks [of _ _ "set_fastchunks mstate_example" _ ?t]) simp_all
qed

end
