(* ===== verification/Heap_Reuse.thy ===== *)
theory Heap_Reuse
  imports Malloc_Correct
begin

text \<open>
  Reuse of memory inside a unit: the end of a unit's top chunk, the fast bins, and the
  clearing done by \<^verbatim>\<open>ablib_calloc\<close>.
\<close>

section \<open>The last bytes of a unit\<close>

text \<open>
  Taking all but 8 bytes of a unit's top gives the caller the whole top chunk, but
  moves the unit's top pointer only past the requested part: the top then lies inside the
  block just handed out, and its size field is the last word of the caller's data.
\<close>

theorem top_exhaust_overlaps:
  assumes u: "units s unit = Some u" "us_unit_top u = victim"
    and sz: "mem s (size_of victim) = Some (sz OR PREV_INUSE)" "unat sz mod 8 = 0" "unat nb + 8 = unat sz" "16 \<le> unat nb"
    and fits: "unat victim + unat sz + 8 < 2 ^ 32"
    and fence: "mem s (size_of (victim + sz)) \<noteq> None"
  shows "\<exists>t u'. take_from_top unit nb victim sz s = ret (chunk2mem victim, t) \<and>
    mem t (size_of victim) = Some (sz OR PREV_INUSE) \<and> units t unit = Some u' \<and>
    unat victim < unat (us_unit_top u') \<and> unat (us_unit_top u') + 8 = unat victim + unat sz \<and>
    unat (size_of (us_unit_top u')) + 4 = unat victim + unat sz"
proof -
  have nb: "nb = sz - 8" using sz(3) by (simp add: word_unat_eq_iff unat_sub word_le_nat_alt)
  obtain w where w: "mem s (size_of (victim + sz)) = Some w" using fence by auto
  have ne: "size_of (victim + sz) \<noteq> size_of victim"
    using sz(3,4) by (auto simp: size_of_def)
  let ?t = "s\<lparr>units := (units s)(unit \<mapsto> u\<lparr>us_unit_top := victim + nb\<rparr>),
    mem := (mem s)(size_of (victim + sz) \<mapsto> w OR PREV_INUSE)\<rparr>"
  have "take_from_top unit nb victim sz s = ret (chunk2mem victim, ?t)"
    using u w nb by (simp add: take_from_top_def chunk_at_offset_def set_inuse_bit_at_offset_def sb_def Let_def)
  moreover have "unat (victim + nb) = unat victim + unat nb" "unat (victim + nb + 4) = unat victim + unat nb + 4"
    using fits sz(3) by (simp_all add: unat_add_le add.assoc)
  ultimately show ?thesis using ne sz by (intro exI [of _ ?t]) (auto simp: size_of_def)
qed

theorem top_exhaust_overlaps_witness:
  "\<exists>t u'. take_from_top 0x400 56 0x80000000 64 (units_example\<lparr>mem := [0x80000004 \<mapsto> 65, 0x80000044 \<mapsto> 5]\<rparr>) =
       ret (0x80000008, t) \<and> units t 0x400 = Some u' \<and> us_unit_top u' = 0x80000038"
proof -
  have "unat (us_unit_top u') = 0x80000038 \<Longrightarrow> us_unit_top u' = 0x80000038" for u'
    by (simp add: word_unat_eq_iff)
  then show ?thesis
    using top_exhaust_overlaps [of "units_example\<lparr>mem := [0x80000004 \<mapsto> 65, 0x80000044 \<mapsto> 5]\<rparr>" "0x400"
        unit_example "0x80000000" 64 56]
    by (fastforce simp: units_example_def unit_example_def size_of_def chunk2mem_def)
qed

section \<open>Fast bins\<close>

lemma set_fastchunks_any: "have_anychunks ((set_fastchunks ms)\<lparr>ms_fastbins := fb\<rparr>)"
proof -
  have "bit ((ms_max_fast ms OR (3 :: word32)) AND 1) 0" by (simp add: bit_simps)
  then have "(ms_max_fast ms OR (3 :: word32)) AND 1 \<noteq> 0" by (metis bit_0_eq bot_apply bot_bool_def)
  then show ?thesis by (simp add: have_anychunks_def set_fastchunks_def FASTCHUNKS_BIT_def ANYCHUNKS_BIT_def)
qed

lemma malloc_from_fastbin:
  assumes "\<not> malloc_lock s" "lookup_mstate_by_label L s = ret (av, s)" "av \<noteq> 0"
    "\<not> REQUEST_OUT_OF_RANGE bytes" "bytes \<noteq> 0" "mstates s av = Some ms" "have_anychunks ms"
    "request2size bytes \<le> ms_max_fast ms"
    "unat (fastbin_index (request2size bytes)) < length (ms_fastbins ms)"
    "ms_fastbins ms ! unat (fastbin_index (request2size bytes)) = p" "p \<noteq> 0" "mem s (fd_of p) = Some q"
  shows "ablib_malloc pid bytes L s = ret (chunk2mem p, s\<lparr>mstates := (mstates s)
    (av \<mapsto> ms\<lparr>ms_fastbins := (ms_fastbins ms)[unat (fastbin_index (request2size bytes)) := q]\<rparr>)\<rparr>)"
  using assms
  by (simp add: ablib_malloc_unfold ablib_malloc_body_def malloc_request_def malloc_search_def
      malloc_fastbin_def fastbin_get_def fastbin_set_def sb_def)

text \<open>
  Property C28.  The fast bins are last-in first-out: a block freed into them is what the next
  request of the same padded size and label gets, and the pair of calls changes neither
  the units nor the bins, only the block's link word and the flags that chunks were freed.
\<close>

theorem free_malloc_fastbin:
  assumes s: "\<not> malloc_lock s" "lookup_ustate_by_mem m (s\<lparr>malloc_lock := True\<rparr>) = ret (unit, s\<lparr>malloc_lock := True\<rparr>)"
      "units s unit = Some u" "us_unit_av u = av" "av \<noteq> 0" "mstates s av = Some ms"
      "lookup_mstate_by_label L s = ret (av, s)"
    and m: "m \<noteq> 0" "m \<noteq> 8" "mem s (size_of (mem2chunk m)) = Some v" "v AND NOT 3 = request2size bytes" "mem s m \<noteq> None"
    and nb: "\<not> REQUEST_OUT_OF_RANGE bytes" "bytes \<noteq> 0" "request2size bytes \<le> ms_max_fast ms"
      "unat (fastbin_index (request2size bytes)) < length (ms_fastbins ms)"
  shows "\<exists>t w. ablib_free pid m s = ret ((), t) \<and>
    ablib_malloc pid' bytes L t = ret (m, s\<lparr>mem := (mem s)(m \<mapsto> w), mstates := (mstates s)(av \<mapsto> set_fastchunks ms)\<rparr>)"
proof -
  let ?i = "unat (fastbin_index (request2size bytes))"
  let ?p = "mem2chunk m"
  let ?old = "ms_fastbins ms ! ?i"
  let ?ms = "(set_fastchunks ms)\<lparr>ms_fastbins := (ms_fastbins ms)[?i := ?p]\<rparr>"
  let ?t = "s\<lparr>mem := (mem s)(m \<mapsto> ?old), mstates := (mstates s)(av \<mapsto> ?ms)\<rparr>"
  have fd: "fd_of ?p = m" by (simp add: fd_of_def mem2chunk_def)
  obtain v0 where v0: "mem s m = Some v0" using m(5) by auto
  have sf [simp]: "ms_fastbins (set_fastchunks ms) = ms_fastbins ms" by (simp add: set_fastchunks_def)
  have "ablib_free pid m s = ret ((), ?t)"
    using s m nb v0 chunksize_run [of "s\<lparr>malloc_lock := True\<rparr>" ?p v]
    by (simp add: ablib_free_def free_fast_def fastbin_get_def fastbin_set_def sb_def fd Let_def)
  moreover have "lookup_mstate_by_label L ?t = ret (av, ?t)"
    by (rule lookup_mstate_cong [OF _ _ s(7)]) (auto simp: s set_fastchunks_def)
  then have "ablib_malloc pid' bytes L ?t = ret (chunk2mem ?p, ?t\<lparr>mstates := (mstates ?t)
    (av \<mapsto> ?ms\<lparr>ms_fastbins := (ms_fastbins ?ms)[?i := ?old]\<rparr>)\<rparr>)"
  proof (rule malloc_from_fastbin [rotated])
    show "have_anychunks ?ms" by (rule set_fastchunks_any)
  qed (use s m nb fd in \<open>auto simp: set_fastchunks_def mem2chunk_def intro: order_trans [OF _ le_word_or2]\<close>)
  moreover have "?t\<lparr>mstates := (mstates ?t)(av \<mapsto> ?ms\<lparr>ms_fastbins := (ms_fastbins ?ms)[?i := ?old]\<rparr>)\<rparr> =
      s\<lparr>mem := (mem s)(m \<mapsto> ?old), mstates := (mstates s)(av \<mapsto> set_fastchunks ms)\<rparr>"
    by (simp add: set_fastchunks_def)
  ultimately show ?thesis by (auto simp: chunk2mem_def mem2chunk_def)
qed

text \<open>A unit with one block of 24 bytes in use.\<close>

definition used_example :: mon where
  "used_example = units_example
     \<lparr>mem := (\<lambda>a. if a = 0x80000004 then Some 25 else if in_channel a then Some 0xAA else None),
      mstate_list := single_list 0x600 0x500\<rparr>"

lemma used_example_lookup:
  "lookup_mstate_by_label [5, 0, 0, 0, 0, 0, 0, 0] used_example = ret (0x500, used_example)"
  by (simp add: lookup_mstate_by_label_def linked_list_lookup_def lookup_loop.simps cmp_mstate_def
      used_example_def units_example_def single_list_def mstate_example_def)

lemma used_example_unit:
  "lookup_ustate_by_mem 0x80000008 (used_example\<lparr>malloc_lock := True\<rparr>) = ret (0x400, used_example\<lparr>malloc_lock := True\<rparr>)"
  by (subst lookup_ustate_find [of _ "[0x400]" "[unit_example]"])
    (simp_all add: used_example_def units_example_def in_unit_def unit_example_def)

lemma used_example_sizes:
  "request2size 20 = 24" "fastbin_index 24 = 1" "\<not> REQUEST_OUT_OF_RANGE 20" "in_channel 0x80000008"
  by code_simp+

theorem free_malloc_fastbin_witness:
  "\<exists>t w. ablib_free 7 0x80000008 used_example = ret ((), t) \<and>
     ablib_malloc 8 20 [5, 0, 0, 0, 0, 0, 0, 0] t = ret (0x80000008,
       used_example\<lparr>mem := (mem used_example)(0x80000008 \<mapsto> w), mstates := (mstates used_example)(0x500 \<mapsto> set_fastchunks mstate_example)\<rparr>)"
  by (rule free_malloc_fastbin [OF _ used_example_unit _ _ _ _ used_example_lookup, of unit_example mstate_example 25])
    (simp_all add: used_example_sizes, simp_all add: used_example_sizes used_example_def units_example_def
       boot_def unit_example_def mstate_example_def size_of_def mem2chunk_def)

section \<open>Calloc\<close>

lemma zero_words_run:
  "\<forall>k<n. mem s (d + 4 * of_nat k) \<noteq> None \<Longrightarrow> zero_words d n s =
     ret ((), s\<lparr>mem := (\<lambda>a. if \<exists>k<n. a = d + 4 * of_nat k then Some 0 else mem s a)\<rparr>)"
proof (induction n arbitrary: d s)
  case (Suc n)
  obtain v where v: "mem s d = Some v" using Suc.prems [rule_format, of 0] by auto
  let ?s = "s\<lparr>mem := (mem s)(d \<mapsto> 0)\<rparr>"
  have shift: "(d + 4) + 4 * of_nat k = d + 4 * of_nat (Suc k)" for k by (simp add: algebra_simps)
  have "zero_words (d + 4) n ?s = ret ((), ?s\<lparr>mem :=
      (\<lambda>a. if \<exists>k<n. a = (d + 4) + 4 * of_nat k then Some 0 else mem ?s a)\<rparr>)"
    by (rule Suc.IH) (use Suc.prems in \<open>auto simp only: shift; auto\<close>)
  moreover have "(\<exists>k<Suc n. a = d + 4 * of_nat k) \<longleftrightarrow> a = d \<or> (\<exists>k<n. a = (d + 4) + 4 * of_nat k)" for a
    unfolding shift by (auto simp: less_Suc_eq_0_disj)
  ultimately show ?case using v
    by (simp add: sb_def) (auto simp: fun_eq_iff intro!: arg_cong [where f = "\<lambda>m. s\<lparr>mem := m\<rparr>"])
qed (simp add: sret_def)

lemma unrolled_odd: "odd (unat n) \<Longrightarrow> 3 \<le> unat n \<Longrightarrow> unat n \<le> 9 \<Longrightarrow> unrolled n = unat n"
  unfolding unrolled_def word_less_nat_alt by (simp, presburger)

lemma clear_chunk_run:
  assumes v: "mem s (size_of (mem2chunk m)) = Some v" "unat (v AND NOT 3) = 8 * j" "2 \<le> j"
    and w: "\<forall>k<2 * j - 1. mem s (m + 4 * of_nat k) \<noteq> None"
  shows "clear_chunk m s = ret ((), s\<lparr>mem := (\<lambda>a. if \<exists>k<2 * j - 1. a = m + 4 * of_nat k then Some 0 else mem s a)\<rparr>)"
proof -
  define n where "n = ((v AND NOT 3) - 4) div 4"
  have "unat ((v AND NOT 3) - 4) = 8 * j - 4" using v(2,3) by (simp add: unat_sub word_le_nat_alt)
  then have n: "unat n = 2 * j - 1" by (simp add: n_def unat_div) 
  have c: "n \<ge> 3" "n > 9 \<longleftrightarrow> 2 * j - 1 > 9" using n v(3) by (simp_all add: word_le_nat_alt word_less_nat_alt)
  have u: "\<not> n > 9 \<Longrightarrow> unrolled n = 2 * j - 1"
    using unrolled_odd [of n] n v(3) c by simp
  have n': "((v AND - 4) - 4) div 4 = n" by (simp add: n_def)
  show ?thesis
    using c u zero_words_run [OF w] n chunksize_run [OF v(1)]
    by (simp add: clear_chunk_def sb_ret [of "chunksize (mem2chunk m)" s] Let_def n')
qed

text \<open>
  Property C29.  \<^verbatim>\<open>ablib_calloc\<close> refuses exactly the products that overflow 32 bits, without touching
  the state; otherwise it allocates the product and, when the block comes from a unit,
  clears every word the caller may use, including the unrolled cases, and no other word.
\<close>

theorem calloc_zeroes:
  "(2 ^ 32 \<le> unat n * unat e \<longrightarrow> ablib_calloc pid n e L s = ret (0, s)) \<and>
   (unat n * unat e < 2 ^ 32 \<and> ablib_malloc pid (n * e) L s = ret (m, t) \<and> m \<noteq> 0 \<and>
    mem t (size_of (mem2chunk m)) = Some v \<and> v AND IS_MMAPPED = 0 \<and> unat (v AND NOT 3) = 8 * j \<and> 2 \<le> j \<and>
    (\<forall>k<2 * j - 1. mem t (m + 4 * of_nat k) \<noteq> None) \<longrightarrow>
    ablib_calloc pid n e L s =
      ret (m, t\<lparr>mem := (\<lambda>a. if \<exists>k<2 * j - 1. a = m + 4 * of_nat k then Some 0 else mem t a)\<rparr>))"
proof (intro conjI impI; (elim conjE)?)
  have ov: "n \<noteq> 0 \<and> e \<noteq> n * e div n \<longleftrightarrow> 2 ^ 32 \<le> unat n * unat e"
  proof (cases "unat n * unat e < 2 ^ 32")
    case True
    then have "unat (n * e) = unat n * unat e" by (simp add: unat_word_ariths)
    then show ?thesis using True by (auto simp: word_unat_eq_iff unat_div)
  next
    case False
    then have n: "n \<noteq> 0" by auto
    have "unat (n * e div n) * unat n \<le> unat (n * e)" by (simp add: unat_div)
    moreover have "unat (n * e) < 2 ^ 32" using unat_lt [of "n * e"] by simp
    ultimately have "e \<noteq> n * e div n" using False by (metis le_less_trans mult.commute)
    then show ?thesis using n False by simp
  qed
  show "ablib_calloc pid n e L s = ret (0, s)" if "2 ^ 32 \<le> unat n * unat e"
    using ov that by (simp add: ablib_calloc_def Let_def)
  assume a: "unat n * unat e < 2 ^ 32" "ablib_malloc pid (n * e) L s = ret (m, t)" "m \<noteq> 0"
    "mem t (size_of (mem2chunk m)) = Some v" "v AND IS_MMAPPED = 0" "unat (v AND NOT 3) = 8 * j" "2 \<le> j"
    "\<forall>k<2 * j - 1. mem t (m + 4 * of_nat k) \<noteq> None"
  have "\<not> (n \<noteq> 0 \<and> e \<noteq> n * e div n)" using ov a(1) by simp
  then show "ablib_calloc pid n e L s =
     ret (m, t\<lparr>mem := (\<lambda>a. if \<exists>k<2 * j - 1. a = m + 4 * of_nat k then Some 0 else mem t a)\<rparr>)"
    using a clear_chunk_run [OF a(4,6,7,8)]
    by (simp add: ablib_calloc_def Let_def sb_ret [of "ablib_malloc pid (n * e) L" s] chunk_is_mmapped_def sb_def swhen_def)
qed


definition binned_example :: mon where
  "binned_example = used_example
     \<lparr>mstates := [0x500 \<mapsto> (set_fastchunks mstate_example)\<lparr>ms_fastbins := (replicate 10 0)[1 := 0x80000000]\<rparr>]\<rparr>"

theorem calloc_zeroes_witness:
  "ablib_calloc 7 0x10000 0x10000 [5, 0, 0, 0, 0, 0, 0, 0] binned_example = ret (0, binned_example) \<and>
   (\<exists>t. ablib_calloc 7 5 4 [5, 0, 0, 0, 0, 0, 0, 0] binned_example = ret (0x80000008, t) \<and>
     (\<forall>k<5. mem t (0x80000008 + 4 * of_nat k) = Some 0))"
proof -
  let ?ms = "(set_fastchunks mstate_example)\<lparr>ms_fastbins := (replicate 10 0)[1 := 0x80000000]\<rparr>"
  have l: "lookup_mstate_by_label [5, 0, 0, 0, 0, 0, 0, 0] binned_example = ret (0x500, binned_example)"
    by (rule lookup_mstate_cong [OF _ _ used_example_lookup])
      (auto simp: binned_example_def used_example_def units_example_def set_fastchunks_def)
  have "ablib_malloc 7 20 [5, 0, 0, 0, 0, 0, 0, 0] binned_example = ret (chunk2mem 0x80000000,
    binned_example\<lparr>mstates := (mstates binned_example)(0x500 \<mapsto> ?ms\<lparr>ms_fastbins := (ms_fastbins ?ms)[unat (fastbin_index (request2size 20)) := 0xAA]\<rparr>)\<rparr>)"
    by (rule malloc_from_fastbin [OF _ l])
      (simp_all add: used_example_sizes set_fastchunks_any, simp_all add: binned_example_def used_example_def
         units_example_def boot_def fd_of_def set_fastchunks_def used_example_sizes mstate_example_def
         FASTCHUNKS_BIT_def ANYCHUNKS_BIT_def)
  then obtain t where t: "ablib_malloc 7 (5 * 4) [5, 0, 0, 0, 0, 0, 0, 0] binned_example = ret (0x80000008, t)"
    "mem t = mem used_example" by (auto simp: chunk2mem_def binned_example_def)
  have w: "\<forall>k<5. mem t (0x80000008 + 4 * of_nat k) \<noteq> None"
  proof (intro allI impI)
    fix k :: nat assume "k < 5"
    then have "k \<in> {0, 1, 2, 3, 4}" by auto
    then show "mem t (0x80000008 + 4 * of_nat k) \<noteq> None"
      by (auto simp: t(2) used_example_def in_channel_def CHANNEL_ADDR_def CHANNEL_SIZE_def)
  qed
  then show ?thesis
    using calloc_zeroes [of "0x10000" "0x10000" 7 "[5, 0, 0, 0, 0, 0, 0, 0]" binned_example]
      calloc_zeroes [of 5 4 7 "[5, 0, 0, 0, 0, 0, 0, 0]" binned_example "0x80000008" t 25 3] t
    by (auto simp: used_example_def size_of_def mem2chunk_def)
qed

end
