(* ===== verification/Lib_Client.thy ===== *)
theory Lib_Client
  imports Protocol
begin

text \<open>
  The client library \<^verbatim>\<open>client_module/lib_client.c\<close>.  The socket layer is a parameter:
  \<open>net_send\<close> is what \<^verbatim>\<open>sendto\<close> returns for a datagram and \<open>net_recv\<close> the successive
  outcomes of \<^verbatim>\<open>recvfrom\<close> after it; a call whose outcomes are exhausted blocks forever.
  Pointers to label arrays are options (\<open>None\<close> is \<^verbatim>\<open>NULL\<close>); padding and other bytes a
  struct holds but the code does not set are arguments.
\<close>

section \<open>Transport\<close>

datatype recv_outcome =
    Received "byte list" "byte list"     \<comment> \<open>datagram, address of the sender\<close>
  | Interrupted                           \<comment> \<open>\<^verbatim>\<open>EINTR\<close>\<close>
  | Failed

record net =
  net_send :: "byte list \<Rightarrow> int"
  net_recv :: "byte list \<Rightarrow> recv_outcome list"

record abrpc_client_state =
  cs_pid :: pid
  cs_label :: label_t
  cs_ownership :: own_t
  cs_abt_path :: "byte list"

definition sun_path :: "byte list \<Rightarrow> byte list" where
  "sun_path str = str @ replicate (108 - length str) 0"

text \<open>\<^verbatim>\<open>init_client_ipc\<close> after its socket calls: the address it binds and the one it will send to.\<close>

definition init_client_ipc :: "abrpc_client_state \<Rightarrow> byte list \<times> abrpc_client_state" where
  "init_client_ipc cs =
     (le_bytes 2 AF_UNIX @ sun_path (client_path (cs_pid cs)),
      cs\<lparr>cs_abt_path := sun_path MONITOR_SOCKET\<rparr>)"

definition init_client_state ::
  "pid \<Rightarrow> label_t option \<Rightarrow> own_t option \<Rightarrow> byte list \<times> abrpc_client_state" where
  "init_client_state pid L O1 =
     init_client_ipc
       \<lparr>cs_pid = pid,
        cs_label = (case L of Some L \<Rightarrow> L | None \<Rightarrow> replicate 8 0),
        cs_ownership = (case O1 of Some O1 \<Rightarrow> O1 | None \<Rightarrow> replicate 8 0),
        cs_abt_path = []\<rparr>"

fun recv_loop :: "recv_outcome list \<Rightarrow> (byte list \<times> byte list) res" where
  "recv_loop [] = None"
| "recv_loop (Interrupted # rs) = recv_loop rs"
| "recv_loop (Failed # rs) = fail Assert_failed"
| "recv_loop (Received d a # rs) = ret (d, a)"

definition client_rpc :: "net \<Rightarrow> abrpc_client_state \<Rightarrow> byte list \<Rightarrow> abt_reply_header res" where
  "client_rpc w cs msg =
     bnd (guard Assert_failed (net_send w msg = int (length msg))) (\<lambda>_.
     bnd (recv_loop (net_recv w msg)) (\<lambda>(d, a).
     bnd (guard Assert_failed (min (length d) reply_size = reply_size)) (\<lambda>_.
     bnd (guard Assert_failed (GET_FAMILY a = AF_UNIX)) (\<lambda>_.
     bnd (strncmp_eq 108 (GET_PATH a) (cs_abt_path cs)) (\<lambda>same.
     bnd (guard Assert_failed same) (\<lambda>_.
     ret (reply_of_bytes d)))))))"

definition check_reply :: "abt_reply_header \<Rightarrow> unit res" where
  "check_reply rply =
     bnd (guard Assert_failed (rp_magic rply = ABT_RPC_MAGIC)) (\<lambda>_.
     guard Assert_failed (rp_msg_len rply = of_nat reply_size))"

text \<open>Send, wait for the reply, reject a malformed one.\<close>

definition exchange :: "net \<Rightarrow> abrpc_client_state \<Rightarrow> byte list \<Rightarrow> abt_reply_header res" where
  "exchange w cs msg =
     bnd (client_rpc w cs msg) (\<lambda>rply. bnd (check_reply rply) (\<lambda>_. ret rply))"

section \<open>Thread creation\<close>

text \<open>
  What a process does after \<^verbatim>\<open>fork\<close> returned \<open>pid\<close>: the parent (\<open>pid\<close> positive) has waited
  for the child to become special and registers it; the child (\<open>pid\<close> zero) sets up its
  own client state, which is the second result; a failed fork just returns.
\<close>

definition ab_fork ::
  "net \<Rightarrow> abrpc_client_state \<Rightarrow> pid \<Rightarrow> pid \<Rightarrow> label_t \<Rightarrow> own_t \<Rightarrow> (pid \<times> abrpc_client_state) res" where
  "ab_fork w cs self pid L O1 =
     (if pid <s 0 then ret (pid, cs)
      else if pid = 0 then ret (pid, snd (init_client_state self (Some L) (Some O1)))
      else bnd (exchange w cs (abreq_fork_bytes (u64_of_label L) (u64_of_label O1) pid)) (\<lambda>rply.
           if rp_return_val rply \<noteq> 0 then ret (- 1, cs) else ret (pid, cs)))"

definition ABTHREAD_STACK_SIZE :: word32 where
  "ABTHREAD_STACK_SIZE = 4 * 4096"

definition stack_alloc_size :: word32 where
  "stack_alloc_size = ABTHREAD_STACK_SIZE + 2 * 4096"

definition stack_high :: "addr \<Rightarrow> addr" where
  "stack_high stk = ((stk + stack_alloc_size) AND 0xfffff000) - 32"

definition gdpage_start :: "addr \<Rightarrow> addr" where
  "gdpage_start stk = ((stk + stack_alloc_size) AND 0xfffff000) - ABTHREAD_STACK_SIZE - 4096"

text \<open>The parent's side; the result is the return value and the value stored in \<^verbatim>\<open>*thread\<close>, if any.\<close>

definition ab_pthread_create ::
  "net \<Rightarrow> abrpc_client_state \<Rightarrow> addr \<Rightarrow> pid \<Rightarrow> label_t \<Rightarrow> own_t \<Rightarrow> (int \<times> pid option) res" where
  "ab_pthread_create w cs stk pid L O1 =
     bnd (guard Assert_failed (stk \<noteq> - 1)) (\<lambda>_.
     if pid <s 0 then ret (- 1, None)
     else bnd (exchange w cs (abreq_fork_bytes (u64_of_label L) (u64_of_label O1) pid)) (\<lambda>rply.
          if rp_return_val rply \<noteq> 0 then ret (- 1, Some pid) else ret (0, Some pid)))"

definition pre_start_routine ::
  "int \<Rightarrow> pid \<Rightarrow> label_t option \<Rightarrow> own_t option \<Rightarrow> (byte list \<times> abrpc_client_state) res" where
  "pre_start_routine mprotect_rc self L O1 =
     bnd (guard Assert_failed (mprotect_rc = 0)) (\<lambda>_. ret (init_client_state self L O1))"

text \<open>The child of this older variant runs the thread body and exits: it never returns.\<close>

definition ab_pthread_create_old ::
  "net \<Rightarrow> abrpc_client_state \<Rightarrow> pid \<Rightarrow> label_t \<Rightarrow> own_t \<Rightarrow> (int \<times> pid option) res" where
  "ab_pthread_create_old w cs pid L O1 =
     (if pid <s 0 then ret (- 1, None)
      else if pid = 0 then None
      else bnd (exchange w cs (abreq_fork_bytes (u64_of_label L) (u64_of_label O1) pid)) (\<lambda>rply.
           if rp_return_val rply \<noteq> 0 then ret (- 1, Some pid) else ret (0, Some pid)))"

definition ab_pthread_join :: "net \<Rightarrow> abrpc_client_state \<Rightarrow> pid \<Rightarrow> int res" where
  "ab_pthread_join w cs thread =
     bnd (exchange w cs (abreq_pthread_join_bytes thread)) (\<lambda>rply.
     ret (if rp_return_val rply = 0 then 0 else - 1))"

definition ab_pthread_self :: "pid \<Rightarrow> pid" where
  "ab_pthread_self pid = pid"

section \<open>Memory\<close>

definition ab_free :: "net \<Rightarrow> abrpc_client_state \<Rightarrow> addr \<Rightarrow> unit res" where
  "ab_free w cs ptr = bnd (exchange w cs (abreq_free_bytes ptr)) (\<lambda>_. ret ())"

definition ab_malloc :: "net \<Rightarrow> abrpc_client_state \<Rightarrow> word32 \<Rightarrow> label_t \<Rightarrow> addr res" where
  "ab_malloc w cs sz L =
     bnd (exchange w cs (abreq_malloc_bytes sz (u64_of_label L))) (\<lambda>rply. ret (rp_return_val rply))"

definition ab_calloc :: "net \<Rightarrow> abrpc_client_state \<Rightarrow> word32 \<Rightarrow> word32 \<Rightarrow> label_t \<Rightarrow> addr res" where
  "ab_calloc w cs nmemb sz L =
     bnd (exchange w cs (abreq_calloc_bytes nmemb sz (u64_of_label L))) (\<lambda>rply.
     ret (rp_return_val rply))"

definition ab_realloc :: "net \<Rightarrow> abrpc_client_state \<Rightarrow> addr \<Rightarrow> word32 \<Rightarrow> addr res" where
  "ab_realloc w cs ptr sz =
     bnd (exchange w cs (abreq_realloc_bytes ptr sz)) (\<lambda>rply. ret (rp_return_val rply))"

section \<open>Labels\<close>

text \<open>\<^verbatim>\<open>memcpy(&rval, &rply.return_val, sizeof(cat_t))\<close> takes the low byte.\<close>

definition create_category :: "net \<Rightarrow> abrpc_client_state \<Rightarrow> byte list \<Rightarrow> byte \<Rightarrow> cat_t res" where
  "create_category w cs pad t =
     bnd (exchange w cs (abreq_create_cat_bytes t pad)) (\<lambda>rply. ret (ucast (rp_return_val rply)))"

text \<open>The result is the new content of the caller's array.\<close>

definition get_label :: "net \<Rightarrow> abrpc_client_state \<Rightarrow> label_t option \<Rightarrow> label_t option res" where
  "get_label w cs L =
     (case L of None \<Rightarrow> ret None
      | Some _ \<Rightarrow> bnd (exchange w cs abreq_label_bytes) (\<lambda>rply.
                  ret (Some (label_of_u64 (rp_return_val_64 rply)))))"

definition get_ownership :: "net \<Rightarrow> abrpc_client_state \<Rightarrow> own_t option \<Rightarrow> own_t option res" where
  "get_ownership w cs O1 =
     (case O1 of None \<Rightarrow> ret None
      | Some _ \<Rightarrow> bnd (exchange w cs abreq_ownership_bytes) (\<lambda>rply.
                  ret (Some (label_of_u64 (rp_return_val_64 rply)))))"

definition get_mem_label ::
  "net \<Rightarrow> abrpc_client_state \<Rightarrow> addr \<Rightarrow> label_t option \<Rightarrow> label_t option res" where
  "get_mem_label w cs ptr L =
     (if ptr = 0 \<or> L = None then ret L
      else bnd (exchange w cs (abreq_mem_label_bytes ptr)) (\<lambda>rply.
           ret (Some (label_of_u64 (rp_return_val_64 rply)))))"

definition ab_RPC :: "net \<Rightarrow> abrpc_client_state \<Rightarrow> byte list \<Rightarrow> word32 res" where
  "ab_RPC w cs pad = bnd (exchange w cs (abreq_rpc_bytes pad)) (\<lambda>rply. ret (rp_return_val rply))"

end
