(* ===== verification/Kernel_VMA.thy ===== *)
theory Kernel_VMA
  imports AB_Prelude "HOL-Library.Tree"
begin

text \<open>
  Address spaces of the kernel (\<^verbatim>\<open>mm/mmap.c\<close>, \<^verbatim>\<open>mm/mprotect.c\<close>): VMAs, their lookup, and
  the splitting, merging and unmapping every \<^verbatim>\<open>absys\<close> call goes through.  An address
  space keeps its VMAs on a list sorted by address and in a red-black tree; the model
  keeps the list, and \<open>find_vma_rb\<close> and \<open>find_vma_prev_rb\<close> are the searches of the tree,
  shown below to agree with the list.  A VMA pointer is a position in the list, written
  as the VMAs before it and the VMAs from it on.

  What depends on the state of the machine is a field of \<open>kenv\<close>: whether the slab
  allocator has a VMA left, whether the commit limit and the resource limits allow more
  pages, what the security hooks answer, how many pages \<^verbatim>\<open>mlock\<close> leaves out, where the
  stock search for a free area lands, what huge-page mappings do, what a read of a freed
  VMA yields, which page frame the arbiter has at an address.  Memory policies are those of a kernel without
  NUMA (always equal); statistics are left out.  The page table is a function from page addresses
  to entries, 0 for no entry or no table, with the loops over the levels of the tables as one
  loop over the pages; this theory only clears entries, \<open>Kernel_Entries\<close> has the rest.
\<close>

section \<open>Constants\<close>

definition VM_READ :: word32 where "VM_READ = 0x1"
definition VM_WRITE :: word32 where "VM_WRITE = 0x2"
definition VM_EXEC :: word32 where "VM_EXEC = 0x4"
definition VM_SHARED :: word32 where "VM_SHARED = 0x8"
definition VM_MAYREAD :: word32 where "VM_MAYREAD = 0x10"
definition VM_MAYWRITE :: word32 where "VM_MAYWRITE = 0x20"
definition VM_MAYEXEC :: word32 where "VM_MAYEXEC = 0x40"
definition VM_MAYSHARE :: word32 where "VM_MAYSHARE = 0x80"
definition VM_GROWSDOWN :: word32 where "VM_GROWSDOWN = 0x100"
definition VM_GROWSUP :: word32 where "VM_GROWSUP = 0x200"
definition VM_DENYWRITE :: word32 where "VM_DENYWRITE = 0x800"
definition VM_EXECUTABLE :: word32 where "VM_EXECUTABLE = 0x1000"
definition VM_LOCKED :: word32 where "VM_LOCKED = 0x2000"
definition VM_ACCOUNT :: word32 where "VM_ACCOUNT = 0x100000"
definition VM_NORESERVE :: word32 where "VM_NORESERVE = 0x200000"
definition VM_HUGETLB :: word32 where "VM_HUGETLB = 0x400000"
definition VM_CAN_NONLINEAR :: word32 where "VM_CAN_NONLINEAR = 0x8000000"
definition VM_SAO :: word32 where "VM_SAO = 0x20000000"

definition VM_SPECIAL :: word32 where
  "VM_SPECIAL = 0x4000 OR 0x40000 OR 0x80000 OR 0x400"

definition VM_AB_CONTROL :: word32 where
  "VM_AB_CONTROL = VM_SAO"

definition EPERM :: word32 where "EPERM = 1"
definition EAGAIN :: word32 where "EAGAIN = 11"
definition ENOMEM :: word32 where "ENOMEM = 12"
definition EACCES :: word32 where "EACCES = 13"
definition EINVAL :: word32 where "EINVAL = 22"
definition EOVERFLOW :: word32 where "EOVERFLOW = 75"

text \<open>The 3G/1G split of i386.\<close>

definition TASK_SIZE :: addr where "TASK_SIZE = 0xC0000000"

definition PAGE_SIZE :: word32 where "PAGE_SIZE = 0x1000"
definition PAGE_MASK :: word32 where "PAGE_MASK = 0xFFFFF000"

definition PAGE_ALIGN :: "word32 \<Rightarrow> word32" where
  "PAGE_ALIGN x = (x + (PAGE_SIZE - 1)) AND PAGE_MASK"

definition pages :: "word32 \<Rightarrow> word32" where
  "pages len = drop_bit 12 len"

section \<open>VMAs and address spaces\<close>

type_synonym pte = word32
type_synonym ptab = "addr \<Rightarrow> pte"

record vma =
  vm_start :: addr
  vm_end :: addr
  vm_flags :: word32
  vm_pgoff :: word32
  vm_file :: addr
  anon_vma :: addr
  vm_close :: bool     \<comment> \<open>\<^verbatim>\<open>vm_ops && vm_ops->close\<close>\<close>

record mm =
  mm_mmap :: "vma list"
  mm_total_vm :: word32
  mm_locked_vm :: word32
  mm_def_flags :: word32
  mm_start_data :: addr
  mm_start_brk :: addr
  mm_start_ab_brk :: addr
  mm_ab_brk :: addr
  mm_pgd :: ptab

record kenv =
  ke_max_map_count :: nat
  ke_vma_alloc :: "vma list \<Rightarrow> bool"
  ke_enough_memory :: "word32 \<Rightarrow> bool"
  ke_rlim_as :: word32
  ke_rlim_memlock :: word32
  ke_cap_ipc_lock :: bool
  ke_huge_page_mask :: word32
  ke_file_mmap :: "word32 \<Rightarrow> word32 \<Rightarrow> word32 \<Rightarrow> addr \<Rightarrow> bool \<Rightarrow> word32"
  ke_file_mprotect :: "vma \<Rightarrow> word32 \<Rightarrow> word32 \<Rightarrow> word32"
  ke_mlock_pages :: "addr \<Rightarrow> addr \<Rightarrow> word32"
  ke_get_area :: "addr \<Rightarrow> word32 \<Rightarrow> word32 \<Rightarrow> word32 \<Rightarrow> addr"
  ke_mmap_min_addr :: addr
  ke_overcommit_never :: bool
  ke_hugetlb_mmap :: "addr \<Rightarrow> word32 \<Rightarrow> word32 \<Rightarrow> word32 \<Rightarrow> word32 \<Rightarrow> (mm, word32) st"
  ke_freed_vm_end :: "vma \<Rightarrow> addr"
  ke_get_user_pages :: "addr \<Rightarrow> addr \<Rightarrow> word32 option"
  ke_cgroup_charge :: "word32 \<Rightarrow> bool"
  ke_anon_vma_prepare :: "vma \<Rightarrow> bool"
  ke_page_anon :: "word32 \<Rightarrow> bool"
  ke_reuse_swap_page :: "word32 \<Rightarrow> bool"
  ke_alloc_page :: "addr \<Rightarrow> word32 option"
  ke_max_pfn :: word32
  ke_has_pge :: bool
  ke_page_mkwrite :: "vma \<Rightarrow> bool"
  ke_account_dirty :: "addr \<Rightarrow> bool"
  ke_hugetlb_protect :: "vma \<Rightarrow> addr \<Rightarrow> addr \<Rightarrow> word32 \<Rightarrow> ptab \<Rightarrow> ptab"
  ke_hugetlb_unmap :: "vma \<Rightarrow> addr \<Rightarrow> addr \<Rightarrow> ptab \<Rightarrow> ptab"
  ke_hugetlb_copy :: "vma \<Rightarrow> ptab \<Rightarrow> ptab \<Rightarrow> word32 \<times> ptab"
  ke_pte_alloc :: "addr \<Rightarrow> bool"
  ke_track_pfn :: "vma \<Rightarrow> word32"
  ke_ksm_fork :: word32
  ke_mpol_dup :: "vma \<Rightarrow> word32"

definition is_abt_vma :: "vma \<Rightarrow> bool" where
  "is_abt_vma v \<longleftrightarrow> vm_flags v AND VM_AB_CONTROL \<noteq> 0"

definition vma_pages :: "vma \<Rightarrow> word32" where
  "vma_pages v = pages (vm_end v - vm_start v)"

section \<open>Lookup\<close>

text \<open>The descent of \<^verbatim>\<open>find_vma\<close> through the tree, with the best VMA so far.\<close>

fun find_vma_rb :: "vma tree \<Rightarrow> addr \<Rightarrow> vma option \<Rightarrow> vma option" where
  "find_vma_rb \<langle>\<rangle> a best = best"
| "find_vma_rb \<langle>l, v, r\<rangle> a best =
     (if vm_end v > a
      then if vm_start v \<le> a then Some v else find_vma_rb l a (Some v)
      else find_vma_rb r a best)"

text \<open>\<^verbatim>\<open>find_vma\<close> with its one-entry cache; the second component is the new cache.\<close>

definition find_vma_cached ::
  "vma option \<Rightarrow> vma tree \<Rightarrow> addr \<Rightarrow> vma option \<times> vma option" where
  "find_vma_cached cache t a =
     (case cache of
        Some v \<Rightarrow>
          if vm_end v > a \<and> vm_start v \<le> a then (Some v, cache)
          else (case find_vma_rb t a None of None \<Rightarrow> (None, cache) | Some w \<Rightarrow> (Some w, Some w))
      | None \<Rightarrow> (case find_vma_rb t a None of None \<Rightarrow> (None, None) | Some w \<Rightarrow> (Some w, Some w)))"

text \<open>The descent of \<^verbatim>\<open>find_vma_prev\<close>; \<open>nxt\<close> is the \<^verbatim>\<open>vm_next\<close> field.\<close>

fun find_vma_prev_rb :: "(vma \<Rightarrow> vma option) \<Rightarrow> vma tree \<Rightarrow> addr \<Rightarrow> vma option \<Rightarrow> vma option" where
  "find_vma_prev_rb nxt \<langle>\<rangle> a prev = prev"
| "find_vma_prev_rb nxt \<langle>l, v, r\<rangle> a prev =
     (if a < vm_end v then find_vma_prev_rb nxt l a prev
      else if (case nxt v of None \<Rightarrow> True | Some n \<Rightarrow> a < vm_end n) then Some v
      else find_vma_prev_rb nxt r a (Some v))"

definition find_vma :: "vma list \<Rightarrow> addr \<Rightarrow> vma option" where
  "find_vma xs a = List.find (\<lambda>v. a < vm_end v) xs"

text \<open>
  \<^verbatim>\<open>find_vma_prev\<close> and \<^verbatim>\<open>find_vma_prepare\<close> on the list: the VMAs that end at or before the
  address, the last of which is \<^verbatim>\<open>prev\<close>, and the rest, the first of which is the VMA found.
\<close>

definition find_vma_prev :: "vma list \<Rightarrow> addr \<Rightarrow> vma list \<times> vma list" where
  "find_vma_prev xs a =
     (takeWhile (\<lambda>v. vm_end v \<le> a) xs, dropWhile (\<lambda>v. vm_end v \<le> a) xs)"

definition find_vma_intersection :: "vma list \<Rightarrow> addr \<Rightarrow> addr \<Rightarrow> vma option" where
  "find_vma_intersection xs s e =
     (case find_vma xs s of None \<Rightarrow> None | Some v \<Rightarrow> if e \<le> vm_start v then None else Some v)"

section \<open>Splitting and unmapping\<close>

definition split_vma :: "kenv \<Rightarrow> vma list \<Rightarrow> vma \<Rightarrow> addr \<Rightarrow> word32 + vma \<times> vma" where
  "split_vma env xs v a =
     (if vm_flags v AND VM_HUGETLB \<noteq> 0 \<and> a AND NOT (ke_huge_page_mask env) \<noteq> 0 then Inl (- EINVAL)
      else if length xs \<ge> ke_max_map_count env then Inl (- ENOMEM)
      else if \<not> ke_vma_alloc env xs then Inl (- ENOMEM)
      else Inr (v\<lparr>vm_end := a\<rparr>,
                v\<lparr>vm_start := a, vm_pgoff := vm_pgoff v + pages (a - vm_start v)\<rparr>))"

text \<open>The two splits of \<^verbatim>\<open>do_munmap\<close>: at the start of the range and at its end.\<close>

definition munmap_split_start ::
  "kenv \<Rightarrow> addr \<Rightarrow> vma list \<Rightarrow> vma \<Rightarrow> vma list \<Rightarrow> word32 + vma list \<times> vma list" where
  "munmap_split_start env start pre v post =
     (if start > vm_start v
      then case split_vma env (pre @ v # post) v start of
             Inl e \<Rightarrow> Inl e
           | Inr (lo, up) \<Rightarrow> Inr (pre @ [lo], up # post)
      else Inr (pre, v # post))"

definition munmap_split_end :: "kenv \<Rightarrow> addr \<Rightarrow> vma list \<Rightarrow> word32 + vma list" where
  "munmap_split_end env e xs =
     (case find_vma_prev xs e of
        (before, []) \<Rightarrow> Inr xs
      | (before, l # after) \<Rightarrow>
          if e > vm_start l
          then case split_vma env xs l e of
                 Inl e \<Rightarrow> Inl e
               | Inr (lo, up) \<Rightarrow> Inr (before @ lo # up # after)
          else Inr xs)"

definition unlock_vmas :: "vma list \<Rightarrow> word32 \<Rightarrow> word32" where
  "unlock_vmas vs locked =
     (if locked \<noteq> 0
      then fold (\<lambda>v n. if vm_flags v AND VM_LOCKED \<noteq> 0 then n - vma_pages v else n) vs locked
      else locked)"

text \<open>The VMAs that are detached are the first, whatever it is, and those after it that start in the range.\<close>

definition detached :: "addr \<Rightarrow> vma list \<Rightarrow> vma list" where
  "detached e rest = (case rest of [] \<Rightarrow> [] | v # vs \<Rightarrow> v # takeWhile (\<lambda>w. vm_start w < e) vs)"

definition detach_vmas_to_be_unmapped :: "addr \<Rightarrow> vma list \<Rightarrow> vma list \<Rightarrow> mm \<Rightarrow> mm" where
  "detach_vmas_to_be_unmapped e pre rest m =
     (case rest of
        [] \<Rightarrow> m
      | v # vs \<Rightarrow>
          m\<lparr>mm_mmap := pre @ dropWhile (\<lambda>w. vm_start w < e) vs,
            mm_locked_vm := unlock_vmas (detached e rest) (mm_locked_vm m),
            mm_total_vm := fold (\<lambda>w n. n - vma_pages w) (detached e rest) (mm_total_vm m)\<rparr>)"

text \<open>
  \<^verbatim>\<open>unmap_vmas\<close> without \<^verbatim>\<open>zap_details\<close>, on the VMAs detached from the list: \<^verbatim>\<open>zap_pte_range\<close> clears the
  entries of a number of pages, present or swapped out.  The work is done in one go; frames
  and counters are left out.  The loop calls \<^verbatim>\<open>unmap_page_range\<close> only on ranges that are not empty, as its
  \<^verbatim>\<open>BUG_ON\<close> asks.
\<close>

fun zap_pte_range :: "nat \<Rightarrow> addr \<Rightarrow> ptab \<Rightarrow> ptab" where
  "zap_pte_range 0 a pt = pt"
| "zap_pte_range (Suc n) a pt =
     zap_pte_range n (a + PAGE_SIZE) (if pt a = 0 then pt else pt(a := 0))"

definition unmap_page_range :: "addr \<Rightarrow> addr \<Rightarrow> ptab \<Rightarrow> ptab" where
  "unmap_page_range a e = zap_pte_range (unat (pages (e - a))) a"

fun unmap_vmas :: "kenv \<Rightarrow> addr \<Rightarrow> addr \<Rightarrow> vma list \<Rightarrow> ptab \<Rightarrow> ptab" where
  "unmap_vmas env start_addr end_addr [] pt = pt"
| "unmap_vmas env start_addr end_addr (v # vs) pt =
     (if \<not> vm_start v < end_addr then pt
      else let start = max (vm_start v) start_addr; e = min (vm_end v) end_addr;
               pt' = (if start \<ge> vm_end v \<or> e \<le> vm_start v then pt
                      else if vm_flags v AND VM_HUGETLB \<noteq> 0
                      then if vm_file v \<noteq> 0 then ke_hugetlb_unmap env v start e pt else pt
                      else unmap_page_range start e pt)
           in unmap_vmas env start_addr end_addr vs pt')"

definition unmap_region :: "kenv \<Rightarrow> addr \<Rightarrow> addr \<Rightarrow> vma list \<Rightarrow> mm \<Rightarrow> mm" where
  "unmap_region env start e vs m = m\<lparr>mm_pgd := unmap_vmas env start e vs (mm_pgd m)\<rparr>"

text \<open>\<^verbatim>\<open>do_munmap\<close> from the first VMA that overlaps the range on.\<close>

definition munmap_found :: "kenv \<Rightarrow> addr \<Rightarrow> addr \<Rightarrow> vma list \<Rightarrow> vma \<Rightarrow> vma list \<Rightarrow> mm \<Rightarrow> word32 \<times> mm" where
  "munmap_found env start e pre v post m =
     (case munmap_split_start env start pre v post of
        Inl err \<Rightarrow> (err, m)
      | Inr (pre, rest) \<Rightarrow>
          (case munmap_split_end env e (pre @ rest) of
             Inl err \<Rightarrow> (err, m\<lparr>mm_mmap := pre @ rest\<rparr>)
           | Inr ys \<Rightarrow>
               let rest = drop (length pre) ys
               in (0, unmap_region env start e (detached e rest) (detach_vmas_to_be_unmapped e pre rest m))))"

definition do_munmap :: "kenv \<Rightarrow> addr \<Rightarrow> word32 \<Rightarrow> mm \<Rightarrow> word32 \<times> mm" where
  "do_munmap env start len m =
     (if start AND NOT PAGE_MASK \<noteq> 0 \<or> start > TASK_SIZE \<or> len > TASK_SIZE - start
      then (- EINVAL, m)
      else if PAGE_ALIGN len = 0 then (- EINVAL, m)
      else let e = start + PAGE_ALIGN len in
        case find_vma_prev (mm_mmap m) start of
          (pre, []) \<Rightarrow> (0, m)
        | (pre, v # post) \<Rightarrow>
            if vm_start v \<ge> e then (0, m) else munmap_found env start e pre v post m)"

section \<open>Merging\<close>

definition is_mergeable_vma :: "vma \<Rightarrow> addr \<Rightarrow> word32 \<Rightarrow> bool" where
  "is_mergeable_vma v file flags \<longleftrightarrow>
     (vm_flags v XOR flags) AND NOT VM_CAN_NONLINEAR = 0 \<and> vm_file v = file \<and> \<not> vm_close v"

definition is_mergeable_anon_vma :: "addr \<Rightarrow> addr \<Rightarrow> bool" where
  "is_mergeable_anon_vma a1 a2 \<longleftrightarrow> a1 = 0 \<or> a2 = 0 \<or> a1 = a2"

definition can_vma_merge_before :: "vma \<Rightarrow> word32 \<Rightarrow> addr \<Rightarrow> addr \<Rightarrow> word32 \<Rightarrow> bool" where
  "can_vma_merge_before v flags anon file pgoff \<longleftrightarrow>
     is_mergeable_vma v file flags \<and> is_mergeable_anon_vma anon (anon_vma v) \<and> vm_pgoff v = pgoff"

definition can_vma_merge_after :: "vma \<Rightarrow> word32 \<Rightarrow> addr \<Rightarrow> addr \<Rightarrow> word32 \<Rightarrow> bool" where
  "can_vma_merge_after v flags anon file pgoff \<longleftrightarrow>
     is_mergeable_vma v file flags \<and> is_mergeable_anon_vma anon (anon_vma v) \<and>
     vm_pgoff v + vma_pages v = pgoff"

text \<open>The \<^verbatim>\<open>anon_vma\<close> an expanding VMA takes over from the one it covers.\<close>

definition import_anon :: "vma \<Rightarrow> vma \<Rightarrow> vma" where
  "import_anon v w = (if anon_vma v = 0 then v\<lparr>anon_vma := anon_vma w\<rparr> else v)"

text \<open>The \<^verbatim>\<open>again\<close> loop of \<^verbatim>\<open>vma_adjust\<close>, which swallows the next VMA or the next two.\<close>

fun vma_absorb :: "vma \<Rightarrow> vma list \<Rightarrow> addr \<Rightarrow> (vma \<times> vma list) res" where
  "vma_absorb v [] e = fail Segv"
| "vma_absorb v (n # ns) e =
     (let v' = (import_anon v n)\<lparr>vm_end := vm_end n\<rparr>
      in if e > vm_end n then vma_absorb v' ns (vm_end n) else ret (v', ns))"

text \<open>\<^verbatim>\<open>vma_adjust\<close> without a VMA to insert: the VMA and the VMAs after it.\<close>

definition vma_adjust ::
  "vma \<Rightarrow> vma list \<Rightarrow> addr \<Rightarrow> addr \<Rightarrow> word32 \<Rightarrow> (vma \<times> vma list) res" where
  "vma_adjust v rest s e pgoff =
     (case rest of
        [] \<Rightarrow> ret (v\<lparr>vm_start := s, vm_end := e, vm_pgoff := pgoff\<rparr>, [])
      | n # ns \<Rightarrow>
          if e \<ge> vm_end n
          then bnd (vma_absorb v rest e) (\<lambda>(v', ns').
               ret (v'\<lparr>vm_start := s, vm_pgoff := pgoff\<rparr>, ns'))
          else if e > vm_start n
          then let k = pages (e - vm_start n)
               in ret ((import_anon v n)\<lparr>vm_start := s, vm_end := e, vm_pgoff := pgoff\<rparr>,
                       n\<lparr>vm_start := vm_start n + push_bit 12 k, vm_pgoff := vm_pgoff n + k\<rparr> # ns)
          else if e < vm_end v
          then let k = - pages (vm_end v - e)
               in ret (v\<lparr>vm_start := s, vm_end := e, vm_pgoff := pgoff\<rparr>,
                       (import_anon n v)\<lparr>vm_start := vm_start n + push_bit 12 k,
                                         vm_pgoff := vm_pgoff n + k\<rparr> # ns)
          else ret (v\<lparr>vm_start := s, vm_end := e, vm_pgoff := pgoff\<rparr>, rest))"

text \<open>
  \<^verbatim>\<open>vma_merge\<close>: \<open>pre\<close> ends with \<^verbatim>\<open>prev\<close>, \<open>rest\<close> starts with \<^verbatim>\<open>area\<close>, \<open>merge_nexts\<close> starts with
  \<^verbatim>\<open>next\<close>.  The result is the VMA returned, with the VMAs before and after it, or \<open>None\<close> when
  nothing merges.  \<open>merge_prev\<close> holds cases 1, 2, 5, 6 and 7 of the source's table,
  \<open>merge_next\<close> cases 3, 4 and 8.
\<close>

definition merge_nexts :: "vma list \<Rightarrow> addr \<Rightarrow> vma list" where
  "merge_nexts rest e = (case rest of [] \<Rightarrow> [] | v # vs \<Rightarrow> if vm_end v = e then vs else rest)"

definition joins_next :: "vma list \<Rightarrow> addr \<Rightarrow> word32 \<Rightarrow> addr \<Rightarrow> addr \<Rightarrow> word32 \<Rightarrow> bool" where
  "joins_next nexts e flags anon file pgoff =
     (case nexts of [] \<Rightarrow> False
      | n # _ \<Rightarrow> e = vm_start n \<and> can_vma_merge_before n flags anon file pgoff)"

definition merge_prev ::
  "vma list \<Rightarrow> vma \<Rightarrow> vma list \<Rightarrow> addr \<Rightarrow> bool \<Rightarrow> (vma list \<times> vma \<times> vma list) option res" where
  "merge_prev pr p rest e joins =
     (let n = hd (merge_nexts rest e);
          e' = (if joins \<and> is_mergeable_anon_vma (anon_vma p) (anon_vma n) then vm_end n else e)
      in bnd (vma_adjust p rest (vm_start p) e' (vm_pgoff p)) (\<lambda>(p', rest').
         ret (Some (pr, p', rest'))))"

definition merge_next ::
  "vma list \<Rightarrow> vma list \<Rightarrow> addr \<Rightarrow> addr \<Rightarrow> (vma list \<times> vma \<times> vma list) option res" where
  "merge_next pre rest a e =
     (let p = last pre; n = hd (merge_nexts rest e)
      in if pre \<noteq> [] \<and> a < vm_end p
         then bnd (vma_adjust p rest (vm_start p) a (vm_pgoff p)) (\<lambda>(p', rest').
              case rest' of
                [] \<Rightarrow> fail Segv
              | area # rest'' \<Rightarrow> ret (Some (butlast pre @ [p'], area, rest'')))
         else case rest of
                [] \<Rightarrow> fail Segv
              | area # rest' \<Rightarrow>
                  bnd (vma_adjust area rest' a (vm_end n) (vm_pgoff n - pages (e - a)))
                    (\<lambda>(v, rest'). ret (Some (pre, v, rest'))))"

definition vma_merge ::
  "vma list \<Rightarrow> vma list \<Rightarrow> addr \<Rightarrow> addr \<Rightarrow> word32 \<Rightarrow> addr \<Rightarrow> addr \<Rightarrow> word32
     \<Rightarrow> (vma list \<times> vma \<times> vma list) option res" where
  "vma_merge pre rest a e flags anon file pgoff =
     (let joins = joins_next (merge_nexts rest e) e flags anon file (pgoff + pages (e - a))
      in if flags AND VM_SPECIAL \<noteq> 0 then ret None
         else if pre \<noteq> [] \<and> vm_end (last pre) = a \<and>
                 can_vma_merge_after (last pre) flags anon file pgoff
         then merge_prev (butlast pre) (last pre) rest e joins
         else if joins then merge_next pre rest a e
         else ret None)"

section \<open>Changing the protection of one VMA\<close>

text \<open>
  \<^verbatim>\<open>mprotect_fixup\<close> down to the new flags it sets at \<^verbatim>\<open>success\<close>, on the VMA \<open>v\<close> between \<open>pre\<close> and \<open>post\<close>.
  \<^verbatim>\<open>*pprev\<close> is the last of \<open>pre\<close> when the range starts with the VMA and the VMA itself otherwise.
  The result is the error code, and \<^verbatim>\<open>*pprev\<close> with the VMAs before and after it.
\<close>

definition commit_needed :: "word32 \<Rightarrow> word32 \<Rightarrow> bool" where
  "commit_needed oldflags newflags \<longleftrightarrow>
     newflags AND VM_WRITE \<noteq> 0 \<and>
     oldflags AND (VM_ACCOUNT OR VM_WRITE OR VM_HUGETLB OR VM_SHARED OR VM_NORESERVE) = 0"

definition fixup_split ::
  "kenv \<Rightarrow> vma list \<Rightarrow> vma \<Rightarrow> vma list \<Rightarrow> addr \<Rightarrow> addr \<Rightarrow> word32
     \<Rightarrow> word32 \<times> vma list \<times> vma \<times> vma list" where
  "fixup_split env pre v post start e flags =
     (case if start \<noteq> vm_start v
           then map_sum id (\<lambda>(lo, up). (pre @ [lo], up)) (split_vma env (pre @ v # post) v start)
           else Inr (pre, v) of
        Inl err \<Rightarrow> (err, pre, v, post)
      | Inr (pre, v) \<Rightarrow>
          (case if e \<noteq> vm_end v
                then map_sum id (\<lambda>(lo, up). (lo, up # post)) (split_vma env (pre @ v # post) v e)
                else Inr (v, post) of
             Inl err \<Rightarrow> (err, pre, v, post)
           | Inr (v, post) \<Rightarrow> (0, pre, v\<lparr>vm_flags := flags\<rparr>, post)))"

definition fixup_areas ::
  "kenv \<Rightarrow> vma list \<Rightarrow> vma \<Rightarrow> vma list \<Rightarrow> addr \<Rightarrow> addr \<Rightarrow> word32
     \<Rightarrow> (word32 \<times> vma list \<times> vma \<times> vma list) res" where
  "fixup_areas env pre v post start e newflags =
     (if newflags = vm_flags v then ret (0, pre, v, post)
      else
        let charged = commit_needed (vm_flags v) newflags;
            flags = (if charged then newflags OR VM_ACCOUNT else newflags)
        in if charged \<and> \<not> ke_enough_memory env (pages (e - start)) then ret (- ENOMEM, pre, v, post)
           else bnd (case if start > vm_start v then (pre @ [v], post) else (pre, v # post) of
                       (before, after) \<Rightarrow>
                         vma_merge before after start e flags (anon_vma v) (vm_file v)
                           (vm_pgoff v + pages (start - vm_start v))) (\<lambda>r.
                case r of
                  Some (pre', w, post') \<Rightarrow> ret (0, pre', w\<lparr>vm_flags := flags\<rparr>, post')
                | None \<Rightarrow> ret (fixup_split env pre v post start e flags)))"

section \<open>Page alignment\<close>

definition page_aligned :: "word32 \<Rightarrow> bool" where
  "page_aligned x \<longleftrightarrow> x AND NOT PAGE_MASK = 0"

lemma page_mask: "PAGE_MASK = NOT (mask 12)"
  by (simp add: PAGE_MASK_def mask_eq_exp_minus_1)

lemma page_aligned_take: "page_aligned x \<longleftrightarrow> take_bit 12 x = 0"
  by (simp add: page_aligned_def page_mask take_bit_eq_mask)

lemma unat_take12: "unat (take_bit 12 x :: word32) = unat x mod 4096"
  by (subst unsigned_take_bit_eq) (simp add: take_bit_eq_mod)

lemma page_aligned_iff: "page_aligned x \<longleftrightarrow> 4096 dvd unat x"
  unfolding page_aligned_take dvd_eq_mod_eq_0 unat_take12 [symmetric] by (simp add: unat_eq_0)

lemma page_aligned_add: "page_aligned x \<Longrightarrow> page_aligned y \<Longrightarrow> page_aligned (x + y)"
  by (simp add: page_aligned_iff unat_word_ariths dvd_mod)

lemma page_aligned_uint: "page_aligned x \<longleftrightarrow> 4096 dvd uint x"
proof -
  have "uint (take_bit 12 x) = uint x mod 4096"
    by (subst unsigned_take_bit_eq) (simp add: take_bit_eq_mod)
  then show ?thesis
    unfolding page_aligned_take dvd_eq_mod_eq_0 by (metis uint_0_iff)
qed

lemma page_aligned_diff: "page_aligned x \<Longrightarrow> page_aligned y \<Longrightarrow> page_aligned (x - y)"
  by (simp add: page_aligned_uint uint_word_ariths dvd_mod)

lemma page_aligned_PAGE_ALIGN [simp]: "page_aligned (PAGE_ALIGN x)"
  by (simp add: page_aligned_def PAGE_ALIGN_def and.assoc)

lemma and_page_mask: "x AND PAGE_MASK = push_bit 12 (drop_bit 12 x)"
  unfolding page_mask by (rule bit_word_eqI) (auto simp: bit_simps)

lemma shift_pages: "page_aligned x \<Longrightarrow> push_bit 12 (pages x) = x"
  using bits_ident [of 12 x] by (simp add: page_aligned_take pages_def)

lemma unat_and_page_mask: "unat (x AND PAGE_MASK) = unat x - unat x mod 4096"
proof -
  have "x AND PAGE_MASK = x - take_bit 12 x"
    using bits_ident [of 12 x] by (simp add: and_page_mask algebra_simps)
  moreover have "take_bit 12 x \<le> x"
    by (simp add: word_le_nat_alt unat_take12)
  ultimately show ?thesis
    by (simp add: unat_sub unat_take12)
qed

lemma unat_PAGE_ALIGN:
  assumes "unat x \<le> 0xFFFFF000"
  shows "unat (PAGE_ALIGN x) = (unat x + 4095) div 4096 * 4096"
proof -
  have "unat (x + (PAGE_SIZE - 1)) = unat x + 4095"
    using assms by (simp add: PAGE_SIZE_def unat_word_ariths)
  then show ?thesis
    by (simp add: PAGE_ALIGN_def unat_and_page_mask minus_mod_eq_div_mult)
qed

lemma page_aligned_max: "page_aligned x \<Longrightarrow> unat x \<le> 0xFFFFF000"
proof -
  assume "page_aligned x"
  then obtain k where k: "unat x = 4096 * k" by (auto simp: page_aligned_iff)
  moreover have "unat x < 2 ^ 32" by (rule order_less_le_trans [OF unsigned_less]) simp
  ultimately have "k \<le> 0xFFFFF" by simp
  with k show ?thesis by simp
qed

lemma PAGE_ALIGN_id: "page_aligned x \<Longrightarrow> PAGE_ALIGN x = x"
  using unat_PAGE_ALIGN [OF page_aligned_max, of x]
  by (auto simp: page_aligned_iff word_unat_eq_iff)

section \<open>The flags at an address\<close>

definition core_flags :: "word32 \<Rightarrow> word32" where
  "core_flags f = f AND NOT VM_CAN_NONLINEAR"

fun flags_at :: "vma list \<Rightarrow> addr \<Rightarrow> word32 option" where
  "flags_at [] a = None"
| "flags_at (v # vs) a =
     (if vm_start v \<le> a \<and> a < vm_end v then Some (core_flags (vm_flags v)) else flags_at vs a)"

definition vma_ok :: "vma \<Rightarrow> bool" where
  "vma_ok v \<longleftrightarrow> vm_start v < vm_end v \<and> page_aligned (vm_start v) \<and> page_aligned (vm_end v)"

definition vmas_ok :: "vma list \<Rightarrow> bool" where
  "vmas_ok xs \<longleftrightarrow> list_all vma_ok xs \<and> sorted_wrt (\<lambda>u v. vm_end u \<le> vm_start v) xs"

definition put_range :: "(addr \<Rightarrow> word32 option) \<Rightarrow> addr \<Rightarrow> addr \<Rightarrow> word32 option \<Rightarrow> addr \<Rightarrow> word32 option" where
  "put_range f s e x = (\<lambda>a. if s \<le> a \<and> a < e then x else f a)"

lemma vmas_ok_Nil [simp]: "vmas_ok []"
  by (simp add: vmas_ok_def)

lemma vmas_ok_Cons [simp]:
  "vmas_ok (v # vs) \<longleftrightarrow> vma_ok v \<and> (\<forall>w \<in> set vs. vm_end v \<le> vm_start w) \<and> vmas_ok vs"
  by (auto simp: vmas_ok_def)

lemma vmas_ok_append [simp]:
  "vmas_ok (xs @ ys) \<longleftrightarrow>
     vmas_ok xs \<and> vmas_ok ys \<and> (\<forall>u \<in> set xs. \<forall>v \<in> set ys. vm_end u \<le> vm_start v)"
  by (auto simp: vmas_ok_def sorted_wrt_append)

lemma vmas_ok_member: "vmas_ok xs \<Longrightarrow> v \<in> set xs \<Longrightarrow> vma_ok v"
  by (auto simp: vmas_ok_def list_all_iff)

lemma vma_okD: "vma_ok v \<Longrightarrow> vm_start v < vm_end v"
  by (simp add: vma_ok_def)

lemma flags_at_append [simp]:
  "flags_at (xs @ ys) a = (case flags_at xs a of None \<Rightarrow> flags_at ys a | Some f \<Rightarrow> Some f)"
  by (induction xs) auto

lemma flags_at_below: "(\<And>v. v \<in> set xs \<Longrightarrow> vm_end v \<le> a) \<Longrightarrow> flags_at xs a = None"
  by (induction xs) (auto simp: not_less)

lemma flags_at_above: "(\<And>v. v \<in> set xs \<Longrightarrow> a < vm_start v) \<Longrightarrow> flags_at xs a = None"
  by (induction xs) (auto simp: not_le)

lemma flags_at_Some:
  "flags_at xs a = Some f \<Longrightarrow> \<exists>v \<in> set xs. vm_start v \<le> a \<and> a < vm_end v \<and> f = core_flags (vm_flags v)"
  by (induction xs) (auto split: if_splits)

lemma flags_at_None: "flags_at xs a = None \<longleftrightarrow> (\<forall>v \<in> set xs. \<not> (vm_start v \<le> a \<and> a < vm_end v))"
  by (induction xs) auto

lemma find_vma_prev_split:
  assumes "find_vma_prev xs a = (pre, rest)"
  shows "xs = pre @ rest" "\<forall>v \<in> set pre. vm_end v \<le> a"
    "rest \<noteq> [] \<Longrightarrow> a < vm_end (hd rest)"
  using assms by (auto simp: find_vma_prev_def dest: set_takeWhileD hd_dropWhile simp flip: not_le)

lemma find_vma_prev_rest:
  assumes "find_vma_prev xs a = (pre, v # post)" "vmas_ok xs" "w \<in> set post"
  shows "a < vm_start w"
  using find_vma_prev_split [OF assms(1)] assms(2,3) by auto

lemma find_vma_prev_find: "find_vma xs a = (case find_vma_prev xs a of (_, []) \<Rightarrow> None | (_, v # _) \<Rightarrow> Some v)"
  unfolding find_vma_def find_vma_prev_def
  by (induction xs) (auto simp: not_less not_le)

subsection \<open>Trees\<close>

lemma find_append [simp]:
  "List.find P (xs @ ys) = (case List.find P xs of None \<Rightarrow> List.find P ys | Some x \<Rightarrow> Some x)"
  by (induction xs) auto

lemma find_vma_none:
  "(\<And>w. w \<in> set xs \<Longrightarrow> vm_end w \<le> a) \<Longrightarrow> List.find (\<lambda>v. a < vm_end v) xs = None"
  by (auto simp: find_None_iff not_less)

lemma find_member: "List.find P xs = Some x \<Longrightarrow> x \<in> set xs"
  by (auto simp: find_Some_iff)

lemma find_vma_rb_list:
  "vmas_ok (inorder t) \<Longrightarrow>
   find_vma_rb t a best = (case find_vma (inorder t) a of None \<Rightarrow> best | Some v \<Rightarrow> Some v)"
proof (induction t arbitrary: best)
  case (Node l v r)
  have "List.find (\<lambda>v. a < vm_end v) (inorder l) = None" if "vm_start v \<le> a"
    using Node.prems that by (intro find_vma_none) force
  moreover have "vm_start v \<le> a" if "vm_end v \<le> a"
    using Node.prems that by (auto simp: vma_ok_def)
  ultimately show ?case
    using Node by (auto simp: find_vma_def not_less split: option.splits)
qed (simp add: find_vma_def)

text \<open>The tree and its cache give what the list gives.\<close>

lemma find_vma_covering:
  assumes "vmas_ok xs" "v \<in> set xs" "vm_start v \<le> a" "a < vm_end v"
  shows "find_vma xs a = Some v"
  using assms unfolding find_vma_def
  by (induction xs) (auto dest: vma_okD)

lemma find_vma_cached_list:
  assumes "vmas_ok (inorder t)" "\<And>v. cache = Some v \<Longrightarrow> v \<in> set (inorder t)"
  shows "fst (find_vma_cached cache t a) = find_vma (inorder t) a"
  using assms find_vma_covering [OF assms(1)]
  by (auto simp: find_vma_cached_def find_vma_rb_list split: option.splits)

lemma find_vma_cached_keeps:
  assumes "vmas_ok (inorder t)" "\<And>v. cache = Some v \<Longrightarrow> v \<in> set (inorder t)"
    "snd (find_vma_cached cache t a) = Some v"
  shows "v \<in> set (inorder t)"
  using assms find_member [of "\<lambda>v. a < vm_end v" "inorder t"]
  by (auto simp: find_vma_cached_def find_vma_rb_list find_vma_def split: option.splits if_splits)

definition vm_next_in :: "vma list \<Rightarrow> vma \<Rightarrow> vma option" where
  "vm_next_in xs v = (case dropWhile (\<lambda>w. w \<noteq> v) xs of _ # n # _ \<Rightarrow> Some n | _ \<Rightarrow> None)"

definition last_opt :: "'a list \<Rightarrow> 'a option" where
  "last_opt xs = (if xs = [] then None else Some (last xs))"

lemma vm_next_in_split:
  assumes "vmas_ok (xs @ v # ys)"
  shows "vm_next_in (xs @ v # ys) v = (case ys of [] \<Rightarrow> None | n # _ \<Rightarrow> Some n)"
proof -
  have "w \<noteq> v" if "w \<in> set xs" for w
    using assms that by (force dest: vma_okD)
  then have "dropWhile (\<lambda>w. w \<noteq> v) (xs @ v # ys) = v # ys"
    by (simp add: dropWhile_append2)
  then show ?thesis
    by (simp add: vm_next_in_def split: list.splits)
qed

lemma takeWhile_ends:
  assumes "vmas_ok (xs @ v # ys)" "vm_end v \<le> a"
  shows "takeWhile (\<lambda>w. vm_end w \<le> a) (xs @ v # ys) = xs @ v # takeWhile (\<lambda>w. vm_end w \<le> a) ys"
  using assms by (subst takeWhile_append2) (force dest: vma_okD)+

lemma vmas_ok_later:
  assumes "vmas_ok (xs @ v # ys)"
  shows "w \<in> set ys \<Longrightarrow> vm_end v < vm_end w" "w \<in> set xs \<Longrightarrow> vm_end w < vm_end v"
proof -
  assume "w \<in> set ys"
  with assms have "vm_end v \<le> vm_start w" "vma_ok w" by (auto dest: vmas_ok_member)
  then show "vm_end v < vm_end w" by (auto dest: vma_okD)
next
  assume "w \<in> set xs"
  with assms have "vm_end w \<le> vm_start v" "vma_ok v" by auto
  then show "vm_end w < vm_end v" by (auto dest: vma_okD)
qed

lemma find_vma_prev_rb_list:
  assumes "vmas_ok (xs @ inorder t @ ys)" 
    "\<And>w. w \<in> set xs \<Longrightarrow> vm_end w \<le> a" "\<And>w. w \<in> set ys \<Longrightarrow> a < vm_end w"
  shows "find_vma_prev_rb (vm_next_in (xs @ inorder t @ ys)) t a (last_opt xs) =
         last_opt (fst (find_vma_prev (xs @ inorder t @ ys) a))"
  using assms
proof (induction t arbitrary: xs ys)
  case Leaf
  then have "takeWhile (\<lambda>v. vm_end v \<le> a) ys = []"
    by (cases ys) (auto simp: not_le)
  then show ?case
    using Leaf by (simp add: find_vma_prev_def takeWhile_append2)
next
  case (Node l v r)
  let ?all = "xs @ inorder l @ v # inorder r @ ys"
  have ok: "vmas_ok ((xs @ inorder l) @ v # inorder r @ ys)"
    using Node.prems(1) by (simp only: inorder.simps append_assoc append_Cons append_Nil)
  show ?case
  proof (cases "a < vm_end v")
    case True
    have up: "a < vm_end w" if "w \<in> set (v # inorder r @ ys)" for w
      using that True vmas_ok_later(1) [OF ok, of w] by (auto simp del: set_inorder)
    have "find_vma_prev_rb (vm_next_in (xs @ inorder l @ (v # inorder r @ ys))) l a (last_opt xs) =
          last_opt (fst (find_vma_prev (xs @ inorder l @ (v # inorder r @ ys)) a))"
      using ok up by (intro Node.IH(1) Node.prems(2)) (simp_all only: append_assoc)
    with True show ?thesis by simp
  next
    case False
    let ?xs = "xs @ inorder l @ [v]"
    have nxt: "vm_next_in ?all v = (case inorder r @ ys of [] \<Rightarrow> None | n # _ \<Rightarrow> Some n)"
      using vm_next_in_split [OF ok] by simp
    have tw: "fst (find_vma_prev ?all a) = ?xs @ takeWhile (\<lambda>w. vm_end w \<le> a) (inorder r @ ys)"
      unfolding find_vma_prev_def fst_conv
      using takeWhile_ends [OF ok] False by (simp only: append_assoc append_Cons append_Nil not_less)
    have low: "vm_end w \<le> a" if "w \<in> set ?xs" for w
      using that False vmas_ok_later(2) [OF ok, of w] by (auto simp del: set_inorder)
    have "find_vma_prev_rb (vm_next_in (?xs @ inorder r @ ys)) r a (last_opt ?xs) =
          last_opt (fst (find_vma_prev (?xs @ inorder r @ ys) a))"
      using ok low by (intro Node.IH(2) Node.prems(3)) (simp_all only: append_assoc append_Cons append_Nil)
    then have rec: "find_vma_prev_rb (vm_next_in ?all) r a (Some v) = last_opt (fst (find_vma_prev ?all a))"
      by (simp add: last_opt_def)
    show ?thesis
    proof (cases "inorder r @ ys")
      case Nil
      then show ?thesis using False nxt tw by (simp add: last_opt_def)
    next
      case (Cons n ns)
      show ?thesis
      proof (cases "a < vm_end n")
        case True
        then show ?thesis using False nxt tw Cons by (simp add: last_opt_def)
      next
        case False
        then show ?thesis using nxt rec Cons \<open>\<not> a < vm_end v\<close> by simp
      qed
    qed
  qed
qed

end
