(* ===== verification/Kernel_Task.thy ===== *)
theory Kernel_Task
  imports Kernel_VMA
begin

text \<open>
  Tasks of the kernel as the ArbiterThread patches see them: the identity word, the ring
  \<^verbatim>\<open>ab_tasks\<close> that links an arbiter with the threads it controls
  (\<^verbatim>\<open>include/linux/absys_thread_control.h\<close>), the system call \<^verbatim>\<open>absys_thread_control\<close>
  (\<^verbatim>\<open>kernel/absys_thread_control.c\<close>) and the initialisation in \<^verbatim>\<open>do_fork\<close>.  A task pointer is
  the pid of the task, a pointer to a \<^verbatim>\<open>list_head\<close> the task that contains it; a pid without
  a task is \<^verbatim>\<open>NULL\<close> or freed and faults.  Address spaces have addresses of their own, since
  tasks may share one.
\<close>

section \<open>State\<close>

record task =
  ab_next :: pid
  ab_prev :: pid
  ab_identity :: word32
  ab_tgleader_mm :: addr
  tk_parent :: pid
  tk_mm :: addr
  tk_personality :: word32

record kern =
  tasks :: "pid \<rightharpoonup> task"
  mms :: "addr \<rightharpoonup> mm"
  ab_category_count :: word32

type_synonym 'a kcall = "(kern, 'a) st"

definition AB_SET_ME_SPECIAL :: word32 where "AB_SET_ME_SPECIAL = 0"
definition AB_SET_ME_ARBITER :: word32 where "AB_SET_ME_ARBITER = 1"
definition AB_HEAP_START :: addr where "AB_HEAP_START = 0x80000000"

definition get_task :: "pid \<Rightarrow> task kcall" where
  "get_task p s = bnd (deref (tasks s) p) (\<lambda>t. ret (t, s))"

definition upd_task :: "pid \<Rightarrow> (task \<Rightarrow> task) \<Rightarrow> unit kcall" where
  "upd_task p f s = bnd (deref (tasks s) p) (\<lambda>t. ret ((), s\<lparr>tasks := (tasks s)(p \<mapsto> f t)\<rparr>))"

text \<open>A call on the address space of a task.\<close>

definition on_mm :: "pid \<Rightarrow> (mm, 'a) st \<Rightarrow> 'a kcall" where
  "on_mm p f s =
     bnd (deref (tasks s) p) (\<lambda>t.
     bnd (deref (mms s) (tk_mm t)) (\<lambda>m.
     bnd (f m) (\<lambda>(x, m'). ret (x, s\<lparr>mms := (mms s)(tk_mm t \<mapsto> m')\<rparr>))))"

section \<open>Identities\<close>

definition alloc_category :: "word32 kcall" where
  "alloc_category s =
     (let s' = s\<lparr>ab_category_count := ab_category_count s + 1\<rparr> in ret (ab_category_count s', s'))"

definition get_category :: "task \<Rightarrow> word32" where
  "get_category t = signed_drop_bit 1 (ab_identity t)"

definition get_role :: "task \<Rightarrow> word32" where
  "get_role t = ab_identity t AND 1"

definition is_arbiter :: "task \<Rightarrow> bool" where
  "is_arbiter t \<longleftrightarrow> get_role t \<noteq> 0"

definition is_common :: "task \<Rightarrow> bool" where
  "is_common t \<longleftrightarrow> get_category t = 0"

definition is_special :: "task \<Rightarrow> bool" where
  "is_special t \<longleftrightarrow> \<not> is_arbiter t \<and> \<not> is_common t"

definition convert_to_identity :: "word32 \<Rightarrow> word32 \<Rightarrow> word32" where
  "convert_to_identity category role = push_bit 1 category OR role"

section \<open>The ring of tasks\<close>

definition INIT_LIST_HEAD :: "pid \<Rightarrow> unit kcall" where
  "INIT_LIST_HEAD p = upd_task p (\<lambda>t. t\<lparr>ab_next := p, ab_prev := p\<rparr>)"

definition list_add_between :: "pid \<Rightarrow> pid \<Rightarrow> pid \<Rightarrow> unit kcall" where
  "list_add_between new prv nxt =
     sb (upd_task nxt (\<lambda>t. t\<lparr>ab_prev := new\<rparr>)) (\<lambda>_.
     sb (upd_task new (\<lambda>t. t\<lparr>ab_next := nxt\<rparr>)) (\<lambda>_.
     sb (upd_task new (\<lambda>t. t\<lparr>ab_prev := prv\<rparr>)) (\<lambda>_.
     upd_task prv (\<lambda>t. t\<lparr>ab_next := new\<rparr>))))"

definition list_add :: "pid \<Rightarrow> pid \<Rightarrow> unit kcall" where
  "list_add new head = sb (get_task head) (\<lambda>h. list_add_between new head (ab_next h))"

text \<open>
  \<^verbatim>\<open>list_for_each_entry(pos, &head->ab_tasks, ab_tasks)\<close> from the entry \<open>pos\<close> on; the body may
  leave the loop with a value.
\<close>

partial_function (option) list_for_each_entry ::
  "(pid \<Rightarrow> (kern, 'b option) st) \<Rightarrow> pid \<Rightarrow> pid \<Rightarrow> (kern, 'b option) st" where
  "list_for_each_entry body head pos s =
     (if pos = head then sret None
      else sb (body pos) (\<lambda>r.
           case r of
             Some x \<Rightarrow> sret (Some x)
           | None \<Rightarrow> sb (get_task pos) (\<lambda>t. list_for_each_entry body head (ab_next t)))) s"

definition for_ab_tasks :: "pid \<Rightarrow> (pid \<Rightarrow> (kern, 'b option) st) \<Rightarrow> (kern, 'b option) st" where
  "for_ab_tasks head body = sb (get_task head) (\<lambda>h. list_for_each_entry body head (ab_next h))"

definition find_my_arbiter :: "pid \<Rightarrow> (kern, pid option) st" where
  "find_my_arbiter tsk =
     for_ab_tasks tsk (\<lambda>p. sb (get_task p) (\<lambda>t. sret (if is_arbiter t then Some p else None)))"

section \<open>System calls on tasks\<close>

definition sys_absys_thread_control :: "pid \<Rightarrow> word32 \<Rightarrow> word32 kcall" where
  "sys_absys_thread_control current ab_role =
     sb (if ab_role = AB_SET_ME_ARBITER
         then sb alloc_category (\<lambda>c.
              sb (on_mm current (modify (\<lambda>m. m\<lparr>mm_start_ab_brk := AB_HEAP_START\<rparr>))) (\<lambda>_.
              sb (on_mm current (modify (\<lambda>m. m\<lparr>mm_ab_brk := AB_HEAP_START\<rparr>))) (\<lambda>_.
              sret c)))
         else if ab_role = AB_SET_ME_SPECIAL
         then sb (get_task current) (\<lambda>cur.
              sb (get_task (tk_parent cur)) (\<lambda>par.
              sb (list_add current (tk_parent cur)) (\<lambda>_.
              sb (get_task (tk_parent cur)) (\<lambda>par'.
              sb (upd_task current (\<lambda>t. t\<lparr>ab_tgleader_mm :=
                    if is_arbiter par' then tk_mm t else ab_tgleader_mm par'\<rparr>)) (\<lambda>_.
              sret (get_category par))))))
         else sret 0) (\<lambda>ab_category.
     sb (upd_task current (\<lambda>t. t\<lparr>ab_identity := convert_to_identity ab_category ab_role\<rparr>)) (\<lambda>_.
     sret 0))"

text \<open>
  What \<^verbatim>\<open>do_fork\<close> gives a new task: a copy of the caller's \<^verbatim>\<open>task_struct\<close> with a parent and an
  address space of its own, a ring of its own and identity 0.
\<close>

definition do_fork :: "pid \<Rightarrow> pid \<Rightarrow> addr \<Rightarrow> bool \<Rightarrow> unit kcall" where
  "do_fork current child new_mm clone_parent =
     sb (get_task current) (\<lambda>cur.
     sb (modify (\<lambda>s. s\<lparr>tasks := (tasks s)(child \<mapsto>
           cur\<lparr>tk_parent := (if clone_parent then tk_parent cur else current), tk_mm := new_mm\<rparr>)\<rparr>)) (\<lambda>_.
     sb (INIT_LIST_HEAD child) (\<lambda>_.
     upd_task child (\<lambda>t. t\<lparr>ab_identity := 0\<rparr>))))"

section \<open>Rings and groups\<close>

lemma get_task_Some [simp, st_simps]: "tasks s p = Some t \<Longrightarrow> get_task p s = ret (t, s)"
  by (simp add: get_task_def)

lemma get_task_None [simp]: "tasks s p = None \<Longrightarrow> get_task p s = fail Segv"
  by (simp add: get_task_def)

lemma upd_task_Some [simp, st_simps]:
  "tasks s p = Some t \<Longrightarrow> upd_task p f s = ret ((), s\<lparr>tasks := (tasks s)(p \<mapsto> f t)\<rparr>)"
  by (simp add: upd_task_def)

lemma on_mm_Some:
  "tasks s p = Some t \<Longrightarrow> mms s (tk_mm t) = Some m \<Longrightarrow>
   on_mm p f s = bnd (f m) (\<lambda>(x, m'). ret (x, s\<lparr>mms := (mms s)(tk_mm t \<mapsto> m')\<rparr>))"
  by (simp add: on_mm_def)

subsection \<open>Identities\<close>


subsection \<open>Rings\<close>

text \<open>The tasks met by following \<open>ab_next\<close> from \<open>p\<close> until \<open>q\<close>.\<close>

fun chain :: "(pid \<rightharpoonup> task) \<Rightarrow> pid \<Rightarrow> pid list \<Rightarrow> pid \<Rightarrow> bool" where
  "chain ts p [] q \<longleftrightarrow> p = q"
| "chain ts p (x # xs) q \<longleftrightarrow> p = x \<and> (\<exists>t. ts x = Some t \<and> chain ts (ab_next t) xs q)"

definition ring :: "(pid \<rightharpoonup> task) \<Rightarrow> pid \<Rightarrow> pid list \<Rightarrow> bool" where
  "ring ts h xs \<longleftrightarrow> distinct (h # xs) \<and> (\<exists>t. ts h = Some t \<and> chain ts (ab_next t) xs h)"

lemma task_chain_append: "chain ts p (xs @ ys) q \<longleftrightarrow> (\<exists>r. chain ts p xs r \<and> chain ts r ys q)"
  by (induction xs arbitrary: p) auto

lemma chain_cong:
  assumes "\<And>x. x \<in> set xs \<Longrightarrow> map_option ab_next (ts x) = map_option ab_next (ts' x)"
  shows "chain ts p xs q = chain ts' p xs q"
  using assms
proof (induction xs arbitrary: p)
  case (Cons x xs)
  then have "map_option ab_next (ts x) = map_option ab_next (ts' x)" by simp
  with Cons show ?case by (cases "ts x"; cases "ts' x") auto
qed simp

lemma ring_rotate: "ring ts h (xs @ c # ys) \<Longrightarrow> ring ts c (ys @ h # xs)"
  by (auto simp: ring_def task_chain_append)

lemma ring_alive: "ring ts h xs \<Longrightarrow> c \<in> set (h # xs) \<Longrightarrow> \<exists>t. ts c = Some t"
proof -
  have "c \<in> set xs \<Longrightarrow> chain ts p xs q \<Longrightarrow> \<exists>t. ts c = Some t" for p q
    by (induction xs arbitrary: p) auto
  then show "ring ts h xs \<Longrightarrow> c \<in> set (h # xs) \<Longrightarrow> \<exists>t. ts c = Some t"
    by (auto simp: ring_def)
qed

lemma ring_cong:
  assumes "\<And>x. x \<in> set (h # xs) \<Longrightarrow> map_option ab_next (ts x) = map_option ab_next (ts' x)"
  shows "ring ts h xs = ring ts' h xs"
proof -
  have "map_option ab_next (ts h) = map_option ab_next (ts' h)" using assms by simp
  then show ?thesis
    unfolding ring_def using chain_cong [of xs ts ts'] assms
    by (cases "ts h"; cases "ts' h") auto
qed

text \<open>A loop over the ring runs its body on the members in order.\<close>

fun foreach :: "('a \<Rightarrow> ('s, 'b option) st) \<Rightarrow> 'a list \<Rightarrow> ('s, 'b option) st" where
  "foreach body [] = sret None"
| "foreach body (x # xs) = sb (body x) (\<lambda>r. case r of Some y \<Rightarrow> sret (Some y) | None \<Rightarrow> foreach body xs)"

definition keeps_next :: "(pid \<Rightarrow> (kern, 'b) st) \<Rightarrow> bool" where
  "keeps_next body \<longleftrightarrow> (\<forall>p s r s'. body p s = ret (r, s') \<longrightarrow>
     (\<forall>x. map_option ab_next (tasks s' x) = map_option ab_next (tasks s x)))"

lemma list_for_each_entry_chain:
  assumes "keeps_next body"
  shows "chain (tasks s) p xs h \<Longrightarrow> h \<notin> set xs \<Longrightarrow> list_for_each_entry body h p s = foreach body xs s"
proof (induction xs arbitrary: p s)
  case Nil
  then show ?case by (simp add: list_for_each_entry.simps)
next
  case (Cons x xs)
  then have x: "p = x" "x \<noteq> h" by auto
  from Cons.prems obtain t where t: "tasks s x = Some t" "chain (tasks s) (ab_next t) xs h" by auto
  show ?case
  proof (cases "body x s" rule: res_cases)
    case (ret y)
    obtain r s' where y: "y = (r, s')" by (cases y)
    have nxt: "map_option ab_next (tasks s' z) = map_option ab_next (tasks s z)" for z
      using assms ret y by (auto simp: keeps_next_def)
    obtain t' where t': "tasks s' x = Some t'" "ab_next t' = ab_next t"
      using nxt [of x] t(1) by auto
    have "chain (tasks s') (ab_next t') xs h"
      using t t' nxt chain_cong [of xs "tasks s'" "tasks s"] by simp
    then have IH: "list_for_each_entry body h (ab_next t') s' = foreach body xs s'"
      using Cons.IH Cons.prems(2) by simp
    show ?thesis
      using x ret y t' IH
      by (subst list_for_each_entry.simps) (auto simp: sb_def split: option.splits)
  qed (subst list_for_each_entry.simps, auto simp: x sb_def)+
qed

lemma for_ab_tasks_ring:
  assumes "ring (tasks s) h xs" "keeps_next body"
  shows "for_ab_tasks h body s = foreach body xs s"
  using assms list_for_each_entry_chain [OF assms(2)]
  by (auto simp: for_ab_tasks_def ring_def sb_def)

definition arbiter_at :: "(pid \<rightharpoonup> task) \<Rightarrow> pid \<Rightarrow> bool" where
  "arbiter_at ts p \<longleftrightarrow> (case ts p of None \<Rightarrow> False | Some t \<Rightarrow> is_arbiter t)"

lemma find_my_arbiter_ring:
  assumes "ring (tasks s) c xs"
  shows "find_my_arbiter c s = ret (List.find (arbiter_at (tasks s)) xs, s)"
proof -
  let ?body = "\<lambda>p. sb (get_task p) (\<lambda>t. sret (if is_arbiter t then Some p else None)) :: (kern, pid option) st"
  have k: "keeps_next ?body"
    by (auto simp: keeps_next_def sb_eq_ret get_task_def bnd_eq_ret)
  have "\<forall>x \<in> set xs. \<exists>t. tasks s x = Some t" using ring_alive [OF assms] by auto
  then have "foreach ?body xs s = ret (List.find (arbiter_at (tasks s)) xs, s)"
    by (induction xs) (auto simp: sb_def arbiter_at_def)
  then show ?thesis
    unfolding find_my_arbiter_def using for_ab_tasks_ring [OF assms k] by simp
qed

lemma small_bits:
  assumes "(c::word32) < 0x40000000" shows "bit c n \<Longrightarrow> n < 30"
proof -
  have "unat c < 2 ^ 30" using assms by (simp add: word_less_nat_alt)
  then have "take_bit 30 (unat c) = unat c" by (simp add: take_bit_nat_eq_self_iff)
  then have "take_bit 30 c = c" by (metis unsigned_take_bit_eq word_unat_eq_iff)
  then show "bit c n \<Longrightarrow> n < 30" by (metis bit_take_bit_iff)
qed

lemma convert_to_identity_roundtrip:
  assumes "category < 0x40000000" "role = 0 \<or> role = 1" "ab_identity t = convert_to_identity category role"
  shows "get_category t = category" "get_role t = role"
proof -
  have r: "bit role n \<longleftrightarrow> role = 1 \<and> n = 0" for n
    using assms(2) by (auto simp: bit_1_iff)
  define x where "x = push_bit 1 category"
  have x: "bit x n \<longleftrightarrow> 1 \<le> n \<and> n < 32 \<and> bit category (n - 1)" for n
    unfolding x_def by (subst bit_push_bit_iff) auto
  have id: "ab_identity t = x OR role" by (simp only: assms(3) convert_to_identity_def x_def)
  show "get_category t = category"
    unfolding get_category_def id
    by (rule bit_word_eqI) (auto simp: bit_simps r x dest: small_bits [OF assms(1)])
  show "get_role t = role"
    unfolding get_role_def id
    by (rule bit_word_eqI) (auto simp: bit_simps r x)
qed

definition group :: "(pid \<rightharpoonup> task) \<Rightarrow> pid \<Rightarrow> pid list \<Rightarrow> bool" where
  "group ts arb cs \<longleftrightarrow> ring ts arb cs \<and> arbiter_at ts arb \<and> (\<forall>c \<in> set cs. \<not> arbiter_at ts c)"

lemma find_past: "\<forall>x \<in> set xs. \<not> P x \<Longrightarrow> List.find P (xs @ y # ys) = (if P y then Some y else List.find P ys)"
  by (induction xs) auto

lemma group_find_my_arbiter:
  assumes "group (tasks s) arb cs" "c \<in> set cs"
  shows "find_my_arbiter c s = ret (Some arb, s)"
proof -
  obtain xs ys where cs: "cs = xs @ c # ys" using assms(2) by (meson split_list)
  have "ring (tasks s) c (ys @ arb # xs)"
    using assms(1) by (simp add: group_def cs ring_rotate)
  moreover have "List.find (arbiter_at (tasks s)) (ys @ arb # xs) = Some arb"
    using assms(1) by (subst find_past) (auto simp: group_def cs)
  ultimately show ?thesis by (simp add: find_my_arbiter_ring)
qed

lemma group_no_own_arbiter:
  assumes "group (tasks s) arb cs"
  shows "find_my_arbiter arb s = ret (None, s)"
proof -
  have "List.find (arbiter_at (tasks s)) cs = None" and "ring (tasks s) arb cs"
    using assms by (auto simp: find_None_iff group_def)
  then show ?thesis by (simp add: find_my_arbiter_ring)
qed

text \<open>The links after \<^verbatim>\<open>list_add\<close>.\<close>

definition linked :: "pid \<Rightarrow> pid \<Rightarrow> pid \<Rightarrow> (pid \<rightharpoonup> task) \<Rightarrow> pid \<rightharpoonup> task" where
  "linked new head nxt ts = (\<lambda>x. map_option (\<lambda>t.
     t\<lparr>ab_next := if x = head then new else if x = new then nxt else ab_next t,
       ab_prev := if x = new then head else if x = nxt then new else ab_prev t\<rparr>) (ts x))"

lemma list_add_run:
  assumes "tasks s head = Some h" "tasks s (ab_next h) = Some n" "tasks s new = Some t" "new \<noteq> head"
  shows "list_add new head s = ret ((), s\<lparr>tasks := linked new head (ab_next h) (tasks s)\<rparr>)"
  using assms
  by (cases "ab_next h = new"; cases "ab_next h = head")
    (auto simp: list_add_def sb_def list_add_between_def linked_def option.map_ident intro!: kern.fold_congs ext)

lemma chain_linked:
  assumes "chain ts p xs q" "head \<notin> set xs" "new \<notin> set xs"
  shows "chain (linked new head nxt ts) p xs q"
proof -
  have "map_option ab_next (ts x) = map_option ab_next (linked new head nxt ts x)" if "x \<in> set xs" for x
    using that assms(2,3) by (cases "ts x") (auto simp: linked_def)
  then show ?thesis using assms(1) chain_cong [of xs ts "linked new head nxt ts" p q] by blast
qed

lemma ring_list_add:
  assumes "ring ts h xs" "new \<notin> set (h # xs)" "ts new = Some t" "ts h = Some ht"
  shows "ring (linked new h (ab_next ht) ts) h (new # xs)"
proof -
  have "chain (linked new h (ab_next ht) ts) (ab_next ht) xs h"
    using assms by (intro chain_linked) (auto simp: ring_def)
  then show ?thesis
    using assms by (auto simp: ring_def linked_def)
qed

end
