(* ===== verification/Kernel_Entries.thy ===== *)
theory Kernel_Entries
  imports Kernel_VMA
begin

text \<open>
  Page table entries of the i386 kernel without PAE (\<^verbatim>\<open>arch/x86/include/asm/pgtable.h\<close>,
  \<^verbatim>\<open>pgtable_types.h\<close>), what an area's flags make of them, and the part of \<^verbatim>\<open>mprotect\<close> that rewrites
  entries (\<^verbatim>\<open>mm/mprotect.c\<close>).
\<close>

section \<open>Entries\<close>

definition VM_PFNMAP :: word32 where "VM_PFNMAP = 0x400"
definition VM_DONTCOPY :: word32 where "VM_DONTCOPY = 0x20000"
definition VM_NONLINEAR :: word32 where "VM_NONLINEAR = 0x800000"
definition VM_INSERTPAGE :: word32 where "VM_INSERTPAGE = 0x2000000"
definition PAGE_PRESENT :: word32 where "PAGE_PRESENT = 1"
definition PAGE_RW :: word32 where "PAGE_RW = 2"
definition PAGE_USER :: word32 where "PAGE_USER = 4"
definition PAGE_PWT :: word32 where "PAGE_PWT = 8"
definition PAGE_PCD :: word32 where "PAGE_PCD = 0x10"
definition PAGE_ACCESSED :: word32 where "PAGE_ACCESSED = 0x20"
definition PAGE_DIRTY :: word32 where "PAGE_DIRTY = 0x40"
definition PAGE_GLOBAL :: word32 where "PAGE_GLOBAL = 0x100"
definition PAGE_SPECIAL :: word32 where "PAGE_SPECIAL = 0x200"
definition PAGE_IOMAP :: word32 where "PAGE_IOMAP = 0x400"
definition PAGE_PROTNONE :: word32 where "PAGE_PROTNONE = PAGE_GLOBAL"
definition PTE_PFN_MASK :: word32 where "PTE_PFN_MASK = PAGE_MASK"

definition PAGE_CHG_MASK :: word32 where
  "PAGE_CHG_MASK = PTE_PFN_MASK OR PAGE_PCD OR PAGE_PWT OR PAGE_SPECIAL OR PAGE_ACCESSED OR PAGE_DIRTY"

definition PAGE_NONE :: word32 where "PAGE_NONE = PAGE_PROTNONE OR PAGE_ACCESSED"
definition PAGE_SHARED :: word32 where "PAGE_SHARED = PAGE_PRESENT OR PAGE_RW OR PAGE_USER OR PAGE_ACCESSED"
definition PAGE_COPY :: word32 where "PAGE_COPY = PAGE_PRESENT OR PAGE_USER OR PAGE_ACCESSED"
definition PAGE_READONLY :: word32 where "PAGE_READONLY = PAGE_PRESENT OR PAGE_USER OR PAGE_ACCESSED"

text \<open>There is no NX bit without PAE, so the executable variants are the same values.\<close>

definition protection_map :: "word32 list" where
  "protection_map =
     [PAGE_NONE, PAGE_READONLY, PAGE_COPY, PAGE_COPY, PAGE_READONLY, PAGE_READONLY, PAGE_COPY, PAGE_COPY,
      PAGE_NONE, PAGE_READONLY, PAGE_SHARED, PAGE_SHARED, PAGE_READONLY, PAGE_READONLY, PAGE_SHARED, PAGE_SHARED]"

definition vm_get_page_prot :: "word32 \<Rightarrow> word32" where
  "vm_get_page_prot vmflags = protection_map ! unat (vmflags AND (VM_READ OR VM_WRITE OR VM_EXEC OR VM_SHARED))"

definition pte_none :: "pte \<Rightarrow> bool" where "pte_none e \<longleftrightarrow> e = 0"
definition pte_present :: "pte \<Rightarrow> bool" where "pte_present e \<longleftrightarrow> e AND (PAGE_PRESENT OR PAGE_PROTNONE) \<noteq> 0"
definition pte_write :: "pte \<Rightarrow> bool" where "pte_write e \<longleftrightarrow> e AND PAGE_RW \<noteq> 0"
definition pte_dirty :: "pte \<Rightarrow> bool" where "pte_dirty e \<longleftrightarrow> e AND PAGE_DIRTY \<noteq> 0"
definition pte_special :: "pte \<Rightarrow> bool" where "pte_special e \<longleftrightarrow> e AND PAGE_SPECIAL \<noteq> 0"
definition pte_pfn :: "pte \<Rightarrow> word32" where "pte_pfn e = drop_bit 12 (e AND PTE_PFN_MASK)"
definition pte_mkdirty :: "pte \<Rightarrow> pte" where "pte_mkdirty e = e OR PAGE_DIRTY"
definition pte_mkyoung :: "pte \<Rightarrow> pte" where "pte_mkyoung e = e OR PAGE_ACCESSED"
definition pte_mkwrite :: "pte \<Rightarrow> pte" where "pte_mkwrite e = e OR PAGE_RW"
definition pte_mkclean :: "pte \<Rightarrow> pte" where "pte_mkclean e = e AND NOT PAGE_DIRTY"
definition pte_mkold :: "pte \<Rightarrow> pte" where "pte_mkold e = e AND NOT PAGE_ACCESSED"
definition pte_wrprotect :: "pte \<Rightarrow> pte" where "pte_wrprotect e = e AND NOT PAGE_RW"

definition supported_pte_mask :: "kenv \<Rightarrow> word32" where
  "supported_pte_mask env =
     (let m = NOT (PAGE_GLOBAL OR PAGE_IOMAP) in if ke_has_pge env then m OR PAGE_GLOBAL else m)"

definition massage_pgprot :: "kenv \<Rightarrow> word32 \<Rightarrow> word32" where
  "massage_pgprot env prot = (if prot AND PAGE_PRESENT \<noteq> 0 then prot AND supported_pte_mask env else prot)"

definition pfn_pte :: "kenv \<Rightarrow> word32 \<Rightarrow> word32 \<Rightarrow> pte" where
  "pfn_pte env pfn prot = push_bit 12 pfn OR massage_pgprot env prot"

definition pte_modify :: "kenv \<Rightarrow> pte \<Rightarrow> word32 \<Rightarrow> pte" where
  "pte_modify env e newprot = (e AND PAGE_CHG_MASK) OR (massage_pgprot env newprot AND NOT PAGE_CHG_MASK)"

definition maybe_mkwrite :: "vma \<Rightarrow> pte \<Rightarrow> pte" where
  "maybe_mkwrite v e = (if vm_flags v AND VM_WRITE \<noteq> 0 then pte_mkwrite e else e)"

text \<open>
  \<^verbatim>\<open>vm_page_prot\<close> of a VMA is what \<^verbatim>\<open>vm_get_page_prot\<close> gives for its flags; \<^verbatim>\<open>mprotect_fixup\<close> keeps it so
  through \<^verbatim>\<open>pgprot_modify\<close>, except for file mappings that count dirty pages.
\<close>

definition vm_page_prot :: "vma \<Rightarrow> word32" where
  "vm_page_prot v = vm_get_page_prot (vm_flags v)"

definition pgprot_modify :: "word32 \<Rightarrow> word32 \<Rightarrow> word32" where
  "pgprot_modify oldprot newprot = (oldprot AND PAGE_CHG_MASK) OR newprot"

section \<open>Rewriting entries in mprotect\<close>

definition change_pte :: "kenv \<Rightarrow> word32 \<Rightarrow> bool \<Rightarrow> pte \<Rightarrow> pte" where
  "change_pte env newprot dirty_accountable oldpte =
     (if pte_present oldpte
      then let ptent = pte_modify env oldpte newprot
           in if dirty_accountable \<and> pte_dirty ptent then pte_mkwrite ptent else ptent
      else oldpte)"

partial_function (option) change_pte_range ::
  "kenv \<Rightarrow> addr \<Rightarrow> addr \<Rightarrow> word32 \<Rightarrow> bool \<Rightarrow> ptab \<Rightarrow> ptab res" where
  "change_pte_range env a e newprot dirty_accountable pt =
     (let pt' = pt(a := change_pte env newprot dirty_accountable (pt a))
      in if a + PAGE_SIZE = e then ret pt'
         else change_pte_range env (a + PAGE_SIZE) e newprot dirty_accountable pt')"

definition change_protection :: "kenv \<Rightarrow> addr \<Rightarrow> addr \<Rightarrow> word32 \<Rightarrow> bool \<Rightarrow> ptab \<Rightarrow> ptab res" where
  "change_protection env a e newprot dirty_accountable pt =
     bnd (guard Assert_failed (a < e)) (\<lambda>_. change_pte_range env a e newprot dirty_accountable pt)"

definition vma_wants_writenotify :: "kenv \<Rightarrow> vma \<Rightarrow> bool" where
  "vma_wants_writenotify env v \<longleftrightarrow>
     vm_flags v AND (VM_WRITE OR VM_SHARED) = VM_WRITE OR VM_SHARED \<and>
     (ke_page_mkwrite env v \<or>
      vm_flags v AND (VM_PFNMAP OR VM_INSERTPAGE) = 0 \<and> vm_file v \<noteq> 0 \<and> ke_account_dirty env (vm_file v))"

text \<open>\<^verbatim>\<open>mprotect_fixup\<close>: the areas, and at \<^verbatim>\<open>success\<close> the page table.\<close>

definition mprotect_fixup ::
  "kenv \<Rightarrow> vma list \<Rightarrow> vma \<Rightarrow> vma list \<Rightarrow> addr \<Rightarrow> addr \<Rightarrow> word32 \<Rightarrow> ptab
     \<Rightarrow> (word32 \<times> vma list \<times> vma \<times> vma list \<times> ptab) res" where
  "mprotect_fixup env pre v post start e newflags pt =
     bnd (fixup_areas env pre v post start e newflags) (\<lambda>(err, pre', w, post').
     if err \<noteq> 0 \<or> newflags = vm_flags v then ret (err, pre', w, post', pt)
     else let notify = vma_wants_writenotify env w;
              prot = (if notify then vm_get_page_prot (vm_flags w AND NOT VM_SHARED) else vm_page_prot w)
          in if vm_flags w AND VM_HUGETLB \<noteq> 0
             then ret (0, pre', w, post', ke_hugetlb_protect env w start e prot pt)
             else bnd (change_protection env start e prot notify pt) (\<lambda>pt'. ret (0, pre', w, post', pt')))"

end
