(* ===== verification/Kernel_Absys.thy ===== *)
theory Kernel_Absys
  imports Kernel_Task Kernel_Entries
begin

text \<open>
  The \<^verbatim>\<open>absys\<close> system calls of the patched kernel: \<^verbatim>\<open>kernel/absys_mmap.c\<close>,
  \<^verbatim>\<open>kernel/absys_mprotect.c\<close>, the helpers they have in \<^verbatim>\<open>mm/mmap.c\<close>, and the patched spots
  of \<^verbatim>\<open>mm/mprotect.c\<close>, \<^verbatim>\<open>mm/memory.c\<close>, \<^verbatim>\<open>arch/x86/mm/fault.c\<close> and \<^verbatim>\<open>kernel/futex.c\<close>.  A call on one
  address space is a function on \<open>mm\<close>, a system call a function on the kernel state, with
  the calling task as its first argument.  Semaphores are left out: a system call runs to
  its end before the next one.
\<close>

section \<open>Constants\<close>

definition PROT_EXEC :: word32 where "PROT_EXEC = 4"
definition PROT_SEM :: word32 where "PROT_SEM = 8"
definition PROT_GROWSDOWN :: word32 where "PROT_GROWSDOWN = 0x1000000"
definition PROT_GROWSUP :: word32 where "PROT_GROWSUP = 0x2000000"
definition MAP_SHARED :: word32 where "MAP_SHARED = 1"
definition MAP_PRIVATE :: word32 where "MAP_PRIVATE = 2"
definition MAP_TYPE :: word32 where "MAP_TYPE = 0xF"
definition MAP_FIXED :: word32 where "MAP_FIXED = 0x10"
definition MAP_ANONYMOUS :: word32 where "MAP_ANONYMOUS = 0x20"
definition MAP_GROWSDOWN :: word32 where "MAP_GROWSDOWN = 0x100"
definition MAP_DENYWRITE :: word32 where "MAP_DENYWRITE = 0x800"
definition MAP_EXECUTABLE :: word32 where "MAP_EXECUTABLE = 0x1000"
definition MAP_LOCKED :: word32 where "MAP_LOCKED = 0x2000"
definition MAP_NORESERVE :: word32 where "MAP_NORESERVE = 0x4000"
definition MAP_HUGETLB :: word32 where "MAP_HUGETLB = 0x40000"
definition READ_IMPLIES_EXEC :: word32 where "READ_IMPLIES_EXEC = 0x400000"

definition VM_RWX :: word32 where
  "VM_RWX = VM_READ OR VM_WRITE OR VM_EXEC"

text \<open>\<^verbatim>\<open>_calc_vm_trans\<close> between single bits, and the two translations built from it.\<close>

definition calc_vm_trans :: "word32 \<Rightarrow> word32 \<Rightarrow> word32 \<Rightarrow> word32" where
  "calc_vm_trans x bit1 bit2 =
     (if bit1 \<le> bit2 then (x AND bit1) * (bit2 div bit1) else (x AND bit1) div (bit1 div bit2))"

definition calc_vm_prot_bits :: "word32 \<Rightarrow> word32" where
  "calc_vm_prot_bits prot =
     calc_vm_trans prot 1 VM_READ OR calc_vm_trans prot 2 VM_WRITE OR
     calc_vm_trans prot PROT_EXEC VM_EXEC"

definition calc_vm_flag_bits :: "word32 \<Rightarrow> word32" where
  "calc_vm_flag_bits flags =
     calc_vm_trans flags MAP_GROWSDOWN VM_GROWSDOWN OR
     calc_vm_trans flags MAP_DENYWRITE VM_DENYWRITE OR
     calc_vm_trans flags MAP_EXECUTABLE VM_EXECUTABLE OR
     calc_vm_trans flags MAP_LOCKED VM_LOCKED"

definition arch_validate_prot :: "word32 \<Rightarrow> bool" where
  "arch_validate_prot prot \<longleftrightarrow> prot AND NOT (1 OR 2 OR PROT_EXEC OR PROT_SEM) = 0"

definition implied_exec :: "word32 \<Rightarrow> word32 \<Rightarrow> word32" where
  "implied_exec personality prot =
     (if prot AND 1 \<noteq> 0 \<and> personality AND READ_IMPLIES_EXEC \<noteq> 0 then prot OR PROT_EXEC else prot)"

section \<open>Mapping a region of one address space\<close>

text \<open>The loop \<^verbatim>\<open>munmap_back\<close>.\<close>

partial_function (option) munmap_back :: "kenv \<Rightarrow> addr \<Rightarrow> word32 \<Rightarrow> mm \<Rightarrow> (word32 \<times> mm) res" where
  "munmap_back env a len m =
     (case snd (find_vma_prev (mm_mmap m) a) of
        [] \<Rightarrow> ret (0, m)
      | v # _ \<Rightarrow>
          if vm_start v < a + len
          then case do_munmap env a len m of
                 (r, m') \<Rightarrow> if r \<noteq> 0 then ret (- ENOMEM, m') else munmap_back env a len m'
          else ret (0, m))"

definition may_expand_vm :: "kenv \<Rightarrow> word32 \<Rightarrow> mm \<Rightarrow> bool" where
  "may_expand_vm env npages m \<longleftrightarrow> \<not> mm_total_vm m + npages > pages (ke_rlim_as env)"

text \<open>
  Merging the new range with its neighbours, or else a new VMA of its own.  The
  assertion on \<^verbatim>\<open>VM_AB_CONTROL\<close> is made for a new VMA only.
\<close>

definition link_region :: "kenv \<Rightarrow> addr \<Rightarrow> word32 \<Rightarrow> word32 \<Rightarrow> word32 \<Rightarrow> (mm, word32) st" where
  "link_region env a len vmflags pgoff m =
     (case find_vma_prev (mm_mmap m) a of
        (pre, rest) \<Rightarrow>
          bnd (vma_merge pre rest a (a + len) vmflags 0 0 pgoff) (\<lambda>r.
          case r of
            Some (pre', w, post') \<Rightarrow> ret (0, m\<lparr>mm_mmap := pre' @ w # post'\<rparr>)
          | None \<Rightarrow>
              if \<not> ke_vma_alloc env (mm_mmap m) then ret (- ENOMEM, m)
              else bnd (guard Assert_failed (vmflags AND VM_AB_CONTROL \<noteq> 0)) (\<lambda>_.
                   ret (0, m\<lparr>mm_mmap := pre @ \<lparr>vm_start = a, vm_end = a + len, vm_flags = vmflags,
                                vm_pgoff = pgoff, vm_file = 0, anon_vma = 0, vm_close = False\<rparr> # rest\<rparr>))))"

text \<open>The bookkeeping at \<^verbatim>\<open>out:\<close> of \<^verbatim>\<open>absys_mmap_region\<close> and \<^verbatim>\<open>propagate_region\<close>.\<close>

definition account_region :: "kenv \<Rightarrow> addr \<Rightarrow> word32 \<Rightarrow> word32 \<Rightarrow> mm \<Rightarrow> word32 \<times> mm" where
  "account_region env a len vmflags m =
     (let m' = m\<lparr>mm_total_vm := mm_total_vm m + pages len\<rparr>
      in if vmflags AND VM_LOCKED \<noteq> 0
         then let n = ke_mlock_pages env a (a + len)
              in if n <s 0 then (n, m')
                 else (a, m'\<lparr>mm_locked_vm := mm_locked_vm m' + (pages len - n)\<rparr>)
         else (a, m'))"

definition reserve_flags :: "kenv \<Rightarrow> word32 \<Rightarrow> word32 \<Rightarrow> word32" where
  "reserve_flags env flags vmflags =
     (if flags AND MAP_NORESERVE \<noteq> 0 \<and> \<not> ke_overcommit_never env
      then vmflags OR VM_NORESERVE else vmflags)"

definition accountable_mapping :: "word32 \<Rightarrow> bool" where
  "accountable_mapping vmflags \<longleftrightarrow> vmflags AND (VM_NORESERVE OR VM_SHARED OR VM_WRITE) = VM_WRITE"

definition absys_mmap_region ::
  "kenv \<Rightarrow> addr \<Rightarrow> word32 \<Rightarrow> word32 \<Rightarrow> word32 \<Rightarrow> word32 \<Rightarrow> (mm, word32) st" where
  "absys_mmap_region env a len flags vmflags pgoff =
     sb (munmap_back env a len) (\<lambda>r.
     if r \<noteq> 0 then sret (- ENOMEM)
     else sb (gets (may_expand_vm env (pages len))) (\<lambda>ok.
     if \<not> ok then sret (- ENOMEM)
     else
       let vmflags = reserve_flags env flags vmflags
       in if accountable_mapping vmflags \<and> \<not> ke_enough_memory env (pages len) then sret (- ENOMEM)
          else let vmflags = (if accountable_mapping vmflags then vmflags OR VM_ACCOUNT else vmflags)
               in sb (link_region env a len vmflags pgoff) (\<lambda>r.
                  if r \<noteq> 0 then sret r else (\<lambda>m. ret (account_region env a len vmflags m)))))"

definition propagate_region ::
  "kenv \<Rightarrow> addr \<Rightarrow> word32 \<Rightarrow> word32 \<Rightarrow> word32 \<Rightarrow> word32 \<Rightarrow> (mm, word32) st" where
  "propagate_region env a len flags vmflags pgoff =
     sb (gets (\<lambda>m. snd (find_vma_prev (mm_mmap m) a))) (\<lambda>rest.
     sb (sguard Assert_failed (rest = [] \<or> \<not> vm_start (hd rest) < a + len)) (\<lambda>_.
     sb (gets (may_expand_vm env (pages len))) (\<lambda>ok.
     if \<not> ok then sret (- ENOMEM)
     else
       let vmflags = reserve_flags env flags vmflags
       in sb (link_region env a len vmflags pgoff) (\<lambda>r.
          if r \<noteq> 0 then sret r else (\<lambda>m. ret (account_region env a len vmflags m))))))"

section \<open>The break\<close>

definition VM_DATA_DEFAULT_FLAGS :: "word32 \<Rightarrow> word32" where
  "VM_DATA_DEFAULT_FLAGS personality =
     (if personality AND READ_IMPLIES_EXEC \<noteq> 0 then VM_EXEC else 0) OR
     VM_READ OR VM_WRITE OR VM_MAYREAD OR VM_MAYWRITE OR VM_MAYEXEC"

text \<open>The limit on locked memory, checked when the address space locks all it maps.\<close>

definition mlock_refused :: "kenv \<Rightarrow> word32 \<Rightarrow> mm \<Rightarrow> bool" where
  "mlock_refused env len m \<longleftrightarrow>
     pages len + mm_locked_vm m > pages (ke_rlim_memlock env) \<and> \<not> ke_cap_ipc_lock env"

text \<open>
  The common body of \<^verbatim>\<open>do_absys_brk\<close> and \<^verbatim>\<open>do_absys_brk_propagate\<close>, which differ in the flags
  only; the second is defined in the source and never called.
\<close>

definition brk_region :: "kenv \<Rightarrow> (mm \<Rightarrow> word32) \<Rightarrow> addr \<Rightarrow> word32 \<Rightarrow> (mm, word32) st" where
  "brk_region env flags_of a len0 m =
     (let len = PAGE_ALIGN len0 in
      if len = 0 then ret (a, m)
      else if a + len > TASK_SIZE \<or> a + len < a then ret (- EINVAL, m)
      else let err = ke_file_mmap env 0 0 0 a True in
      if err \<noteq> 0 then ret (err, m)
      else let flags = flags_of m in
      if mm_def_flags m AND VM_LOCKED \<noteq> 0 \<and> mlock_refused env len m then ret (- EAGAIN, m)
      else sb (munmap_back env a len) (\<lambda>r.
           if r \<noteq> 0 then sret (- ENOMEM)
           else sb (gets (\<lambda>m. may_expand_vm env (pages len) m \<and>
                              \<not> length (mm_mmap m) > ke_max_map_count env)) (\<lambda>ok.
           if \<not> ok \<or> \<not> ke_enough_memory env (pages len) then sret (- ENOMEM)
           else sb (link_region env a len flags (pages a)) (\<lambda>r.
           if r \<noteq> 0 then sret r
           else sb (modify (\<lambda>m. m\<lparr>mm_total_vm := mm_total_vm m + pages len\<rparr>)) (\<lambda>_.
                sb (swhen (flags AND VM_LOCKED \<noteq> 0 \<and> ke_mlock_pages env a (a + len) = 0)
                     (modify (\<lambda>m. m\<lparr>mm_locked_vm := mm_locked_vm m + pages len\<rparr>))) (\<lambda>_.
                sret a))))) m)"

definition do_absys_brk :: "kenv \<Rightarrow> word32 \<Rightarrow> addr \<Rightarrow> word32 \<Rightarrow> (mm, word32) st" where
  "do_absys_brk env personality =
     brk_region env (\<lambda>m. VM_DATA_DEFAULT_FLAGS personality OR VM_ACCOUNT OR mm_def_flags m OR VM_AB_CONTROL)"

definition do_absys_brk_propagate :: "kenv \<Rightarrow> word32 \<Rightarrow> addr \<Rightarrow> word32 \<Rightarrow> (mm, word32) st" where
  "do_absys_brk_propagate env personality =
     brk_region env (\<lambda>m. (VM_DATA_DEFAULT_FLAGS personality OR VM_ACCOUNT OR mm_def_flags m OR VM_AB_CONTROL)
                          AND 0xFFFFFFF0)"

section \<open>Mapping for one thread and for its siblings\<close>

definition round_hint_to_min :: "kenv \<Rightarrow> addr \<Rightarrow> addr" where
  "round_hint_to_min env hint0 =
     (let hint = hint0 AND PAGE_MASK
      in if hint \<noteq> 0 \<and> hint < ke_mmap_min_addr env then PAGE_ALIGN (ke_mmap_min_addr env) else hint)"

text \<open>\<^verbatim>\<open>get_unmapped_area\<close> around the stock search, which looks at the caller's address space.\<close>

definition k_get_unmapped_area :: "kenv \<Rightarrow> addr \<Rightarrow> word32 \<Rightarrow> word32 \<Rightarrow> word32 \<Rightarrow> addr" where
  "k_get_unmapped_area env a len pgoff flags =
     (let a' = ke_get_area env a len pgoff flags
      in if a' \<ge> - 4095 then a'
         else if a' > TASK_SIZE - len then - ENOMEM
         else if a' AND NOT PAGE_MASK \<noteq> 0 then - EINVAL
         else a')"

definition can_do_mlock :: "kenv \<Rightarrow> bool" where
  "can_do_mlock env \<longleftrightarrow> ke_cap_ipc_lock env \<or> ke_rlim_memlock env \<noteq> 0"

text \<open>
  The flags of an arbiter-controlled mapping before and after the switch on
  \<^verbatim>\<open>flags & MAP_TYPE\<close>, with the page offset; other mapping types are refused.
\<close>

definition ab_map_flags :: "word32 \<Rightarrow> word32 \<Rightarrow> mm \<Rightarrow> word32" where
  "ab_map_flags prot flags m =
     calc_vm_prot_bits prot OR calc_vm_flag_bits flags OR mm_def_flags m OR
     VM_MAYREAD OR VM_MAYWRITE OR VM_MAYEXEC OR VM_AB_CONTROL OR VM_SHARED"

definition anon_map_type :: "word32 \<Rightarrow> addr \<Rightarrow> word32 \<Rightarrow> (word32 \<times> word32) option" where
  "anon_map_type flags a vmflags =
     (if flags AND MAP_TYPE = MAP_SHARED then Some (vmflags OR VM_SHARED OR VM_MAYSHARE, 0)
      else if flags AND MAP_TYPE = MAP_PRIVATE then Some (vmflags, pages a)
      else None)"

definition do_absys_mmap_pgoff ::
  "kenv \<Rightarrow> word32 \<Rightarrow> addr \<Rightarrow> word32 \<Rightarrow> word32 \<Rightarrow> word32 \<Rightarrow> word32 \<Rightarrow> (mm, word32) st" where
  "do_absys_mmap_pgoff env personality a0 len0 reqprot flags pgoff m =
     (let prot = implied_exec personality reqprot in
      if len0 = 0 then ret (- EINVAL, m)
      else let a1 = (if flags AND MAP_FIXED = 0 then round_hint_to_min env a0 else a0);
               len = PAGE_ALIGN len0 in
      if len = 0 \<or> len > TASK_SIZE then ret (- ENOMEM, m)
      else if pgoff + pages len < pgoff then ret (- EOVERFLOW, m)
      else if length (mm_mmap m) > ke_max_map_count env then ret (- ENOMEM, m)
      else if flags AND MAP_HUGETLB \<noteq> 0 then ke_hugetlb_mmap env a1 len prot flags pgoff m
      else let a = k_get_unmapped_area env a1 len pgoff flags in
      if a AND NOT PAGE_MASK \<noteq> 0 then ret (a, m)
      else let vmflags = ab_map_flags prot flags m in
      if flags AND MAP_LOCKED \<noteq> 0 \<and> \<not> can_do_mlock env then ret (- EPERM, m)
      else if vmflags AND VM_LOCKED \<noteq> 0 \<and> mlock_refused env len m then ret (- EAGAIN, m)
      else case anon_map_type flags a vmflags of
        None \<Rightarrow> ret (- EINVAL, m)
      | Some (vmflags, pgoff) \<Rightarrow>
          let err = ke_file_mmap env reqprot prot flags a False
          in if err \<noteq> 0 then ret (err, m)
             else absys_mmap_region env a len flags vmflags pgoff m)"

text \<open>
  The loop that fills the holes of \<open>[a, a + len)\<close>.  \<open>vma_tmp->vm_end\<close> is read after the hole in
  front of it was mapped; when that merged the VMA into its predecessor, the VMA was
  freed, which shows in a VMA that ends where it ended and starts before the hole.
\<close>

partial_function (option) propagate_loop ::
  "kenv \<Rightarrow> addr \<Rightarrow> word32 \<Rightarrow> word32 \<Rightarrow> word32 \<Rightarrow> word32 \<Rightarrow> addr \<Rightarrow> mm \<Rightarrow> (addr \<times> mm) res" where
  "propagate_loop env a len flags vmflags pgoff tmp m =
     (case find_vma_intersection (mm_mmap m) tmp (a + len) of
        None \<Rightarrow> ret (tmp, m)
      | Some v \<Rightarrow>
          bnd (if vm_start v > tmp \<and> vm_start v < a + len
               then propagate_region env tmp (vm_start v - tmp) flags vmflags pgoff m
               else ret (0, m)) (\<lambda>(_, m').
          let freed = vm_start v > tmp \<and>
                      list_ex (\<lambda>u. vm_end u = vm_end v \<and> vm_start u < tmp) (mm_mmap m');
              tmp' = (if freed then ke_freed_vm_end env v else vm_end v)
          in if tmp' \<ge> a + len then ret (tmp', m')
             else propagate_loop env a len flags vmflags pgoff tmp' m'))"

definition do_absys_vma_propagate ::
  "kenv \<Rightarrow> word32 \<Rightarrow> addr \<Rightarrow> word32 \<Rightarrow> word32 \<Rightarrow> word32 \<Rightarrow> word32 \<Rightarrow> (mm, word32) st" where
  "do_absys_vma_propagate env personality a len reqprot flags pgoff0 m =
     (let prot = implied_exec personality reqprot in
      if len = 0 then ret (- EINVAL, m)
      else let vmflags = ab_map_flags prot flags m AND 0xFFFFFFF0 in
      if flags AND MAP_LOCKED \<noteq> 0 \<and> \<not> can_do_mlock env then ret (- EPERM, m)
      else if vmflags AND VM_LOCKED \<noteq> 0 \<and> mlock_refused env len m then ret (- EAGAIN, m)
      else case anon_map_type flags a vmflags of
        None \<Rightarrow> ret (- EINVAL, m)
      | Some (vmflags, pgoff) \<Rightarrow>
          let err = ke_file_mmap env reqprot prot flags a False
          in if err \<noteq> 0 then ret (err, m)
             else bnd (propagate_loop env a len flags vmflags pgoff a m) (\<lambda>(tmp, m').
                  if tmp \<ge> a + len then ret (a, m')
                  else propagate_region env a len flags vmflags pgoff m'))"

section \<open>The system calls of the arbiter\<close>

text \<open>The check every call starts with: the caller is the arbiter of the target.\<close>

definition controls :: "pid \<Rightarrow> pid \<Rightarrow> bool kcall" where
  "controls current childpid =
     sb (get_task current) (\<lambda>cur.
     if \<not> is_arbiter cur then sret False
     else sb (find_my_arbiter childpid) (\<lambda>r. sret (r = Some current)))"

text \<open>The loop body for a sibling; its result is not looked at.\<close>

definition mmap_other ::
  "kenv \<Rightarrow> pid \<Rightarrow> pid \<Rightarrow> addr \<Rightarrow> word32 \<Rightarrow> word32 \<Rightarrow> word32 \<Rightarrow> word32 \<Rightarrow> pid \<Rightarrow> (kern, unit option) st" where
  "mmap_other env current childpid r len prot flags pgoff p =
     (if p = current \<or> p = childpid then sret None
      else sb (get_task p) (\<lambda>oth.
           sb (on_mm p (do_absys_vma_propagate env (tk_personality oth) r len prot flags pgoff)) (\<lambda>_.
           sret None)))"

definition sys_absys_mmap ::
  "kenv \<Rightarrow> pid \<Rightarrow> pid \<Rightarrow> addr \<Rightarrow> word32 \<Rightarrow> word32 \<Rightarrow> word32 \<Rightarrow> word32 \<Rightarrow> word32 kcall" where
  "sys_absys_mmap env current childpid a len prot flags0 pgoff =
     (let flags = flags0 AND NOT (MAP_EXECUTABLE OR MAP_DENYWRITE) in
      if flags AND MAP_ANONYMOUS = 0 then sret (- EINVAL)
      else sb (controls current childpid) (\<lambda>ok.
           if \<not> ok then sret (- EPERM)
           else sb (get_task childpid) (\<lambda>t.
           sb (on_mm childpid (do_absys_mmap_pgoff env (tk_personality t) a len prot flags pgoff)) (\<lambda>r.
           sb (for_ab_tasks childpid (mmap_other env current childpid r len prot flags pgoff)) (\<lambda>_.
           sret r)))))"

text \<open>
  \<^verbatim>\<open>sys_absys_brk\<close>.  \<open>brk_blocked\<close> is the body of its first loop, \<open>brk_grow\<close> of its second; both
  leave at \<^verbatim>\<open>bad_out\<close>.
\<close>

definition brk_blocked :: "pid \<Rightarrow> addr \<Rightarrow> addr \<Rightarrow> pid \<Rightarrow> (kern, unit option) st" where
  "brk_blocked current oldbrk newbrk p =
     (if p = current then sret None
      else sb (on_mm p (gets (\<lambda>m. find_vma_intersection (mm_mmap m) oldbrk (newbrk + PAGE_SIZE)))) (\<lambda>v.
           sret (if v \<noteq> None then Some () else None)))"

definition brk_grow :: "kenv \<Rightarrow> word32 \<Rightarrow> pid \<Rightarrow> addr \<Rightarrow> addr \<Rightarrow> pid \<Rightarrow> (kern, unit option) st" where
  "brk_grow env personality current oldbrk newbrk p =
     (if p = current then sret None
      else sb (on_mm p (gets (\<lambda>m. find_vma_intersection (mm_mmap m) oldbrk (newbrk + PAGE_SIZE)))) (\<lambda>v.
           if v \<noteq> None then sret (Some ())
           else sb (on_mm p (do_absys_brk env personality oldbrk (newbrk - oldbrk))) (\<lambda>r.
                sret (if r \<noteq> oldbrk then Some () else None))))"

definition sys_absys_brk :: "kenv \<Rightarrow> pid \<Rightarrow> pid \<Rightarrow> addr \<Rightarrow> word32 kcall" where
  "sys_absys_brk env current childpid ab_brk =
     sb (controls current childpid) (\<lambda>ok.
     if \<not> ok then sret (- EPERM)
     else
       sb (get_task current) (\<lambda>cur.
       sb (on_mm current (gets id)) (\<lambda>m.
       let newbrk = PAGE_ALIGN ab_brk; oldbrk = PAGE_ALIGN (mm_ab_brk m);
           set_ab_brk = sb (on_mm current (modify (\<lambda>m. m\<lparr>mm_ab_brk := ab_brk\<rparr>))) (\<lambda>_. sret ab_brk)
       in if ab_brk < mm_start_ab_brk m then sret (mm_ab_brk m)
          else if oldbrk = newbrk then set_ab_brk
          else sb (for_ab_tasks current (brk_blocked current oldbrk newbrk)) (\<lambda>bad.
               if bad \<noteq> None then sret (mm_ab_brk m)
               else sb (for_ab_tasks current (brk_grow env (tk_personality cur) current oldbrk newbrk)) (\<lambda>bad.
                    if bad \<noteq> None then sret (mm_ab_brk m) else set_ab_brk)))))"

text \<open>
  The loop of \<^verbatim>\<open>sys_absys_munmap\<close> over one sibling.  It unmaps whole VMAs and reads
  \<^verbatim>\<open>vma_tmp->vm_end\<close> after \<^verbatim>\<open>do_munmap\<close> freed the VMA.
\<close>

partial_function (option) munmap_sibling ::
  "kenv \<Rightarrow> addr \<Rightarrow> word32 \<Rightarrow> addr \<Rightarrow> mm \<Rightarrow> (word32 \<times> mm) res" where
  "munmap_sibling env a len tmp m =
     (case find_vma_intersection (mm_mmap m) tmp (a + len) of
        None \<Rightarrow> ret (0, m)
      | Some v \<Rightarrow>
          let gone = vm_start v < a + len \<and> is_abt_vma v
          in case if gone then do_munmap env (vm_start v) (vm_end v - vm_start v) m else (0, m) of
               (r, m') \<Rightarrow>
                 let tmp' = (if gone \<and> r = 0 then ke_freed_vm_end env v else vm_end v)
                 in if tmp' \<ge> a + len then ret (r, m') else munmap_sibling env a len tmp' m')"

definition munmap_other :: "kenv \<Rightarrow> pid \<Rightarrow> pid \<Rightarrow> addr \<Rightarrow> word32 \<Rightarrow> pid \<Rightarrow> (kern, word32 option) st" where
  "munmap_other env current childpid a len p =
     (if p = current \<or> p = childpid then sret None
      else sb (on_mm p (munmap_sibling env a len a)) (\<lambda>r.
           sret (if r <s 0 then Some r else None)))"

definition sys_absys_munmap :: "kenv \<Rightarrow> pid \<Rightarrow> pid \<Rightarrow> addr \<Rightarrow> word32 \<Rightarrow> word32 kcall" where
  "sys_absys_munmap env current childpid a len =
     sb (controls current childpid) (\<lambda>ok.
     if \<not> ok then sret (- EPERM)
     else
       sb (on_mm childpid (\<lambda>m. ret (do_munmap env a len m))) (\<lambda>r.
       if r <s 0 then sret r
       else sb (for_ab_tasks childpid (munmap_other env current childpid a len)) (\<lambda>bad.
            sret (case bad of None \<Rightarrow> 0 | Some r \<Rightarrow> r))))"

section \<open>Protection\<close>

text \<open>
  The loop of \<^verbatim>\<open>sys_absys_mprotect\<close> and \<^verbatim>\<open>sys_mprotect\<close> from the VMA that starts \<open>rest\<close> on.
  \<open>refuse\<close> is the check \<^verbatim>\<open>sys_mprotect\<close> makes at its start; \<open>refuse v = 0\<close> lets the VMA pass.
\<close>

partial_function (option) mprotect_loop ::
  "kenv \<Rightarrow> (vma \<Rightarrow> word32) \<Rightarrow> word32 \<Rightarrow> word32 \<Rightarrow> word32 \<Rightarrow> addr \<Rightarrow> addr \<Rightarrow> vma list \<Rightarrow> vma list \<Rightarrow> ptab
     \<Rightarrow> (word32 \<times> vma list \<times> ptab) res" where
  "mprotect_loop env refuse reqprot prot vmflags e nstart pre rest pt =
     (case rest of
        [] \<Rightarrow> fail Segv
      | v # post \<Rightarrow>
          if refuse v \<noteq> 0 then ret (refuse v, pre @ rest, pt)
          else let newflags = vmflags OR (vm_flags v AND NOT VM_RWX) in
          if (newflags AND NOT (drop_bit 4 newflags)) AND VM_RWX \<noteq> 0 then ret (- EACCES, pre @ rest, pt)
          else if ke_file_mprotect env v reqprot prot \<noteq> 0
          then ret (ke_file_mprotect env v reqprot prot, pre @ rest, pt)
          else let tmp = (if vm_end v > e then e else vm_end v) in
          bnd (mprotect_fixup env pre v post nstart tmp newflags pt) (\<lambda>(err, pre', w, post', pt').
          if err \<noteq> 0 then ret (err, pre' @ w # post', pt')
          else let nstart' = (if tmp < vm_end w then vm_end w else tmp) in
          if nstart' \<ge> e then ret (0, pre' @ w # post', pt')
          else case post' of
                 [] \<Rightarrow> ret (- ENOMEM, pre' @ w # post', pt')
               | n # _ \<Rightarrow>
                   if vm_start n \<noteq> nstart' then ret (- ENOMEM, pre' @ w # post', pt')
                   else mprotect_loop env refuse reqprot prot vmflags e nstart' (pre' @ [w]) post' pt'))"

text \<open>The range the loop starts with, or an error, by the \<^verbatim>\<open>PROT_GROWS\<close> bits.\<close>

definition mprotect_range :: "word32 \<Rightarrow> addr \<Rightarrow> addr \<Rightarrow> vma \<Rightarrow> word32 + addr \<times> addr" where
  "mprotect_range grows start e v =
     (if grows AND PROT_GROWSDOWN \<noteq> 0
      then if vm_start v \<ge> e then Inl (- ENOMEM)
           else if vm_flags v AND VM_GROWSDOWN = 0 then Inl (- EINVAL)
           else Inr (vm_start v, e)
      else if vm_start v > start then Inl (- ENOMEM)
      else if grows AND PROT_GROWSUP \<noteq> 0
      then if vm_flags v AND VM_GROWSUP = 0 then Inl (- EINVAL) else Inr (start, vm_end v)
      else Inr (start, e))"

definition mprotect_mm ::
  "kenv \<Rightarrow> (vma \<Rightarrow> word32) \<Rightarrow> word32 \<Rightarrow> addr \<Rightarrow> word32 \<Rightarrow> word32 \<Rightarrow> (mm, word32) st" where
  "mprotect_mm env refuse personality start len0 prot0 m =
     (let grows = prot0 AND (PROT_GROWSDOWN OR PROT_GROWSUP);
          reqprot = prot0 AND NOT (PROT_GROWSDOWN OR PROT_GROWSUP) in
      if grows = (PROT_GROWSDOWN OR PROT_GROWSUP) then ret (- EINVAL, m)
      else if start AND NOT PAGE_MASK \<noteq> 0 then ret (- EINVAL, m)
      else if len0 = 0 then ret (0, m)
      else let e = start + PAGE_ALIGN len0 in
      if e \<le> start then ret (- ENOMEM, m)
      else if \<not> arch_validate_prot reqprot then ret (- EINVAL, m)
      else let prot = implied_exec personality reqprot in
      case find_vma_prev (mm_mmap m) start of
        (pre, []) \<Rightarrow> ret (- ENOMEM, m)
      | (pre, v # post) \<Rightarrow>
          (case mprotect_range grows start e v of
             Inl err \<Rightarrow> ret (err, m)
           | Inr (start, e) \<Rightarrow>
               bnd (mprotect_loop env refuse reqprot prot (calc_vm_prot_bits prot) e start pre (v # post) (mm_pgd m))
                 (\<lambda>(err, xs, pt). ret (err, m\<lparr>mm_mmap := xs, mm_pgd := pt\<rparr>))))"

definition sys_absys_mprotect :: "kenv \<Rightarrow> pid \<Rightarrow> pid \<Rightarrow> addr \<Rightarrow> word32 \<Rightarrow> word32 \<Rightarrow> word32 kcall" where
  "sys_absys_mprotect env current childpid start len prot =
     sb (controls current childpid) (\<lambda>ok.
     if \<not> ok then sret (- EPERM)
     else sb (get_task childpid) (\<lambda>t.
          on_mm childpid (mprotect_mm env (\<lambda>_. 0) (tk_personality t) start len prot)))"

text \<open>The stock call, patched to refuse arbiter-controlled VMAs.\<close>

definition sys_mprotect :: "kenv \<Rightarrow> pid \<Rightarrow> addr \<Rightarrow> word32 \<Rightarrow> word32 \<Rightarrow> word32 kcall" where
  "sys_mprotect env current start len prot =
     sb (get_task current) (\<lambda>t.
     on_mm current (mprotect_mm env (\<lambda>v. if is_abt_vma v then - EACCES else 0)
       (tk_personality t) start len prot))"

text \<open>The stock \<^verbatim>\<open>munmap\<close>, which has no such check.\<close>

definition sys_munmap :: "kenv \<Rightarrow> pid \<Rightarrow> addr \<Rightarrow> word32 \<Rightarrow> word32 kcall" where
  "sys_munmap env current a len = on_mm current (\<lambda>m. ret (do_munmap env a len m))"

section \<open>Futex keys\<close>

text \<open>The address space in the key of a futex on an anonymous page (\<^verbatim>\<open>get_futex_key\<close>).\<close>

definition futex_key_mm :: "pid \<Rightarrow> addr \<Rightarrow> addr kcall" where
  "futex_key_mm current address =
     sb (get_task current) (\<lambda>t.
     sb (on_mm current (gets id)) (\<lambda>m.
     if is_special t \<and> mm_start_data m \<le> address \<and> address < mm_start_brk m
     then sb (sguard Assert_failed (ab_tgleader_mm t \<noteq> 0)) (\<lambda>_. sret (ab_tgleader_mm t))
     else sret (tk_mm t)))"

end
