(* ===== verification/Kernel_Pages.thy ===== *)
theory Kernel_Pages
  imports Kernel_Absys
begin

text \<open>
  Faults on arbiter-controlled areas (\<^verbatim>\<open>arch/x86/mm/fault.c\<close>, \<^verbatim>\<open>mm/memory.c\<close>) and the copy of an address
  space at a fork (\<^verbatim>\<open>kernel/fork.c\<close>, \<^verbatim>\<open>mm/memory.c\<close>).  Reverse maps, counters, the TLB and the contents
  of pages are left out.
\<close>

section \<open>Page faults\<close>

datatype fault =
    Bad_area                 \<comment> \<open>\<^verbatim>\<open>bad_area\<close>: no VMA at the address\<close>
  | Bad_access               \<comment> \<open>\<^verbatim>\<open>bad_area_access_error\<close>\<close>
  | Fault_oom                \<comment> \<open>\<^verbatim>\<open>VM_FAULT_OOM\<close>\<close>
  | Fault_pte pte            \<comment> \<open>the entry is installed\<close>
  | Fault_swap               \<comment> \<open>left to \<^verbatim>\<open>do_swap_page\<close> or \<^verbatim>\<open>do_nonlinear_fault\<close>\<close>
  | Fault_stock              \<comment> \<open>not an arbiter-controlled VMA, or huge pages: the unpatched path\<close>

definition access_error :: "bool \<Rightarrow> bool \<Rightarrow> vma \<Rightarrow> bool" where
  "access_error present wrt v \<longleftrightarrow>
     (if wrt then vm_flags v AND VM_WRITE = 0
      else present \<or> vm_flags v AND (VM_READ OR VM_EXEC OR VM_WRITE) = 0)"

text \<open>The entry of the page at an address, and \<^verbatim>\<open>set_pte_at\<close>.\<close>

definition pte_at :: "pid \<Rightarrow> addr \<Rightarrow> (kern, pte) st" where
  "pte_at current address = on_mm current (gets (\<lambda>m. mm_pgd m (address AND PAGE_MASK)))"

definition install_pte :: "pid \<Rightarrow> addr \<Rightarrow> fault \<Rightarrow> (kern, fault) st" where
  "install_pte current address out =
     (case out of
        Fault_pte e \<Rightarrow> sb (on_mm current (modify (\<lambda>m. m\<lparr>mm_pgd := (mm_pgd m)(address AND PAGE_MASK := e)\<rparr>))) (\<lambda>_. sret out)
      | _ \<Rightarrow> sret out)"

definition abmap_get_page :: "kenv \<Rightarrow> pid \<Rightarrow> addr \<Rightarrow> (kern, word32 option) st" where
  "abmap_get_page env current address =
     sb (get_task current) (\<lambda>tsk.
     sb (sguard Assert_failed (is_special tsk)) (\<lambda>_.
     sb (find_my_arbiter current) (\<lambda>r.
     case r of
       None \<Rightarrow> sfail Assert_failed
     | Some p \<Rightarrow>
         sb (get_task p) (\<lambda>abt.
         sb (sguard Assert_failed (tk_mm abt \<noteq> 0)) (\<lambda>_.
         sret (ke_get_user_pages env (tk_mm abt) address))))))"

definition do_abt_anon_page :: "kenv \<Rightarrow> pid \<Rightarrow> vma \<Rightarrow> addr \<Rightarrow> (kern, fault) st" where
  "do_abt_anon_page env current v address =
     (if \<not> ke_anon_vma_prepare env v then sret Fault_oom
      else sb (abmap_get_page env current address) (\<lambda>page.
           case page of
             None \<Rightarrow> sret Fault_oom
           | Some pfn \<Rightarrow>
               if \<not> ke_cgroup_charge env pfn then sret Fault_oom
               else let entry = pfn_pte env pfn (vm_page_prot v)
                    in install_pte current address
                         (Fault_pte (if vm_flags v AND VM_WRITE \<noteq> 0 then pte_mkwrite (pte_mkdirty entry) else entry))))"

definition vm_normal_page :: "kenv \<Rightarrow> pte \<Rightarrow> word32 option" where
  "vm_normal_page env e =
     (if pte_special e \<or> pte_pfn e > ke_max_pfn env then None else Some (pte_pfn e))"

text \<open>
  \<^verbatim>\<open>do_wp_page\<close> on an arbiter-controlled VMA, whose \<^verbatim>\<open>ab_vm_ops\<close> have no \<^verbatim>\<open>page_mkwrite\<close>: the frame is
  kept and made writable, or replaced by a copy.
\<close>

definition wp_reuse :: "kenv \<Rightarrow> vma \<Rightarrow> pte \<Rightarrow> bool" where
  "wp_reuse env v e \<longleftrightarrow>
     (let shared = vm_flags v AND (VM_WRITE OR VM_SHARED) = VM_WRITE OR VM_SHARED
      in case vm_normal_page env e of
           None \<Rightarrow> shared
         | Some page \<Rightarrow> if ke_page_anon env page then ke_reuse_swap_page env page else shared)"

definition do_wp_page :: "kenv \<Rightarrow> vma \<Rightarrow> addr \<Rightarrow> pte \<Rightarrow> fault" where
  "do_wp_page env v address e =
     (if wp_reuse env v e then Fault_pte (maybe_mkwrite v (pte_mkdirty (pte_mkyoung e)))
      else if \<not> ke_anon_vma_prepare env v then Fault_oom
      else case ke_alloc_page env address of
             None \<Rightarrow> Fault_oom
           | Some new_page \<Rightarrow>
               if \<not> ke_cgroup_charge env new_page then Fault_oom
               else Fault_pte (maybe_mkwrite v (pte_mkdirty (pfn_pte env new_page (vm_page_prot v)))))"

definition handle_pte_fault :: "kenv \<Rightarrow> pid \<Rightarrow> vma \<Rightarrow> addr \<Rightarrow> bool \<Rightarrow> (kern, fault) st" where
  "handle_pte_fault env current v address wrt =
     sb (pte_at current address) (\<lambda>entry.
     if \<not> pte_present entry
     then if pte_none entry
          then if is_abt_vma v then do_abt_anon_page env current v address else sret Fault_stock
          else sret Fault_swap
     else if wrt then install_pte current address (do_wp_page env v address entry)
     else install_pte current address (Fault_pte (pte_mkyoung entry)))"

text \<open>\<^verbatim>\<open>handle_mm_fault\<close>: the levels of the page table down to the entry may have to be allocated.\<close>

definition handle_mm_fault :: "kenv \<Rightarrow> pid \<Rightarrow> vma \<Rightarrow> addr \<Rightarrow> bool \<Rightarrow> (kern, fault) st" where
  "handle_mm_fault env current v address wrt =
     (if vm_flags v AND VM_HUGETLB \<noteq> 0 then sret Fault_stock
      else if \<not> ke_pte_alloc env address then sret Fault_oom
      else handle_pte_fault env current v address wrt)"

definition handle_abt_vmfault :: "kenv \<Rightarrow> pid \<Rightarrow> vma \<Rightarrow> bool \<Rightarrow> bool \<Rightarrow> addr \<Rightarrow> (kern, fault) st" where
  "handle_abt_vmfault env current v present wrt address =
     sb (get_task current) (\<lambda>tsk.
     sb (sguard Assert_failed (is_special tsk)) (\<lambda>_.
     if access_error present wrt v then sret Bad_access
     else handle_mm_fault env current v address wrt))"

text \<open>\<^verbatim>\<open>do_page_fault\<close> from the lookup of the VMA to the dispatch on it.\<close>

definition do_page_fault :: "kenv \<Rightarrow> pid \<Rightarrow> bool \<Rightarrow> bool \<Rightarrow> addr \<Rightarrow> (kern, fault) st" where
  "do_page_fault env current present wrt address =
     sb (on_mm current (gets (\<lambda>m. find_vma (mm_mmap m) address))) (\<lambda>r.
     case r of
       None \<Rightarrow> sret Bad_area
     | Some v \<Rightarrow>
         if is_abt_vma v \<and> vm_start v \<le> address
         then handle_abt_vmfault env current v present wrt address
         else sret Fault_stock)"

section \<open>Copying an address space\<close>

definition is_cow_mapping :: "word32 \<Rightarrow> bool" where
  "is_cow_mapping flags \<longleftrightarrow> flags AND (VM_SHARED OR VM_MAYWRITE OR VM_AB_CONTROL) = VM_MAYWRITE"

text \<open>
  \<^verbatim>\<open>copy_one_pte\<close>: the entry for the child and the one left to the parent.  \<open>special\<close> is
  \<^verbatim>\<open>is_special(current)\<close>, \<open>owner\<close> is \<^verbatim>\<open>current == src_mm->owner\<close>.  Without page migration an entry
  that is not present is copied as it is.
\<close>

definition copy_one_pte :: "bool \<Rightarrow> bool \<Rightarrow> mm \<Rightarrow> word32 \<Rightarrow> addr \<Rightarrow> pte \<Rightarrow> (pte \<times> pte) res" where
  "copy_one_pte special owner src_mm flags a e =
     (if \<not> pte_present e then ret (e, e)
      else bnd (if is_cow_mapping flags
                then if special \<and> mm_start_data src_mm \<le> a \<and> a < mm_start_brk src_mm
                     then bnd (guard Assert_failed owner) (\<lambda>_. ret (e, e))
                     else ret (pte_wrprotect e, pte_wrprotect e)
                else ret (e, e)) (\<lambda>(pte, src_pte).
           let pte = (if flags AND VM_SHARED \<noteq> 0 then pte_mkclean pte else pte)
           in ret (pte_mkold pte, src_pte)))"

partial_function (option) copy_pte_range ::
  "kenv \<Rightarrow> bool \<Rightarrow> bool \<Rightarrow> mm \<Rightarrow> word32 \<Rightarrow> addr \<Rightarrow> addr \<Rightarrow> ptab \<Rightarrow> ptab \<Rightarrow> (word32 \<times> ptab \<times> ptab) res" where
  "copy_pte_range env special owner src_mm flags a e src dst =
     (if \<not> ke_pte_alloc env a then ret (- ENOMEM, src, dst)
      else bnd (if pte_none (src a) then ret (src, dst)
                else bnd (copy_one_pte special owner src_mm flags a (src a)) (\<lambda>(d, s).
                     ret (src(a := s), dst(a := d)))) (\<lambda>(src', dst').
           if a + PAGE_SIZE = e then ret (0, src', dst')
           else copy_pte_range env special owner src_mm flags (a + PAGE_SIZE) e src' dst'))"

definition copy_page_range :: "kenv \<Rightarrow> bool \<Rightarrow> bool \<Rightarrow> mm \<Rightarrow> vma \<Rightarrow> ptab \<Rightarrow> ptab \<Rightarrow> (word32 \<times> ptab \<times> ptab) res" where
  "copy_page_range env special owner src_mm v src dst =
     (if vm_flags v AND (VM_HUGETLB OR VM_NONLINEAR OR VM_PFNMAP OR VM_INSERTPAGE) = 0 \<and> anon_vma v = 0 then ret (0, src, dst)
      else if vm_flags v AND VM_HUGETLB \<noteq> 0 then (case ke_hugetlb_copy env v src dst of (r, d) \<Rightarrow> ret (r, src, d))
      else if vm_flags v AND VM_PFNMAP \<noteq> 0 \<and> ke_track_pfn env v \<noteq> 0 then ret (ke_track_pfn env v, src, dst)
      else copy_pte_range env special owner src_mm (vm_flags v) (vm_start v) (vm_end v) src dst)"

fun dup_vmas ::
  "kenv \<Rightarrow> bool \<Rightarrow> bool \<Rightarrow> mm \<Rightarrow> vma list \<Rightarrow> mm \<Rightarrow> ptab \<Rightarrow> ptab \<Rightarrow> (word32 \<times> mm \<times> ptab \<times> ptab) res" where
  "dup_vmas env special owner oldmm [] m src dst = ret (0, m, src, dst)"
| "dup_vmas env special owner oldmm (mpnt # vs) m src dst =
     (if vm_flags mpnt AND VM_DONTCOPY \<noteq> 0
      then dup_vmas env special owner oldmm vs (m\<lparr>mm_total_vm := mm_total_vm m - vma_pages mpnt\<rparr>) src dst
      else if vm_flags mpnt AND VM_ACCOUNT \<noteq> 0 \<and> \<not> ke_enough_memory env (vma_pages mpnt)
      then ret (- ENOMEM, m, src, dst)
      else if \<not> ke_vma_alloc env (mm_mmap m) \<or> ke_mpol_dup env mpnt \<noteq> 0 then ret (- ENOMEM, m, src, dst)
      else let m' = m\<lparr>mm_mmap := mm_mmap m @ [mpnt\<lparr>vm_flags := vm_flags mpnt AND NOT VM_LOCKED\<rparr>]\<rparr>
           in bnd (copy_page_range env special owner oldmm mpnt src dst) (\<lambda>(retval, src', dst').
              if retval \<noteq> 0 then ret (retval, m', src', dst')
              else dup_vmas env special owner oldmm vs m' src' dst'))"

text \<open>\<^verbatim>\<open>dup_mmap\<close> gives the error, the new address space, and the old one with the entries the copy left in it.\<close>

definition dup_mmap :: "kenv \<Rightarrow> bool \<Rightarrow> bool \<Rightarrow> mm \<Rightarrow> (word32 \<times> mm \<times> mm) res" where
  "dup_mmap env special owner oldmm =
     (let m = oldmm\<lparr>mm_mmap := [], mm_locked_vm := 0, mm_pgd := \<lambda>_. 0\<rparr>
      in if ke_ksm_fork env \<noteq> 0 then ret (ke_ksm_fork env, m, oldmm)
         else bnd (dup_vmas env special owner oldmm (mm_mmap oldmm) m (mm_pgd oldmm) (mm_pgd m)) (\<lambda>(retval, m', src, dst).
              ret (retval, m'\<lparr>mm_pgd := dst\<rparr>, oldmm\<lparr>mm_pgd := src\<rparr>)))"

end
