(* ===== verification/VMA_Ops.thy ===== *)
theory VMA_Ops
  imports Kernel_VMA
begin

text \<open>
  What unmapping, merging and re-flagging do to an address space, stated on the map
  from addresses to flags (\<open>flags_at\<close>): \<^verbatim>\<open>do_munmap\<close> empties its range, the eight cases of
  \<^verbatim>\<open>vma_merge\<close> and the splits of \<open>fixup_areas\<close> put the new flags on their range, and
  nothing else changes.
\<close>

section \<open>Unmapping\<close>

lemma errno_neq [simp]: "EINVAL \<noteq> 0" "ENOMEM \<noteq> 0" "EPERM \<noteq> 0" "EACCES \<noteq> 0"
  by (simp_all add: EINVAL_def ENOMEM_def EPERM_def EACCES_def)

lemma split_vma_nz: "split_vma env xs v a = Inl err \<Longrightarrow> err \<noteq> 0"
  by (auto simp: split_vma_def split: if_splits)

lemma split_vma_Inr:
  assumes "split_vma env xs v a = Inr (lo, up)"
  shows "lo = v\<lparr>vm_end := a\<rparr>" "up = v\<lparr>vm_start := a, vm_pgoff := vm_pgoff v + pages (a - vm_start v)\<rparr>"
  using assms by (auto simp: split_vma_def split: if_splits)

lemma split_keeps:
  assumes "split_vma env xs v a = Inr (lo, up)" "vmas_ok (pre @ v # post)"
    "vm_start v < a" "a < vm_end v" "page_aligned a"
  shows "vmas_ok (pre @ lo # up # post)" "flags_at (pre @ lo # up # post) = flags_at (pre @ v # post)"
    "vm_end lo = a" "vm_start up = a" "vm_end up = vm_end v" "vm_start lo = vm_start v"
    "vm_flags lo = vm_flags v" "vm_flags up = vm_flags v"
  using assms(2-) unfolding split_vma_Inr [OF assms(1)]
  by (auto simp: vma_ok_def not_less not_le split: option.splits intro!: ext)

lemma munmap_range:
  assumes "start \<le> TASK_SIZE" "len \<le> TASK_SIZE - start" "PAGE_ALIGN len \<noteq> 0" "page_aligned start"
  shows "start < start + PAGE_ALIGN len" "start + PAGE_ALIGN len \<le> TASK_SIZE"
    "page_aligned (start + PAGE_ALIGN len)"
proof -
  have s: "unat start \<le> 0xC0000000" and l: "unat len \<le> 0xC0000000 - unat start"
    using assms(1,2) by (simp_all add: TASK_SIZE_def word_le_nat_alt unat_sub)
  obtain k where k: "unat start = 4096 * k" using assms(4) by (auto simp: page_aligned_iff)
  have a: "unat (PAGE_ALIGN len) = (unat len + 4095) div 4096 * 4096"
    using l by (intro unat_PAGE_ALIGN) simp
  have "(unat len + 4095) div 4096 * 4096 \<le> 0xC0000000 - unat start"
  proof -
    have "unat len \<le> 4096 * (0xC0000 - k)" using l k by simp
    then have "(unat len + 4095) div 4096 \<le> 0xC0000 - k" by simp
    then show ?thesis using k by simp
  qed
  with a s have b: "unat start + unat (PAGE_ALIGN len) \<le> 0xC0000000" by simp
  then have u: "unat (start + PAGE_ALIGN len) = unat start + unat (PAGE_ALIGN len)"
    by (simp add: unat_word_ariths)
  show "start < start + PAGE_ALIGN len"
    using u assms(3) by (simp add: word_less_nat_alt unat_gt_0)
  show "start + PAGE_ALIGN len \<le> TASK_SIZE"
    using u b by (simp add: word_le_nat_alt TASK_SIZE_def)
  show "page_aligned (start + PAGE_ALIGN len)"
    using assms(4) by (simp add: page_aligned_add)
qed

lemma munmap_start_keeps:
  assumes "munmap_split_start env s pre v post = Inr (pre', rest')" "vmas_ok (pre @ v # post)"
    "s < vm_end v" "page_aligned s" "\<forall>w \<in> set pre. vm_end w \<le> s" "s < e" "vm_start v < e"
  shows "vmas_ok (pre' @ rest')" "flags_at (pre' @ rest') = flags_at (pre @ v # post)"
    "\<forall>w \<in> set pre'. vm_end w \<le> s" "\<forall>w \<in> set rest'. s \<le> vm_start w"
    "rest' \<noteq> []" "vm_start (hd rest') < e"
proof -
  have "vmas_ok (pre' @ rest') \<and> flags_at (pre' @ rest') = flags_at (pre @ v # post) \<and>
    (\<forall>w \<in> set pre'. vm_end w \<le> s) \<and> (\<forall>w \<in> set rest'. s \<le> vm_start w) \<and> rest' \<noteq> [] \<and>
    vm_start (hd rest') < e"
  proof (cases "s > vm_start v")
    case True
    with assms(1) obtain lo up where sp: "split_vma env (pre @ v # post) v s = Inr (lo, up)"
      and eq: "pre' = pre @ [lo]" "rest' = up # post"
      by (auto simp: munmap_split_start_def split: sum.splits)
    note k = split_keeps [OF sp assms(2) True assms(3,4)]
    have "s \<le> vm_start w" if "w \<in> set post" for w
      using assms(2,3) that by fastforce
    with k True assms(3,5,6) show ?thesis
      by (simp add: eq)
  next
    case False
    with assms(1) have eq: "pre' = pre" "rest' = v # post"
      by (auto simp: munmap_split_start_def)
    have "s \<le> vm_start w" if "w \<in> set post" for w
      using assms(2,3) that by fastforce
    with False assms(2,3,5,7) show ?thesis by (auto simp: eq dest: vma_okD)
  qed
  then show "vmas_ok (pre' @ rest')" "flags_at (pre' @ rest') = flags_at (pre @ v # post)"
    "\<forall>w \<in> set pre'. vm_end w \<le> s" "\<forall>w \<in> set rest'. s \<le> vm_start w"
    "rest' \<noteq> []" "vm_start (hd rest') < e"
    by blast+
qed

lemma munmap_end_keeps:
  assumes "munmap_split_end env e (pre @ rest) = Inr ys" "vmas_ok (pre @ rest)" "page_aligned e"
    "\<forall>w \<in> set pre. vm_end w \<le> s" "\<forall>w \<in> set rest. s \<le> vm_start w" "s < e"
    "rest \<noteq> []" "vm_start (hd rest) < e"
  obtains w ws where "ys = pre @ w # ws" "vmas_ok ys" "flags_at ys = flags_at (pre @ rest)"
    "\<forall>x \<in> set (w # ws). s \<le> vm_start x \<and> (vm_start x < e \<longrightarrow> vm_end x \<le> e)" "vm_start w < e"
proof -
  define b where "b = takeWhile (\<lambda>v. vm_end v \<le> e) rest"
  define after where "after = dropWhile (\<lambda>v. vm_end v \<le> e) rest"
  have rest: "rest = b @ after" by (simp add: b_def after_def)
  have "\<forall>w \<in> set pre. vm_end w \<le> e" using assms(4,6) by (meson less_imp_le order_trans)
  then have fp: "find_vma_prev (pre @ rest) e = (pre @ b, after)"
    by (simp add: find_vma_prev_def b_def after_def takeWhile_append2 dropWhile_append2)
  note sp = find_vma_prev_split [OF fp]
  show thesis
  proof (cases "\<exists>l as. after = l # as \<and> e > vm_start l")
    case True
    then obtain l as where af: "after = l # as" and l: "e > vm_start l" by blast
    with assms(1) fp obtain lo up where s: "split_vma env (pre @ rest) l e = Inr (lo, up)"
      and eq: "ys = (pre @ b) @ lo # up # as"
      by (auto simp: munmap_split_end_def split: sum.splits)
    have ok: "vmas_ok ((pre @ b) @ l # as)" using assms(2) rest af by simp
    have le: "e < vm_end l" using sp(3) af by simp
    note k = split_keeps [OF s ok l le assms(3)]
    have "\<not> vm_start w < e" if "w \<in> set as" for w
      using ok le that by (fastforce simp: not_less)
    then have all: "\<forall>x \<in> set (b @ lo # up # as). s \<le> vm_start x \<and> (vm_start x < e \<longrightarrow> vm_end x \<le> e)"
      using sp(2) assms(5,6) k by (auto simp: rest af)
    obtain w ws where w: "b @ lo # up # as = w # ws" by (cases "b @ lo # up # as") auto
    then have "vm_start w < e" using assms(8) k(6) l by (cases b) (auto simp: rest)
    then show thesis
      using that [of w ws] k(1,2) all w unfolding eq rest af append_assoc by simp
  next
    case False
    with assms(1) fp have eq: "ys = pre @ rest"
      by (auto simp: munmap_split_end_def split: list.splits)
    have "\<not> vm_start w < e" if w: "w \<in> set after" for w
    proof -
      obtain l as where af: "after = l # as" using w by (cases after) auto
      with False have "e \<le> vm_start l" by auto
      moreover have "vmas_ok (l # as)" using assms(2) rest af by simp
      ultimately show ?thesis using w af by (fastforce simp: not_less dest: vma_okD)
    qed
    then have all: "\<forall>x \<in> set rest. s \<le> vm_start x \<and> (vm_start x < e \<longrightarrow> vm_end x \<le> e)"
      using sp(2) assms(5) by (auto simp: rest)
    obtain w ws where w: "rest = w # ws" using assms(7) by (cases rest) auto
    show thesis
      using that [of w ws] assms(2,8) all eq w by simp
  qed
qed

lemma detached_split:
  assumes "vmas_ok (pre @ v # vs)" "\<forall>x \<in> set (v # vs). s \<le> vm_start x \<and> (vm_start x < e \<longrightarrow> vm_end x \<le> e)" "vm_start v < e"
  defines "gone \<equiv> detached e (v # vs)" and "keep \<equiv> dropWhile (\<lambda>w. vm_start w < e) vs"
  shows "v # vs = gone @ keep" "\<And>w. w \<in> set gone \<Longrightarrow> s \<le> vm_start w \<and> vm_end w \<le> e" "\<And>w. w \<in> set keep \<Longrightarrow> e \<le> vm_start w"
proof -
  show vs: "v # vs = gone @ keep" by (simp add: gone_def keep_def detached_def)
  have "vm_start w < e" if "w \<in> set gone" for w
    using that assms(3) by (auto simp: gone_def detached_def dest: set_takeWhileD)
  then show "s \<le> vm_start w \<and> vm_end w \<le> e" if "w \<in> set gone" for w
    using assms(2) that unfolding vs by auto
  show "e \<le> vm_start w" if w: "w \<in> set keep" for w
  proof -
    obtain x ks where x: "keep = x # ks" using w by (cases keep) auto
    then have "e \<le> vm_start x" using hd_dropWhile [of "\<lambda>w. vm_start w < e" vs] by (simp add: keep_def)
    moreover have "vmas_ok (x # ks)" using assms(1) unfolding vs x by simp
    ultimately show ?thesis using w x by (fastforce dest: vma_okD)
  qed
qed

lemma detach_keeps:
  assumes "vmas_ok (pre @ v # vs)" "\<forall>w \<in> set pre. vm_end w \<le> s"
    "\<forall>x \<in> set (v # vs). s \<le> vm_start x \<and> (vm_start x < e \<longrightarrow> vm_end x \<le> e)" "vm_start v < e"
  defines "ys \<equiv> pre @ dropWhile (\<lambda>w. vm_start w < e) vs"
  shows "vmas_ok ys" "flags_at ys = put_range (flags_at (pre @ v # vs)) s e None"
    "vmas_ok (detached e (v # vs))"
    "flags_at (detached e (v # vs)) = (\<lambda>x. if s \<le> x \<and> x < e then flags_at (pre @ v # vs) x else None)"
proof -
  define gone keep where "gone = detached e (v # vs)" and "keep = dropWhile (\<lambda>w. vm_start w < e) vs"
  note d = detached_split [OF assms(1,3,4), folded gone_def keep_def]
  have ys: "ys = pre @ keep" by (simp add: ys_def keep_def)
  have "vmas_ok (pre @ gone @ keep)" using assms(1) unfolding d(1) .
  then show "vmas_ok ys" "vmas_ok (detached e (v # vs))" unfolding ys gone_def [symmetric] by auto
  have pre: "flags_at pre a = None" if "s \<le> a" for a
    using assms(2) that by (intro flags_at_below) fastforce
  have keep: "flags_at keep a = None" if "a < e" for a
    using d(3) that by (intro flags_at_above) fastforce
  have gone: "flags_at gone a = None" if "a < s \<or> e \<le> a" for a
    using d(2) that unfolding flags_at_None by (meson leD le_less_trans less_le_trans)
  show "flags_at ys = put_range (flags_at (pre @ v # vs)) s e None"
    unfolding ys d(1) put_range_def
    using pre keep gone by (intro ext) (auto simp: not_less not_le split: option.splits)
  have "flags_at gone = (\<lambda>x. if s \<le> x \<and> x < e then flags_at (pre @ v # vs) x else None)"
    unfolding d(1) using pre keep gone by (intro ext) (auto simp: not_less not_le split: option.splits)
  then show "flags_at (detached e (v # vs)) = (\<lambda>x. if s \<le> x \<and> x < e then flags_at (pre @ v # vs) x else None)"
    unfolding gone_def .
qed

text \<open>The page table after an unmapping: \<^verbatim>\<open>unmap_vmas\<close> has run on what was mapped in the range.\<close>

definition pages_unmapped :: "kenv \<Rightarrow> addr \<Rightarrow> addr \<Rightarrow> mm \<Rightarrow> mm \<Rightarrow> bool" where
  "pages_unmapped env s e m m' \<longleftrightarrow>
     (\<exists>gone. vmas_ok gone \<and> flags_at gone = (\<lambda>x. if s \<le> x \<and> x < e then flags_at (mm_mmap m) x else None) \<and>
        mm_pgd m' = unmap_vmas env s e gone (mm_pgd m))"

lemma munmap_split_nz:
  "munmap_split_start env s pre v post = Inl err \<Longrightarrow> err \<noteq> 0"
  "munmap_split_end env e xs = Inl err \<Longrightarrow> err \<noteq> 0"
  by (auto simp: munmap_split_start_def munmap_split_end_def
      split: if_splits sum.splits prod.splits list.splits dest: split_vma_nz)

lemma flags_at_gap:
  assumes "vmas_ok (pre @ rest)" "\<forall>w \<in> set pre. vm_end w \<le> s"
    "rest = [] \<or> e \<le> vm_start (hd rest)" "s \<le> a" "a < e"
  shows "flags_at (pre @ rest) a = None"
proof -
  have "flags_at pre a = None" using assms(2,4) by (intro flags_at_below) fastforce
  moreover have "e \<le> vm_start w" if "w \<in> set rest" for w
    using assms(1,3) that by (cases rest) (auto dest!: vma_okD)
  then have "flags_at rest a = None" using assms(5) by (intro flags_at_above) fastforce
  ultimately show ?thesis by simp
qed

lemma munmap_found_keeps:
  assumes "vmas_ok (mm_mmap m)" "find_vma_prev (mm_mmap m) s = (pre, v # post)"
    "vm_start v < e" "s < e" "page_aligned s" "page_aligned e"
    "munmap_found env s e pre v post m = (r, m')"
  shows "vmas_ok (mm_mmap m')"
    "flags_at (mm_mmap m') =
      (if r = 0 then put_range (flags_at (mm_mmap m)) s e None else flags_at (mm_mmap m))"
    "if r = 0 then pages_unmapped env s e m m' else mm_pgd m' = mm_pgd m"
proof -
  note sp = find_vma_prev_split [OF assms(2)]
  have ok: "vmas_ok (pre @ v # post)" and sv: "s < vm_end v" using assms(1) sp by auto
  have "vmas_ok (mm_mmap m') \<and> flags_at (mm_mmap m') =
      (if r = 0 then put_range (flags_at (mm_mmap m)) s e None else flags_at (mm_mmap m)) \<and>
      (if r = 0 then pages_unmapped env s e m m' else mm_pgd m' = mm_pgd m)"
  proof (cases "munmap_split_start env s pre v post")
    case (Inl err)
    then show ?thesis
      using assms(1,7) munmap_split_nz(1) [OF Inl] by (auto simp: munmap_found_def)
  next
    case (Inr pr)
    then obtain pre' rest' where pr: "munmap_split_start env s pre v post = Inr (pre', rest')"
      by (cases pr) auto
    note st = munmap_start_keeps [OF pr ok sv assms(5) sp(2) assms(4,3)]
    show ?thesis
    proof (cases "munmap_split_end env e (pre' @ rest')")
      case (Inl err)
      then show ?thesis
        using assms(7) pr munmap_split_nz(2) [OF Inl] st(1,2) sp(1) by (auto simp: munmap_found_def)
    next
      case (Inr ys)
      obtain w ws where en: "ys = pre' @ w # ws" "vmas_ok ys" "flags_at ys = flags_at (pre' @ rest')"
        "\<forall>x \<in> set (w # ws). s \<le> vm_start x \<and> (vm_start x < e \<longrightarrow> vm_end x \<le> e)" "vm_start w < e"
        by (rule munmap_end_keeps [OF Inr st(1) assms(6) st(3,4) assms(4) st(5,6)])
      have "r = 0" and m': "mm_mmap m' = pre' @ dropWhile (\<lambda>w. vm_start w < e) ws"
        "mm_pgd m' = unmap_vmas env s e (detached e (w # ws)) (mm_pgd m)"
        using assms(7) pr Inr en(1) by (auto simp: munmap_found_def detach_vmas_to_be_unmapped_def unmap_region_def Let_def)
      note d = detach_keeps [OF en(2) [unfolded en(1)] st(3) en(4,5)]
      have fl: "flags_at (pre' @ w # ws) = flags_at (mm_mmap m)" using en(3) [unfolded en(1)] st(2) sp(1) by simp
      have "pages_unmapped env s e m m'"
        using d(3,4) m'(2) unfolding pages_unmapped_def fl by blast
      then show ?thesis using d(1,2) \<open>r = 0\<close> unfolding m'(1) fl by simp
    qed
  qed
  then show "vmas_ok (mm_mmap m')"
    "flags_at (mm_mmap m') =
      (if r = 0 then put_range (flags_at (mm_mmap m)) s e None else flags_at (mm_mmap m))"
    "if r = 0 then pages_unmapped env s e m m' else mm_pgd m' = mm_pgd m"
    by blast+
qed

lemma do_munmap_keeps:
  assumes "vmas_ok (mm_mmap m)" "do_munmap env s len m = (r, m')"
  shows "vmas_ok (mm_mmap m')"
    "flags_at (mm_mmap m') =
      (if r = 0 then put_range (flags_at (mm_mmap m)) s (s + PAGE_ALIGN len) None
       else flags_at (mm_mmap m))"
    "if r = 0 then pages_unmapped env s (s + PAGE_ALIGN len) m m' else mm_pgd m' = mm_pgd m"
proof -
  let ?e = "s + PAGE_ALIGN len"
  have "vmas_ok (mm_mmap m') \<and> flags_at (mm_mmap m') =
      (if r = 0 then put_range (flags_at (mm_mmap m)) s ?e None else flags_at (mm_mmap m)) \<and>
      (if r = 0 then pages_unmapped env s ?e m m' else mm_pgd m' = mm_pgd m)"
  proof (cases "s AND NOT PAGE_MASK \<noteq> 0 \<or> s > TASK_SIZE \<or> len > TASK_SIZE - s \<or> PAGE_ALIGN len = 0")
    case True
    then have "r = - EINVAL" "m' = m"
      using assms(2) by (auto simp: do_munmap_def split: if_splits)
    then show ?thesis using assms(1) by simp
  next
    case False
    then have al: "page_aligned s" by (simp add: page_aligned_def)
    have rng: "s < ?e" "page_aligned ?e"
      using munmap_range [OF _ _ _ al, of len] False by (simp_all add: not_less)
    obtain pre rest where fp: "find_vma_prev (mm_mmap m) s = (pre, rest)"
      by (cases "find_vma_prev (mm_mmap m) s")
    note sp = find_vma_prev_split [OF fp]
    show ?thesis
    proof (cases "rest = [] \<or> ?e \<le> vm_start (hd rest)")
      case True
      then have "r = 0" "m' = m"
        using assms(2) False fp by (auto simp: do_munmap_def Let_def split: list.splits)
      moreover have "flags_at (mm_mmap m) = put_range (flags_at (mm_mmap m)) s ?e None"
        using flags_at_gap [OF _ sp(2) True] assms(1) unfolding sp(1) put_range_def by (intro ext) auto
      moreover have "pages_unmapped env s ?e m m"
        unfolding pages_unmapped_def using flags_at_gap [OF _ sp(2) True] assms(1) unfolding sp(1)
        by (intro exI [of _ "[]"]) (auto intro!: ext)
      ultimately show ?thesis using assms(1) by simp
    next
      case inter: False
      then obtain v post where rest: "rest = v # post" and v: "vm_start v < ?e"
        by (cases rest) auto
      have "munmap_found env s ?e pre v post m = (r, m')"
        using assms(2) False fp rest v [unfolded not_le [symmetric]] by (auto simp: do_munmap_def Let_def)
      then show ?thesis
        using munmap_found_keeps [OF assms(1) fp [unfolded rest] v rng(1) al rng(2)] by blast
    qed
  qed
  then show "vmas_ok (mm_mmap m')"
    "flags_at (mm_mmap m') =
      (if r = 0 then put_range (flags_at (mm_mmap m)) s ?e None else flags_at (mm_mmap m))"
    "if r = 0 then pages_unmapped env s ?e m m' else mm_pgd m' = mm_pgd m"
    by blast+
qed

section \<open>Merging\<close>

lemma mergeable_flags: "is_mergeable_vma v file flags \<Longrightarrow> core_flags (vm_flags v) = core_flags flags"
proof -
  assume "is_mergeable_vma v file flags"
  then have z: "(vm_flags v XOR flags) AND NOT VM_CAN_NONLINEAR = 0" by (simp add: is_mergeable_vma_def)
  have "core_flags (vm_flags v) XOR core_flags flags = (vm_flags v XOR flags) AND NOT VM_CAN_NONLINEAR"
    unfolding core_flags_def by (rule bit_word_eqI) (auto simp: bit_simps)
  with z show ?thesis by (metis xor_self_eq xor.left_neutral xor.assoc xor.right_neutral)
qed

lemma can_merge_flags:
  "can_vma_merge_after v flags anon file pgoff \<Longrightarrow> core_flags (vm_flags v) = core_flags flags"
  "can_vma_merge_before v flags anon file pgoff \<Longrightarrow> core_flags (vm_flags v) = core_flags flags"
  by (auto simp: can_vma_merge_after_def can_vma_merge_before_def dest: mergeable_flags)

lemma import_anon_simps [simp]:
  "vm_start (import_anon v w) = vm_start v" "vm_end (import_anon v w) = vm_end v"
  "vm_flags (import_anon v w) = vm_flags v"
  by (simp_all add: import_anon_def)

definition merged :: "vma list \<Rightarrow> addr \<Rightarrow> addr \<Rightarrow> word32 \<Rightarrow> vma list \<Rightarrow> vma \<Rightarrow> vma list \<Rightarrow> bool" where
  "merged xs a e flags pre w post \<longleftrightarrow>
     vmas_ok (pre @ w # post) \<and> vm_start w \<le> a \<and> e \<le> vm_end w \<and>
     (\<forall>f. core_flags f = core_flags flags \<longrightarrow>
       flags_at (pre @ w\<lparr>vm_flags := f\<rparr> # post) = put_range (flags_at xs) a e (Some (core_flags flags)))"

lemma flags_at_outer:
  "\<forall>w \<in> set xs. vm_end w \<le> s \<Longrightarrow> s \<le> a \<Longrightarrow> flags_at xs a = None"
  "\<forall>w \<in> set xs. t \<le> vm_start w \<Longrightarrow> a < t \<Longrightarrow> flags_at xs a = None"
  by (rule flags_at_below, force) (rule flags_at_above, force)

text \<open>A merge replaces the VMAs \<open>ms\<close> between \<open>lo\<close> and \<open>hi\<close> by others between the same bounds.\<close>

lemma merged_within:
  assumes xs: "xs = pr @ ms @ ns" and pre': "pre' = pr @ ls" and post': "post' = hs @ ns"
    and "vmas_ok xs" "\<forall>v \<in> set pr. vm_end v \<le> lo" "\<forall>v \<in> set ns. hi \<le> vm_start v"
    "\<forall>v \<in> set ms. lo \<le> vm_start v \<and> vm_end v \<le> hi"
    "vmas_ok (ls @ w # hs)" "\<forall>v \<in> set (ls @ w # hs). lo \<le> vm_start v \<and> vm_end v \<le> hi"
    "vm_start w \<le> a" "e \<le> vm_end w"
    "\<And>x f. lo \<le> x \<Longrightarrow> x < hi \<Longrightarrow> core_flags f = core_flags flags \<Longrightarrow>
       flags_at (ls @ w\<lparr>vm_flags := f\<rparr> # hs) x = put_range (flags_at ms) a e (Some (core_flags flags)) x"
  shows "merged xs a e flags pre' w post'"
proof -
  note assms = assms(4) [unfolded xs] assms(5-)
  have "flags_at ((pr @ ls) @ w\<lparr>vm_flags := f\<rparr> # hs @ ns) x =
        put_range (flags_at (pr @ ms @ ns)) a e (Some (core_flags flags)) x"
    if f: "core_flags f = core_flags flags" for f x
  proof -
    let ?new = "ls @ w\<lparr>vm_flags := f\<rparr> # hs"
    have "\<forall>v \<in> set ?new. lo \<le> vm_start v \<and> vm_end v \<le> hi" "lo \<le> a" "e \<le> hi"
      using assms(6-8) by auto
    then have out: "flags_at ms x = None" "flags_at ?new x = None" "\<not> (a \<le> x \<and> x < e)" if "x < lo \<or> hi \<le> x"
      using assms(4) that unfolding flags_at_None by (meson leD le_less_trans less_le_trans)+
    have pr: "flags_at pr x = None" if "lo \<le> x" using assms(2) that by (rule flags_at_outer(1))
    have ns: "flags_at ns x = None" if "x < hi" using assms(3) that by (rule flags_at_outer(2))
    have "flags_at (pr @ ?new @ ns) x = put_range (flags_at (pr @ ms @ ns)) a e (Some (core_flags flags)) x"
    proof (cases "lo \<le> x \<and> x < hi")
      case True
      then show ?thesis
        unfolding flags_at_append [of pr] flags_at_append [of ms] flags_at_append [of ?new]
        using pr ns assms(9) [OF _ _ f] by (auto simp: put_range_def split: option.splits)
    next
      case False
      then show ?thesis
        unfolding flags_at_append [of pr] flags_at_append [of ms] flags_at_append [of ?new]
        using out by (auto simp: put_range_def not_le not_less split: option.splits)
    qed
    then show ?thesis by (simp only: append_assoc append_Cons)
  qed
  moreover have "vmas_ok ((pr @ ls) @ w # hs @ ns)"
  proof -
    have "vm_end u \<le> vm_start v" if "u \<in> set pr" "v \<in> set (ls @ w # hs)" for u v
      using assms(2,6) that order_trans by blast
    moreover have "vm_end u \<le> vm_start v" if "u \<in> set (ls @ w # hs)" "v \<in> set ns" for u v
      using assms(3,6) that order_trans by blast
    ultimately have "vmas_ok (pr @ (ls @ w # hs) @ ns)"
      using assms(1,5) unfolding vmas_ok_append set_append by blast
    then show ?thesis by (simp only: append_assoc append_Cons)
  qed
  ultimately show ?thesis
    unfolding merged_def xs pre' post' using assms(7,8) by (intro conjI allI impI ext) blast+
qed

lemmas merge_proof = vma_ok_def put_range_def not_less not_le

text \<open>The cases of the table above \<^verbatim>\<open>vma_merge\<close>.\<close>

lemma merged_case1:
  assumes "vmas_ok (pr @ p # n # ns)" "vm_end p = a" "core_flags (vm_flags p) = core_flags flags"
    "vm_start n = e" "core_flags (vm_flags n) = core_flags flags" "a < e"
    "vm_start w = vm_start p" "vm_end w = vm_end n"
  shows "merged (pr @ p # n # ns) a e flags pr w ns"
  by (rule merged_within [where pr = pr and ms = "[p, n]" and ns = ns and lo = "vm_start p" and hi = "vm_end n"
        and ls = "[]" and hs = "[]"]) (use assms in \<open>auto simp: merge_proof\<close>)

lemma merged_case2:
  assumes "vmas_ok (pr @ p # rest)" "vm_end p = a" "core_flags (vm_flags p) = core_flags flags"
    "\<forall>w \<in> set rest. e \<le> vm_start w" "a < e" "page_aligned e" "vm_start w = vm_start p" "vm_end w = e"
  shows "merged (pr @ p # rest) a e flags pr w rest"
  by (rule merged_within [where pr = pr and ms = "[p]" and ns = rest and lo = "vm_start p" and hi = e
        and ls = "[]" and hs = "[]"]) (use assms in \<open>auto simp: merge_proof\<close>)

lemma merged_case3:
  assumes "vmas_ok (pre @ n # ns)" "vm_start n = e" "core_flags (vm_flags n) = core_flags flags"
    "\<forall>w \<in> set pre. vm_end w \<le> a" "a < e" "page_aligned a" "vm_start w = a" "vm_end w = vm_end n"
  shows "merged (pre @ n # ns) a e flags pre w ns"
  by (rule merged_within [where pr = pre and ms = "[n]" and ns = ns and lo = a and hi = "vm_end n"
        and ls = "[]" and hs = "[]"]) (use assms in \<open>auto simp: merge_proof\<close>)

lemma merged_case4:
  assumes "vmas_ok (pre @ v # n # ns)" "vm_start v < a" "a < vm_end v" "vm_end v = vm_start n" "page_aligned a"
    "core_flags (vm_flags n) = core_flags flags" "vm_start w = a" "vm_end w = vm_end n"
    "vm_start v' = vm_start v" "vm_end v' = a" "vm_flags v' = vm_flags v"
  shows "merged (pre @ v # n # ns) a (vm_end v) flags (pre @ [v']) w ns"
  by (rule merged_within [where pr = pre and ms = "[v, n]" and ns = ns and lo = "vm_start v" and hi = "vm_end n"
        and ls = "[v']" and hs = "[]"]) (use assms in \<open>auto simp: merge_proof\<close>)

lemma merged_case5:
  assumes "vmas_ok (pr @ p # v # post)" "vm_end p = vm_start v" "vm_start v < e" "e < vm_end v"
    "page_aligned e" "core_flags (vm_flags p) = core_flags flags" "vm_start w = vm_start p" "vm_end w = e"
    "vm_start v' = e" "vm_end v' = vm_end v" "vm_flags v' = vm_flags v"
  shows "merged (pr @ p # v # post) (vm_start v) e flags pr w (v' # post)"
  by (rule merged_within [where pr = pr and ms = "[p, v]" and ns = post and lo = "vm_start p" and hi = "vm_end v"
        and ls = "[]" and hs = "[v']"]) (use assms in \<open>auto simp: merge_proof\<close>)

lemma merged_case6:
  assumes "vmas_ok (pr @ p # v # n # ns)" "vm_end p = vm_start v" "vm_end v = vm_start n"
    "core_flags (vm_flags p) = core_flags flags" "core_flags (vm_flags n) = core_flags flags"
    "vm_start w = vm_start p" "vm_end w = vm_end n"
  shows "merged (pr @ p # v # n # ns) (vm_start v) (vm_end v) flags pr w ns"
  by (rule merged_within [where pr = pr and ms = "[p, v, n]" and ns = ns and lo = "vm_start p" and hi = "vm_end n"
        and ls = "[]" and hs = "[]"]) (use assms in \<open>auto simp: merge_proof\<close>)

lemma merged_case7:
  assumes "vmas_ok (pr @ p # v # post)" "vm_end p = vm_start v"
    "core_flags (vm_flags p) = core_flags flags" "vm_start w = vm_start p" "vm_end w = vm_end v"
  shows "merged (pr @ p # v # post) (vm_start v) (vm_end v) flags pr w post"
  by (rule merged_within [where pr = pr and ms = "[p, v]" and ns = post and lo = "vm_start p" and hi = "vm_end v"
        and ls = "[]" and hs = "[]"]) (use assms in \<open>auto simp: merge_proof\<close>)

lemma merged_case8:
  assumes "vmas_ok (pre @ v # n # ns)" "vm_end v = vm_start n"
    "core_flags (vm_flags n) = core_flags flags" "vm_start w = vm_start v" "vm_end w = vm_end n"
  shows "merged (pre @ v # n # ns) (vm_start v) (vm_end v) flags pre w ns"
  by (rule merged_within [where pr = pre and ms = "[v, n]" and ns = ns and lo = "vm_start v" and hi = "vm_end n"
        and ls = "[]" and hs = "[]"]) (use assms in \<open>auto simp: merge_proof\<close>)

lemma adjust_plain:
  assumes "rest = [] \<or> e \<le> vm_start (hd rest) \<and> vm_start (hd rest) < vm_end (hd rest) \<and> vm_end v \<le> e"
  shows "vma_adjust v rest s e pg = ret (v\<lparr>vm_start := s, vm_end := e, vm_pgoff := pg\<rparr>, rest)"
  using assms by (cases rest) (auto simp: vma_adjust_def)

lemma adjust_one:
  "vma_adjust v (n # ns) s (vm_end n) pg =
     ret ((import_anon v n)\<lparr>vm_start := s, vm_end := vm_end n, vm_pgoff := pg\<rparr>, ns)"
  by (simp add: vma_adjust_def import_anon_def)

lemma adjust_two:
  assumes "vm_end m < vm_end n"
  shows "vma_adjust v (m # n # ns) s (vm_end n) pg =
     ret ((import_anon (import_anon v m) n)\<lparr>vm_start := s, vm_end := vm_end n, vm_pgoff := pg\<rparr>, ns)"
  using assms by (simp add: vma_adjust_def Let_def import_anon_def less_le_not_le)

lemma adjust_part:
  assumes "vm_start n < e" "e < vm_end n" "page_aligned (vm_start n)" "page_aligned e"
  obtains n' where "vma_adjust v (n # ns) s e pg =
     ret ((import_anon v n)\<lparr>vm_start := s, vm_end := e, vm_pgoff := pg\<rparr>, n' # ns)"
    "vm_start n' = e" "vm_end n' = vm_end n" "vm_flags n' = vm_flags n"
proof -
  have o: "\<not> vm_end n \<le> e" using assms(2) by simp
  have "push_bit 12 (pages (e - vm_start n)) = e - vm_start n"
    using assms(3,4) by (simp add: shift_pages page_aligned_diff)
  with o assms(1) show thesis
    by (intro that [of "n\<lparr>vm_start := e, vm_pgoff := vm_pgoff n + pages (e - vm_start n)\<rparr>"])
      (simp_all add: vma_adjust_def Let_def)
qed

lemma adjust_back:
  assumes "e < vm_end v" "vm_end v = vm_start n" "vm_start n < vm_end n" "page_aligned (vm_end v)" "page_aligned e"
  obtains n' where "vma_adjust v (n # ns) s e pg = ret (v\<lparr>vm_start := s, vm_end := e, vm_pgoff := pg\<rparr>, n' # ns)"
    "vm_start n' = e" "vm_end n' = vm_end n" "vm_flags n' = vm_flags n"
proof -
  have "push_bit 12 (- pages (vm_end v - e)) = - (vm_end v - e)"
    using shift_pages [OF page_aligned_diff, of "vm_end v" e] assms(4,5) by (simp add: push_bit_eq_mult)
  moreover have "\<not> vm_end n \<le> e" "\<not> vm_start n < e" using assms(1-3) by auto
  ultimately show thesis
    using assms(1,2)
    by (intro that [of "(import_anon n v)\<lparr>vm_start := e, vm_pgoff := vm_pgoff n - pages (vm_end v - e)\<rparr>"])
      (simp_all add: vma_adjust_def Let_def)
qed

lemma vma_merge_cases:
  obtains "vma_merge pre rest a e flags anon vf pgoff = ret None"
  | (prev) pr p where "pre = pr @ [p]" "vm_end p = a" "core_flags (vm_flags p) = core_flags flags"
      "vma_merge pre rest a e flags anon vf pgoff = merge_prev pr p rest e False"
  | (both) pr p n ns where "pre = pr @ [p]" "vm_end p = a" "core_flags (vm_flags p) = core_flags flags"
      "merge_nexts rest e = n # ns" "vm_start n = e" "core_flags (vm_flags n) = core_flags flags"
      "vma_merge pre rest a e flags anon vf pgoff = merge_prev pr p rest e True"
      "is_mergeable_anon_vma (anon_vma p) (anon_vma n)"
  | (nxt) n ns where "merge_nexts rest e = n # ns" "vm_start n = e" "core_flags (vm_flags n) = core_flags flags"
      "vma_merge pre rest a e flags anon vf pgoff = merge_next pre rest a e"
proof -
  define joins where "joins = joins_next (merge_nexts rest e) e flags anon vf (pgoff + pages (e - a))"
  have j: "\<exists>n ns. merge_nexts rest e = n # ns \<and> vm_start n = e \<and> core_flags (vm_flags n) = core_flags flags" if joins
    using that by (auto simp: joins_def joins_next_def split: list.splits dest: can_merge_flags)
  have def: "vma_merge pre rest a e flags anon vf pgoff =
     (if flags AND VM_SPECIAL \<noteq> 0 then ret None
      else if pre \<noteq> [] \<and> vm_end (last pre) = a \<and> can_vma_merge_after (last pre) flags anon vf pgoff
      then merge_prev (butlast pre) (last pre) rest e joins
      else if joins then merge_next pre rest a e else ret None)"
    by (simp add: vma_merge_def joins_def Let_def)
  show thesis
  proof (cases "flags AND VM_SPECIAL = 0 \<and> pre \<noteq> [] \<and> vm_end (last pre) = a \<and>
      can_vma_merge_after (last pre) flags anon vf pgoff")
    case True
    then obtain pr p where pre: "pre = pr @ [p]" by (metis rev_exhaust)
    with True def have p: "vm_end p = a" "core_flags (vm_flags p) = core_flags flags"
      "vma_merge pre rest a e flags anon vf pgoff = merge_prev pr p rest e joins"
      by (auto dest: can_merge_flags)
    show thesis
    proof (cases "joins \<and> is_mergeable_anon_vma (anon_vma p) (anon_vma (hd (merge_nexts rest e)))")
      case True
      then show thesis using j both [OF pre p(1,2)] p(3) by auto
    next
      case False
      then have "merge_prev pr p rest e joins = merge_prev pr p rest e False"
        by (auto simp: merge_prev_def)
      then show thesis using prev [OF pre p(1,2)] p(3) by simp
    qed
  next
    case False
    then have "vma_merge pre rest a e flags anon vf pgoff = ret None \<or>
        joins \<and> vma_merge pre rest a e flags anon vf pgoff = merge_next pre rest a e"
      using def by auto
    then show thesis using that(1) nxt j by blast
  qed
qed

lemma vma_merge_gap:
  assumes "vmas_ok (pre @ rest)" "\<forall>w \<in> set pre. vm_end w \<le> a" "\<forall>w \<in> set rest. e \<le> vm_start w"
    "a < e" "page_aligned a" "page_aligned e"
  obtains "vma_merge pre rest a e flags anon vf pgoff = ret None"
  | pre' w post' where "vma_merge pre rest a e flags anon vf pgoff = ret (Some (pre', w, post'))"
      "merged (pre @ rest) a e flags pre' w post'" "core_flags (vm_flags w) = core_flags flags"
proof -
  have nx: "merge_nexts rest e = rest"
    using assms(1,3) by (auto simp: merge_nexts_def split: list.splits dest!: vma_okD)
  show thesis
  proof (cases rule: vma_merge_cases [where pre = pre and rest = rest and a = a and e = e
        and flags = flags and anon = anon and vf = vf and pgoff = pgoff])
    case (prev pr p)
    let ?w = "p\<lparr>vm_start := vm_start p, vm_end := e, vm_pgoff := vm_pgoff p\<rparr>"
    have "vma_adjust p rest (vm_start p) e (vm_pgoff p) = ret (?w, rest)"
      using assms(1,3,4) prev(1,2) by (intro adjust_plain) (cases rest, auto dest: vma_okD)
    with prev(4) have "vma_merge pre rest a e flags anon vf pgoff = ret (Some (pr, ?w, rest))"
      by (simp add: merge_prev_def)
    moreover have "merged (pre @ rest) a e flags pr ?w rest"
      using merged_case2 [of pr p rest a flags e ?w] assms prev by auto
    ultimately show thesis using that(2) prev(3) by simp
  next
    case (both pr p n ns)
    let ?w = "(import_anon p n)\<lparr>vm_start := vm_start p, vm_end := vm_end n, vm_pgoff := vm_pgoff p\<rparr>"
    have "vma_merge pre rest a e flags anon vf pgoff = ret (Some (pr, ?w, ns))"
      using both(4,7,8) nx by (simp add: merge_prev_def adjust_one)
    moreover have "merged (pre @ rest) a e flags pr ?w ns"
      using merged_case1 [of pr p n ns a flags e ?w] assms both nx by auto
    ultimately show thesis using that(2) both(3) by simp
  next
    case (nxt n ns)
    let ?w = "n\<lparr>vm_start := a, vm_end := vm_end n, vm_pgoff := vm_pgoff n - pages (e - a)\<rparr>"
    have "\<not> (pre \<noteq> [] \<and> a < vm_end (last pre))"
      using assms(2) by (cases pre rule: rev_cases) (auto simp: not_less)
    moreover have "vma_adjust n ns a (vm_end n) (vm_pgoff n - pages (e - a)) = ret (?w, ns)"
      using assms(1) nxt(1) nx by (intro adjust_plain) (cases ns, auto dest: vma_okD)
    ultimately have "vma_merge pre rest a e flags anon vf pgoff = ret (Some (pre, ?w, ns))"
      using nxt(1,4) nx by (auto simp: merge_next_def Let_def)
    moreover have "merged (pre @ rest) a e flags pre ?w ns"
      using merged_case3 [of pre n ns e flags a ?w] assms nxt nx by auto
    ultimately show thesis using that(2) nxt(3) by simp
  qed (rule that(1))
qed

lemma vma_merge_start:
  assumes ok: "vmas_ok (pre @ v # post)" and a: "vm_start v = a" and e: "a < e" "e \<le> vm_end v" "page_aligned e"
  obtains "vma_merge pre (v # post) a e flags anon vf pgoff = ret None"
  | pre' w post' where "vma_merge pre (v # post) a e flags anon vf pgoff = ret (Some (pre', w, post'))"
      "merged (pre @ v # post) a e flags pre' w post'"
proof -
  have nx: "post = n # ns \<and> vm_end v = e" if "merge_nexts (v # post) e = n # ns" "vm_start n = e" for n ns
    using that a e by (auto simp: merge_nexts_def split: if_splits)
  have al: "page_aligned (vm_start v)" using ok by (auto simp: vma_ok_def)
  show thesis
  proof (cases rule: vma_merge_cases [where pre = pre and rest = "v # post" and a = a and e = e
        and flags = flags and anon = anon and vf = vf and pgoff = pgoff])
    case (prev pr p)
    show thesis
    proof (cases "vm_end v = e")
      case True
      let ?w = "(import_anon p v)\<lparr>vm_start := vm_start p, vm_end := vm_end v, vm_pgoff := vm_pgoff p\<rparr>"
      have "vma_merge pre (v # post) a e flags anon vf pgoff = ret (Some (pr, ?w, post))"
        using prev(4) True adjust_one by (auto simp: merge_prev_def)
      moreover have "merged (pre @ v # post) a e flags pr ?w post"
        using merged_case7 [of pr p v post flags ?w] ok prev a True by auto
      ultimately show thesis by (rule that(2))
    next
      case False
      then have ve: "vm_start v < e" "e < vm_end v" using a e by auto
      let ?w = "(import_anon p v)\<lparr>vm_start := vm_start p, vm_end := e, vm_pgoff := vm_pgoff p\<rparr>"
      obtain v' where v': "vma_adjust p (v # post) (vm_start p) e (vm_pgoff p) = ret (?w, v' # post)"
        "vm_start v' = e" "vm_end v' = vm_end v" "vm_flags v' = vm_flags v"
        by (rule adjust_part [OF ve al e(3)])
      have "vma_merge pre (v # post) a e flags anon vf pgoff = ret (Some (pr, ?w, v' # post))"
        using prev(4) v'(1) by (simp add: merge_prev_def)
      moreover have "merged (pre @ v # post) a e flags pr ?w (v' # post)"
        using merged_case5 [of pr p v post e flags ?w v'] ok prev a e ve v' by auto
      ultimately show thesis by (rule that(2))
    qed
  next
    case (both pr p n ns)
    note n = nx [OF both(4,5)]
    let ?w = "(import_anon (import_anon p v) n)\<lparr>vm_start := vm_start p, vm_end := vm_end n, vm_pgoff := vm_pgoff p\<rparr>"
    have "vm_end v < vm_end n" using ok n by (auto dest: vma_okD)
    from adjust_two [OF this] have "vma_merge pre (v # post) a e flags anon vf pgoff = ret (Some (pr, ?w, ns))"
      using both(4,7,8) n by (simp add: merge_prev_def)
    moreover have "merged (pre @ v # post) a e flags pr ?w ns"
      using merged_case6 [of pr p v n ns flags ?w] ok both a n by auto
    ultimately show thesis by (rule that(2))
  next
    case (nxt n ns)
    note n = nx [OF nxt(1,2)]
    let ?w = "(import_anon v n)\<lparr>vm_start := a, vm_end := vm_end n, vm_pgoff := vm_pgoff n - pages (e - a)\<rparr>"
    have "\<not> (pre \<noteq> [] \<and> a < vm_end (last pre))"
      using ok a by (cases pre rule: rev_cases) (auto simp: not_less)
    then have "vma_merge pre (v # post) a e flags anon vf pgoff = ret (Some (pre, ?w, ns))"
      using nxt(1,4) n by (auto simp: merge_next_def Let_def adjust_one)
    moreover have "merged (pre @ v # post) a e flags pre ?w ns"
      using merged_case8 [of pre v n ns flags ?w] ok nxt a n by auto
    ultimately show thesis by (rule that(2))
  qed (rule that(1))
qed

lemma vma_merge_inside:
  assumes ok: "vmas_ok (pre @ v # post)" and a: "vm_start v < a" "page_aligned a" and e: "a < e" "e \<le> vm_end v"
  obtains "vma_merge (pre @ [v]) post a e flags anon vf pgoff = ret None"
  | pre' w post' where "vma_merge (pre @ [v]) post a e flags anon vf pgoff = ret (Some (pre', w, post'))"
      "merged (pre @ v # post) a e flags pre' w post'"
proof (cases rule: vma_merge_cases [where pre = "pre @ [v]" and rest = post and a = a and e = e
      and flags = flags and anon = anon and vf = vf and pgoff = pgoff])
  case (nxt n ns)
  have ends: "e < vm_end x" if "x \<in> set post" for x
    using ok that e by (fastforce dest: vmas_ok_member vma_okD)
  have post: "post = n # ns"
    using nxt(1) ends by (auto simp: merge_nexts_def split: list.splits if_splits)
  then have ve: "vm_end v = e" using ok e nxt(2) by auto
  have "a < vm_end v" "vm_end v = vm_start n" "vm_start n < vm_end n" "page_aligned (vm_end v)"
    using ve e nxt(2) ok post by (auto simp: vma_ok_def)
  then obtain n' where n': "vma_adjust v (n # ns) (vm_start v) a (vm_pgoff v) =
      ret (v\<lparr>vm_start := vm_start v, vm_end := a, vm_pgoff := vm_pgoff v\<rparr>, n' # ns)"
    "vm_start n' = a" "vm_end n' = vm_end n" "vm_flags n' = vm_flags n"
    using a(2) by (rule adjust_back)
  let ?v = "v\<lparr>vm_start := vm_start v, vm_end := a, vm_pgoff := vm_pgoff v\<rparr>"
  have "vma_merge (pre @ [v]) post a e flags anon vf pgoff = ret (Some (pre @ [?v], n', ns))"
    using nxt(4) n'(1) ve e by (simp add: merge_next_def post)
  moreover have "merged (pre @ v # post) a e flags (pre @ [?v]) n' ns"
    using merged_case4 [of pre v n ns a flags n' ?v] ok a e nxt(2,3) ve n' post by auto
  ultimately show thesis by (rule that(2))
qed (use a e that(1) in auto)

section \<open>Changing flags\<close>

definition fixed_flags :: "word32 \<Rightarrow> word32 \<Rightarrow> word32" where
  "fixed_flags oldflags newflags =
     (if commit_needed oldflags newflags then newflags OR VM_ACCOUNT else newflags)"

lemma fixed_flags_same [simp]: "fixed_flags f f = f"
proof -
  have "\<not> commit_needed f f"
  proof
    assume "commit_needed f f"
    then have nz: "f AND VM_WRITE \<noteq> 0"
      and z: "f AND (VM_ACCOUNT OR VM_WRITE OR VM_HUGETLB OR VM_SHARED OR VM_NORESERVE) = 0"
      by (auto simp: commit_needed_def)
    have "f AND VM_WRITE = (f AND (VM_ACCOUNT OR VM_WRITE OR VM_HUGETLB OR VM_SHARED OR VM_NORESERVE)) AND VM_WRITE"
      by (simp add: VM_ACCOUNT_def VM_WRITE_def VM_HUGETLB_def VM_SHARED_def VM_NORESERVE_def and.assoc)
    with nz show False unfolding z by simp
  qed
  then show ?thesis by (simp add: fixed_flags_def)
qed

text \<open>The VMAs with \<open>[a, e)\<close> inside the VMA \<open>v\<close> and new flags on it.\<close>

definition reflagged :: "vma list \<Rightarrow> addr \<Rightarrow> addr \<Rightarrow> word32 \<Rightarrow> vma list \<Rightarrow> vma \<Rightarrow> vma list \<Rightarrow> bool" where
  "reflagged xs a e flags pre w post \<longleftrightarrow>
     vmas_ok (pre @ w # post) \<and> vm_start w \<le> a \<and> e \<le> vm_end w \<and>
     flags_at (pre @ w # post) = put_range (flags_at xs) a e (Some (core_flags flags))"

lemma merged_reflagged:
  "merged xs a e flags pre w post \<Longrightarrow> reflagged xs a e flags pre (w\<lparr>vm_flags := flags\<rparr>) post"
  by (auto simp: merged_def reflagged_def vma_ok_def)

lemma reflagged_mid:
  assumes "vmas_ok (pre @ v # post)"
  shows "reflagged (pre @ v # post) (vm_start v) (vm_end v) flags pre (v\<lparr>vm_flags := flags\<rparr>) post"
proof -
  have "merged (pre @ v # post) (vm_start v) (vm_end v) flags pre v post"
    using assms
    by (intro merged_within [where pr = pre and ms = "[v]" and ns = post and lo = "vm_start v" and hi = "vm_end v"
        and ls = "[]" and hs = "[]"]) (auto simp: merge_proof)
  then show ?thesis by (rule merged_reflagged)
qed

lemma fixup_split_keeps:
  assumes ok: "vmas_ok (pre @ v # post)" and a: "vm_start v \<le> a" "page_aligned a" and e: "a < e" "e \<le> vm_end v" "page_aligned e"
    and r: "fixup_split env pre v post a e flags = (err, pre', w, post')"
  shows "if err = 0 then reflagged (pre @ v # post) a e flags pre' w post'
         else vmas_ok (pre' @ w # post') \<and> flags_at (pre' @ w # post') = flags_at (pre @ v # post)"
proof -
  define sp where "sp = (if a \<noteq> vm_start v
     then map_sum id (\<lambda>(lo, up). (pre @ [lo], up)) (split_vma env (pre @ v # post) v a) else Inr (pre, v))"
  note r = r [unfolded fixup_split_def, folded sp_def]
  show ?thesis
  proof (cases sp)
    case (Inl x)
    then have "x \<noteq> 0"
      by (auto simp: sp_def map_sum_def split: if_splits sum.splits dest: split_vma_nz)
    with Inl r ok show ?thesis by auto
  next
    case (Inr y)
    then obtain pre1 v1 where sp: "sp = Inr (pre1, v1)" by (cases y) auto
    have v1: "vmas_ok (pre1 @ v1 # post)" "flags_at (pre1 @ v1 # post) = flags_at (pre @ v # post)"
      "vm_start v1 = a" "vm_end v1 = vm_end v"
    proof -
      have "vmas_ok (pre1 @ v1 # post) \<and> flags_at (pre1 @ v1 # post) = flags_at (pre @ v # post) \<and>
        vm_start v1 = a \<and> vm_end v1 = vm_end v"
      proof (cases "a = vm_start v")
        case True
        then show ?thesis using sp ok by (auto simp: sp_def)
      next
        case False
        with sp obtain lo where s: "split_vma env (pre @ v # post) v a = Inr (lo, v1)" and p: "pre1 = pre @ [lo]"
          by (auto simp: sp_def map_sum_def split: sum.splits)
        have "vm_start v < a" "a < vm_end v" using a e False by auto
        note k = split_keeps [OF s ok this a(2)]
        show ?thesis using k(1,2,4,5) by (simp add: p)
      qed
      then show "vmas_ok (pre1 @ v1 # post)" "flags_at (pre1 @ v1 # post) = flags_at (pre @ v # post)"
        "vm_start v1 = a" "vm_end v1 = vm_end v" by blast+
    qed
    show ?thesis
    proof (cases "e = vm_end v1")
      case True
      then have "err = 0" "pre' = pre1" "w = v1\<lparr>vm_flags := flags\<rparr>" "post' = post"
        using r sp by auto
      then show ?thesis using reflagged_mid [OF v1(1), of flags] v1(2,3) True by (simp add: reflagged_def)
    next
      case False
      then have ve: "vm_start v1 < e" "e < vm_end v1" using v1(3,4) e by auto
      show ?thesis
      proof (cases "split_vma env (pre1 @ v1 # post) v1 e")
        case (Inl x)
        then have "x \<noteq> 0" by (rule split_vma_nz)
        with r sp Inl False v1 show ?thesis by (auto simp: sp)
      next
        case (Inr y)
        then obtain lo up where s: "split_vma env (pre1 @ v1 # post) v1 e = Inr (lo, up)" by (cases y) auto
        note k = split_keeps [OF s v1(1) ve e(3)]
        have "err = 0" "pre' = pre1" "w = lo\<lparr>vm_flags := flags\<rparr>" "post' = up # post"
          using r sp s False by auto
        then show ?thesis
          using reflagged_mid [OF k(1), of flags] k(2,3,6) v1(2,3) by (simp add: reflagged_def)
      qed
    qed
  qed
qed

lemma fixup_areas_keeps:
  assumes ok: "vmas_ok (pre @ v # post)" and a: "vm_start v \<le> a" "page_aligned a" and e: "a < e" "e \<le> vm_end v" "page_aligned e"
  obtains err pre' w post' where "fixup_areas env pre v post a e newflags = ret (err, pre', w, post')"
    "if err = 0 then reflagged (pre @ v # post) a e (fixed_flags (vm_flags v) newflags) pre' w post'
     else vmas_ok (pre' @ w # post') \<and> flags_at (pre' @ w # post') = flags_at (pre @ v # post)"
proof (cases "newflags = vm_flags v")
  case True
  have "flags_at (pre @ v # post) x = Some (core_flags (vm_flags v))" if "a \<le> x" "x < e" for x
  proof -
    have "flags_at pre x = None"
      using ok a(1) that by (intro flags_at_outer(1) [where s = "vm_start v"]) auto
    then show ?thesis using a(1) e(2) that by auto
  qed
  then have "reflagged (pre @ v # post) a e (vm_flags v) pre v post"
    using ok a(1) e(2) unfolding reflagged_def by (auto simp: put_range_def intro!: ext simp del: flags_at_append flags_at.simps)
  then show thesis using that [of 0 pre v post] True by (simp add: fixup_areas_def)
next
  case False
  let ?c = "commit_needed (vm_flags v) newflags" and ?f = "fixed_flags (vm_flags v) newflags"
  show thesis
  proof (cases "?c \<and> \<not> ke_enough_memory env (pages (e - a))")
    case True
    then show thesis using that [of "- ENOMEM" pre v post] False ok by (simp add: fixup_areas_def Let_def)
  next
    case mem: False
    define mg where "mg = (case if a > vm_start v then (pre @ [v], post) else (pre, v # post) of
         (before, after) \<Rightarrow> vma_merge before after a e ?f (anon_vma v) (vm_file v)
                             (vm_pgoff v + pages (a - vm_start v)))"
    have def: "fixup_areas env pre v post a e newflags = bnd mg (\<lambda>r.
        case r of Some (pre', w, post') \<Rightarrow> ret (0, pre', w\<lparr>vm_flags := ?f\<rparr>, post')
        | None \<Rightarrow> ret (fixup_split env pre v post a e ?f))"
      unfolding fixup_areas_def mg_def fixed_flags_def Let_def using False mem by auto
    have "mg = ret None \<or> (\<exists>pre' w post'. mg = ret (Some (pre', w, post')) \<and> merged (pre @ v # post) a e ?f pre' w post')"
    proof (cases "a > vm_start v")
      case True
      from ok this a(2) e(1,2) show ?thesis
        unfolding mg_def
        by (rule vma_merge_inside [where flags = ?f and anon = "anon_vma v" and vf = "vm_file v"
              and pgoff = "vm_pgoff v + pages (a - vm_start v)"]) (use True in auto)
    next
      case F: False
      then have va: "vm_start v = a" using a(1) by auto
      from ok va e show ?thesis
        unfolding mg_def
        by (rule vma_merge_start [where flags = ?f and anon = "anon_vma v" and vf = "vm_file v"
              and pgoff = "vm_pgoff v + pages (a - vm_start v)"]) (use F in auto)
    qed
    then show thesis
    proof (elim disjE exE conjE)
      assume "mg = ret None"
      moreover obtain err pre' w post' where fs: "fixup_split env pre v post a e ?f = (err, pre', w, post')"
        by (metis prod_cases4)
      ultimately show thesis
        using that [of err pre' w post'] fixup_split_keeps [OF ok a e fs] def by simp
    next
      fix pre' w post'
      assume "mg = ret (Some (pre', w, post'))" "merged (pre @ v # post) a e ?f pre' w post'"
      then show thesis using that [of 0 pre' "w\<lparr>vm_flags := ?f\<rparr>" post'] merged_reflagged def by simp
    qed
  qed
qed

text \<open>A merge never leaves more VMAs than there were.\<close>

lemma vma_absorb_length: "vma_absorb v rest e = ret (w, ns) \<Longrightarrow> length ns \<le> length rest"
proof (induction v rest e rule: vma_absorb.induct)
  case (2 v n ns' e)
  then show ?case by (auto simp: Let_def le_Suc_eq split: if_splits)
qed auto

lemma vma_adjust_length: "vma_adjust v rest s e pgoff = ret (w, ns) \<Longrightarrow> length ns \<le> length rest"
  by (auto simp: vma_adjust_def bnd_eq_ret Let_def simp del: vma_absorb.simps split: list.splits if_splits dest!: vma_absorb_length)

lemma merge_prev_length:
  "merge_prev pr p rest e joins = ret (Some (pre', w, post')) \<Longrightarrow> length (pre' @ w # post') \<le> Suc (length (pr @ rest))"
  by (auto simp: merge_prev_def bnd_eq_ret Let_def split: if_splits dest!: vma_adjust_length)

lemma merge_next_length:
  assumes "merge_next pre rest a e = ret (Some (pre', w, post'))"
  shows "length (pre' @ w # post') \<le> length (pre @ rest)"
proof (cases "pre \<noteq> [] \<and> a < vm_end (last pre)")
  case True
  then obtain x where x: "vma_adjust (last pre) rest (vm_start (last pre)) a (vm_pgoff (last pre)) = ret x"
    "(case x of (p', []) \<Rightarrow> fail Segv | (p', area # rest'') \<Rightarrow> ret (Some (butlast pre @ [p'], area, rest''))) =
       ret (Some (pre', w, post'))"
    using assms by (auto simp: merge_next_def Let_def bnd_eq_ret split: prod.splits)
  then obtain p' where p: "vma_adjust (last pre) rest (vm_start (last pre)) a (vm_pgoff (last pre)) = ret (p', w # post')"
    "pre' = butlast pre @ [p']" by (cases x; cases "snd x") auto
  then show ?thesis using vma_adjust_length [OF p(1)] True by (cases pre) auto
next
  case False
  then show ?thesis using assms
    by (auto simp: merge_next_def Let_def bnd_eq_ret split: list.splits if_splits dest!: vma_adjust_length)
qed

lemma vma_merge_length:
  assumes "vma_merge pre rest a e flags anon vf pgoff = ret (Some (pre', w, post'))"
  shows "length (pre' @ w # post') \<le> length (pre @ rest)"
proof (cases rule: vma_merge_cases [where pre = pre and rest = rest and a = a and e = e
      and flags = flags and anon = anon and vf = vf and pgoff = pgoff])
  case (prev pr p)
  then show ?thesis using merge_prev_length [of pr p rest e False pre' w post'] assms by simp
next
  case (both pr p n ns)
  then show ?thesis using merge_prev_length [of pr p rest e True pre' w post'] assms by simp
next
  case (nxt n ns)
  then show ?thesis using merge_next_length assms by metis
qed (use assms in simp)

end
