(* ===== verification/Kernel_Agree.thy ===== *)
theory Kernel_Agree
  imports VMA_Ops Kernel_Entries
begin

text \<open>
  What a page table entry lets the processor do, and when it agrees with the flags of the area
  it is in: it permits no write the flags do not permit, and a present entry permits reading
  exactly when the flags do.  The entries the kernel makes agree with the flags they are made
  from; \<^verbatim>\<open>do_munmap\<close> and \<^verbatim>\<open>mprotect_fixup\<close> keep the table of an address space in agreement with its areas.
\<close>

section \<open>What the hardware permits\<close>

definition hw_access :: "pte \<Rightarrow> bool \<Rightarrow> bool" where
  "hw_access e wrt \<longleftrightarrow> e AND PAGE_PRESENT \<noteq> 0 \<and> e AND PAGE_USER \<noteq> 0 \<and> (wrt \<longrightarrow> e AND PAGE_RW \<noteq> 0)"

definition access_allowed :: "word32 \<Rightarrow> bool \<Rightarrow> bool" where
  "access_allowed f wrt \<longleftrightarrow> (if wrt then f AND VM_WRITE \<noteq> 0 else f AND (VM_READ OR VM_EXEC OR VM_WRITE) \<noteq> 0)"

definition agrees :: "word32 \<Rightarrow> pte \<Rightarrow> bool" where
  "agrees f e \<longleftrightarrow> (hw_access e True \<longrightarrow> access_allowed f True) \<and>
     (pte_present e \<longrightarrow> (hw_access e False \<longleftrightarrow> access_allowed f False))"

definition pages_ok :: "vma list \<Rightarrow> ptab \<Rightarrow> bool" where
  "pages_ok xs pt \<longleftrightarrow> (\<forall>x. page_aligned x \<longrightarrow> (case flags_at xs x of None \<Rightarrow> pte_none (pt x) | Some f \<Rightarrow> agrees f (pt x)))"

lemma agrees_none [simp]: "agrees f 0"
  by (simp add: agrees_def hw_access_def pte_present_def)

lemma hw_present: "hw_access e wrt \<Longrightarrow> pte_present e"
proof -
  assume "hw_access e wrt"
  then have "(e AND 0x101) AND 1 \<noteq> 0" by (simp add: hw_access_def PAGE_PRESENT_def and.assoc)
  then show ?thesis by (auto simp: pte_present_def PAGE_PRESENT_def PAGE_PROTNONE_def PAGE_GLOBAL_def)
qed

lemma hw_allowed: "agrees f e \<Longrightarrow> hw_access e wrt \<Longrightarrow> access_allowed f wrt"
  using hw_present [of e wrt] by (cases wrt) (auto simp: agrees_def)

text \<open>The sixteen values of the protection map.\<close>

lemma prot_index:
  obtains k where "k < 16" "vm_get_page_prot f = protection_map ! k" "f AND 15 = of_nat k"
proof -
  have m: "VM_READ OR VM_WRITE OR VM_EXEC OR VM_SHARED = 15"
    by (simp add: VM_READ_def VM_WRITE_def VM_EXEC_def VM_SHARED_def)
  have "f AND 15 \<le> 15" by (rule word_and_le1)
  then have "unat (f AND 15) < 16" by (simp add: word_le_nat_alt)
  then show thesis using that [of "unat (f AND 15)"] by (simp add: vm_get_page_prot_def m)
qed

lemma map_cases:
  assumes "k < 16" "\<forall>k \<in> set [0..<16]. P k" shows "P k"
  using assms by simp

lemma prot_map_access: "k < 16 \<Longrightarrow>
   (hw_access (protection_map ! k) False \<longleftrightarrow> access_allowed (of_nat k) False) \<and>
   (hw_access (protection_map ! k) True \<longrightarrow> access_allowed (of_nat k) True) \<and>
   (protection_map ! k AND PAGE_PRESENT \<noteq> 0 \<longleftrightarrow> access_allowed (of_nat k) False) \<and> pte_present (protection_map ! k) \<and>
   protection_map ! k AND NOT 0x127 = 0 \<and>
   (protection_map ! k AND PAGE_PRESENT \<noteq> 0 \<longrightarrow> protection_map ! k AND NOT (PAGE_GLOBAL OR PAGE_IOMAP) = protection_map ! k \<and>
      protection_map ! k AND (NOT (PAGE_GLOBAL OR PAGE_IOMAP) OR PAGE_GLOBAL) = protection_map ! k)"
  by (erule map_cases) code_simp

lemma access_low: "access_allowed (f AND 15) wrt = access_allowed f wrt"
  by (simp add: access_allowed_def VM_READ_def VM_WRITE_def VM_EXEC_def and.assoc)

lemma page_prot:
  "hw_access (vm_get_page_prot f) False \<longleftrightarrow> access_allowed f False" "hw_access (vm_get_page_prot f) True \<Longrightarrow> access_allowed f True"
  "pte_present (vm_get_page_prot f)"
proof -
  obtain k where k: "k < 16" "vm_get_page_prot f = protection_map ! k" "f AND 15 = of_nat k" by (rule prot_index)
  note m = prot_map_access [OF k(1), folded k(2,3), unfolded access_low]
  show "hw_access (vm_get_page_prot f) False \<longleftrightarrow> access_allowed f False" "hw_access (vm_get_page_prot f) True \<Longrightarrow> access_allowed f True"
    "pte_present (vm_get_page_prot f)" using m by blast+
qed

lemma page_prot_supported: "massage_pgprot env (vm_get_page_prot f) = vm_get_page_prot f"
proof -
  obtain k where k: "k < 16" "vm_get_page_prot f = protection_map ! k" by (rule prot_index)
  show ?thesis
    using prot_map_access [OF k(1)] unfolding k(2) massage_pgprot_def supported_pte_mask_def Let_def by simp
qed

lemma page_prot_low: "vm_get_page_prot f AND NOT 0x127 = 0"
proof -
  obtain k where k: "k < 16" "vm_get_page_prot f = protection_map ! k" by (rule prot_index)
  show ?thesis using prot_map_access [OF k(1)] unfolding k(2) by simp
qed

text \<open>\<^verbatim>\<open>pgprot_modify\<close> leaves nothing of an old protection but the bit all of them have.\<close>

lemma page_prot_modify: "pgprot_modify (vm_get_page_prot f) (vm_get_page_prot g) = vm_get_page_prot g"
proof -
  obtain k where k: "k < 16" "vm_get_page_prot f = protection_map ! k" by (rule prot_index)
  obtain l where l: "l < 16" "vm_get_page_prot g = protection_map ! l" by (rule prot_index)
  have "protection_map ! k AND PAGE_CHG_MASK = PAGE_ACCESSED" by (rule map_cases [OF k(1)]) code_simp
  moreover have "PAGE_ACCESSED OR protection_map ! l = protection_map ! l" by (rule map_cases [OF l(1)]) code_simp
  ultimately show ?thesis unfolding pgprot_modify_def k(2) l(2) by simp
qed

lemmas pte_bits = PAGE_PRESENT_def PAGE_RW_def PAGE_USER_def PAGE_PWT_def PAGE_PCD_def PAGE_ACCESSED_def PAGE_DIRTY_def PAGE_GLOBAL_def
  PAGE_SPECIAL_def PAGE_IOMAP_def PAGE_PROTNONE_def PTE_PFN_MASK_def PAGE_MASK_def

text \<open>What permits an access are four bits of an entry.\<close>

lemma access_bits:
  assumes "e AND 0x107 = d AND 0x107"
  shows "hw_access e wrt = hw_access d wrt" "pte_present e = pte_present d" "agrees f e = agrees f d"
proof -
  have b: "e AND x = d AND x" if "0x107 AND x = x" for x
    using arg_cong [OF assms, of "\<lambda>y. y AND x"] that by (simp add: and.assoc)
  have "e AND 1 = d AND 1" "e AND 2 = d AND 2" "e AND 4 = d AND 4" "e AND 0x101 = d AND 0x101" by (rule b; simp)+
  then have h: "hw_access e w = hw_access d w" "pte_present e = pte_present d" for w
    by (simp_all add: hw_access_def pte_present_def pte_bits)
  show "hw_access e wrt = hw_access d wrt" "pte_present e = pte_present d" by (rule h)+
  show "agrees f e = agrees f d" by (simp add: agrees_def h)
qed

lemma pte_modify_bits: "pte_modify env e (vm_get_page_prot f) AND 0x107 = vm_get_page_prot f AND 0x107"
  unfolding pte_modify_def page_prot_supported
  by (simp add: PAGE_CHG_MASK_def pte_bits bit.conj_disj_distrib2 and.assoc)

lemma pfn_pte_bits: "pfn_pte env pfn (vm_get_page_prot f) AND 0x107 = vm_get_page_prot f AND 0x107"
proof -
  have "push_bit 12 pfn AND mask 9 = (0 :: word32)"
    by (simp add: take_bit_push_bit flip: take_bit_eq_mask)
  then have "(push_bit 12 pfn AND mask 9) AND 0x107 = (0 :: word32)" by simp
  then have "push_bit 12 pfn AND (0x107 :: word32) = 0" by (simp add: and.assoc mask_eq_exp_minus_1)
  then show ?thesis unfolding pfn_pte_def page_prot_supported by (simp add: bit.conj_disj_distrib2)
qed

lemma mark_bits [simp]:
  "pte_mkdirty e AND 0x107 = e AND 0x107" "pte_mkyoung e AND 0x107 = e AND 0x107"
  "pte_mkclean e AND 0x107 = e AND 0x107" "pte_mkold e AND 0x107 = e AND 0x107"
  by (simp_all add: pte_mkdirty_def pte_mkyoung_def pte_mkclean_def pte_mkold_def pte_bits bit.conj_disj_distrib2 and.assoc)

lemma prot_agrees: "e AND 0x107 = vm_get_page_prot f AND 0x107 \<Longrightarrow> agrees f e"
  using page_prot access_bits(3) [of e "vm_get_page_prot f" f] by (simp add: agrees_def)

lemma access_core: "access_allowed (core_flags f) wrt = access_allowed f wrt"
  by (simp add: access_allowed_def core_flags_def VM_READ_def VM_WRITE_def VM_EXEC_def VM_CAN_NONLINEAR_def and.assoc)

lemma agrees_core: "agrees (core_flags f) e = agrees f e"
  by (simp add: agrees_def access_core)

lemma absent_no_access: "\<not> pte_present e \<Longrightarrow> \<not> hw_access e wrt"
  using hw_present by blast

lemma absent_agrees: "\<not> pte_present e \<Longrightarrow> agrees f e"
  by (simp add: agrees_def absent_no_access)

lemma mkwrite_bits: "hw_access (pte_mkwrite e) False = hw_access e False" "pte_present (pte_mkwrite e) = pte_present e"
  by (simp_all add: hw_access_def pte_present_def pte_mkwrite_def pte_bits bit.conj_disj_distrib2)

lemma mkwrite_agrees: "agrees f e \<Longrightarrow> access_allowed f True \<Longrightarrow> agrees f (pte_mkwrite e)"
  by (simp add: agrees_def mkwrite_bits)

section \<open>Rewriting entries\<close>

lemma aligned_next:
  assumes "page_aligned a" "page_aligned e" "a < e"
  shows "a < a + PAGE_SIZE" "a + PAGE_SIZE \<le> e" "page_aligned (a + PAGE_SIZE)"
    "page_aligned x \<Longrightarrow> (a \<le> x \<and> x < e) = (x = a \<or> a + PAGE_SIZE \<le> x \<and> x < e)"
    "unat (a + PAGE_SIZE) = unat a + 4096"
proof -
  have d: "unat a + 4096 \<le> unat x" if "page_aligned x" "a < x" for x
  proof -
    note x = that
    obtain i where i: "unat a = 4096 * i" using assms(1) by (auto simp: page_aligned_iff)
    obtain j where j: "unat x = 4096 * j" using x(1) by (auto simp: page_aligned_iff)
    show ?thesis using x(2) unfolding word_less_nat_alt i j by simp
  qed
  have "unat e < 4294967296" using unsigned_less [of e] by simp
  then show u: "unat (a + PAGE_SIZE) = unat a + 4096" using d [OF assms(2,3)] by (simp add: PAGE_SIZE_def unat_word_ariths)
  show "a < a + PAGE_SIZE" "a + PAGE_SIZE \<le> e" using u d [OF assms(2,3)] by (simp_all add: word_less_nat_alt word_le_nat_alt)
  have "page_aligned PAGE_SIZE" by (simp add: page_aligned_def PAGE_SIZE_def PAGE_MASK_def)
  then show "page_aligned (a + PAGE_SIZE)" by (rule page_aligned_add [OF assms(1)])
  show "(a \<le> x \<and> x < e) = (x = a \<or> a + PAGE_SIZE \<le> x \<and> x < e)" if "page_aligned x"
    using d [OF that] assms(3) unfolding word_le_nat_alt word_less_nat_alt u by (cases "unat x = unat a") (auto simp: word_unat_eq_iff)
qed

lemma change_pte_range_run:
  assumes e: "page_aligned e"
  shows "page_aligned a \<Longrightarrow> a < e \<Longrightarrow> change_pte_range env a e prot d pt =
    ret (\<lambda>x. if page_aligned x \<and> a \<le> x \<and> x < e then change_pte env prot d (pt x) else pt x)"
proof (induction "unat e - unat a" arbitrary: a pt rule: less_induct)
  case less
  note n = aligned_next [OF less.prems(1) e less.prems(2)]
  let ?pt = "pt(a := change_pte env prot d (pt a))"
  show ?case
  proof (cases "a + PAGE_SIZE = e")
    case True
    have "?pt x = (if page_aligned x \<and> a \<le> x \<and> x < e then change_pte env prot d (pt x) else pt x)" for x
      using n(4) [of x] True less.prems by auto
    then show ?thesis using True by (subst change_pte_range.simps) (simp add: Let_def fun_eq_iff)
  next
    case False
    then have lt: "a + PAGE_SIZE < e" using n(2) by simp
    have m: "unat e - unat (a + PAGE_SIZE) < unat e - unat a"
      using n(1) lt by (simp add: word_less_nat_alt)
    have "(if page_aligned x \<and> a + PAGE_SIZE \<le> x \<and> x < e then change_pte env prot d (?pt x) else ?pt x) =
        (if page_aligned x \<and> a \<le> x \<and> x < e then change_pte env prot d (pt x) else pt x)" for x
      using n(1) n(4) [of x] less.prems by (auto simp: not_le)
    then show ?thesis
      using False less.hyps [OF m n(3) lt, of ?pt] by (subst change_pte_range.simps) (simp add: Let_def)
  qed
qed

lemma access_private: "access_allowed (f AND NOT VM_SHARED) wrt = access_allowed f wrt"
  by (simp add: access_allowed_def VM_READ_def VM_WRITE_def VM_EXEC_def VM_SHARED_def and.assoc)

lemma agrees_private: "agrees (f AND NOT VM_SHARED) e = agrees f e"
  by (simp add: agrees_def access_private)

lemma change_pte_agrees:
  assumes "prot = vm_get_page_prot f \<or> prot = vm_get_page_prot (f AND NOT VM_SHARED)" "d \<longrightarrow> access_allowed f True"
  shows "agrees f (change_pte env prot d e)"
proof -
  have "agrees f (pte_modify env e prot)"
    using assms(1)
  proof
    assume "prot = vm_get_page_prot f"
    then show ?thesis by (simp add: prot_agrees pte_modify_bits)
  next
    assume "prot = vm_get_page_prot (f AND NOT VM_SHARED)"
    then have "agrees (f AND NOT VM_SHARED) (pte_modify env e prot)" by (simp add: prot_agrees pte_modify_bits)
    then show ?thesis by (simp add: agrees_private)
  qed
  then show ?thesis using assms(2) by (simp add: change_pte_def Let_def absent_agrees mkwrite_agrees)
qed

definition no_huge :: "vma list \<Rightarrow> bool" where
  "no_huge xs \<longleftrightarrow> (\<forall>x f. flags_at xs x = Some f \<longrightarrow> f AND VM_HUGETLB = 0)"

lemma pages_ok_same: "flags_at ys = flags_at xs \<Longrightarrow> pages_ok ys pt = pages_ok xs pt"
  by (simp add: pages_ok_def)

lemma huge_core: "core_flags f AND VM_HUGETLB = f AND VM_HUGETLB"
  by (simp add: core_flags_def VM_CAN_NONLINEAR_def VM_HUGETLB_def and.assoc)

lemma flags_at_inside:
  assumes "vmas_ok (pre @ v # post)" "vm_start v \<le> x" "x < vm_end v"
  shows "flags_at (pre @ v # post) x = Some (core_flags (vm_flags v))"
proof -
  have "flags_at pre x = None"
    using assms by (intro flags_at_outer(1) [where s = "vm_start v"]) auto
  then show ?thesis using assms(2,3) by simp
qed

lemma flags_at_member:
  assumes "vmas_ok xs" "v \<in> set xs" "vm_start v \<le> x" "x < vm_end v"
  shows "flags_at xs x = Some (core_flags (vm_flags v))"
proof -
  obtain pre post where "xs = pre @ v # post" using split_list [OF assms(2)] by blast
  then show ?thesis using flags_at_inside [of pre v post x] assms by simp
qed

lemma no_huge_iff:
  assumes "vmas_ok xs"
  shows "no_huge xs \<longleftrightarrow> (\<forall>v \<in> set xs. vm_flags v AND VM_HUGETLB = 0)"
proof
  assume h: "no_huge xs"
  show "\<forall>v \<in> set xs. vm_flags v AND VM_HUGETLB = 0"
  proof
    fix v assume v: "v \<in> set xs"
    have "vm_start v < vm_end v" using vmas_ok_member [OF assms v] by (rule vma_okD)
    then have "flags_at xs (vm_start v) = Some (core_flags (vm_flags v))" by (intro flags_at_member [OF assms v]) simp_all
    then show "vm_flags v AND VM_HUGETLB = 0" using h unfolding no_huge_def by (metis huge_core)
  qed
qed (auto simp: no_huge_def huge_core dest!: flags_at_Some)

lemma pages_okI:
  assumes "\<And>x. page_aligned x \<Longrightarrow> flags_at xs x = None \<Longrightarrow> pt x = 0"
    and "\<And>x v. page_aligned x \<Longrightarrow> v \<in> set xs \<Longrightarrow> vm_start v \<le> x \<Longrightarrow> x < vm_end v \<Longrightarrow> agrees (core_flags (vm_flags v)) (pt x)"
  shows "pages_ok xs pt"
  using assms unfolding pages_ok_def pte_none_def by (auto split: option.splits dest: flags_at_Some)

lemma pages_okD:
  assumes "vmas_ok xs" "pages_ok xs pt" "page_aligned x"
  shows "flags_at xs x = None \<Longrightarrow> pt x = 0" "v \<in> set xs \<Longrightarrow> vm_start v \<le> x \<Longrightarrow> x < vm_end v \<Longrightarrow> agrees (vm_flags v) (pt x)"
proof -
  note p = assms(2) [unfolded pages_ok_def, rule_format, OF assms(3)]
  show "pt x = 0" if "flags_at xs x = None" using p that by (simp add: pte_none_def)
  show "agrees (vm_flags v) (pt x)" if "v \<in> set xs" "vm_start v \<le> x" "x < vm_end v"
    using p flags_at_member [OF assms(1) that] by (simp add: agrees_core)
qed

text \<open>The areas and the page table of an address space.\<close>

definition table_ok :: "vma list \<Rightarrow> ptab \<Rightarrow> bool" where
  "table_ok xs pt \<longleftrightarrow> no_huge xs \<and> pages_ok xs pt"

definition space_ok :: "mm \<Rightarrow> bool" where
  "space_ok m \<longleftrightarrow> vmas_ok (mm_mmap m) \<and> table_ok (mm_mmap m) (mm_pgd m) \<and> mm_def_flags m AND VM_HUGETLB = 0"

lemma table_ok_same: "flags_at ys = flags_at xs \<Longrightarrow> table_ok ys pt = table_ok xs pt"
  by (simp add: table_ok_def no_huge_def pages_ok_def)

text \<open>New areas go where nothing was mapped, so that there are no entries to agree with.\<close>

definition unmapped :: "vma list \<Rightarrow> addr \<Rightarrow> addr \<Rightarrow> bool" where
  "unmapped xs a e \<longleftrightarrow> (\<forall>x. a \<le> x \<and> x < e \<longrightarrow> flags_at xs x = None)"

lemma table_ok_put:
  assumes t: "table_ok xs pt" and u: "unmapped xs s e" and y: "flags_at ys = put_range (flags_at xs) s e (Some f)"
    and f: "f AND VM_HUGETLB = 0"
  shows "table_ok ys pt"
proof -
  have "pages_ok ys pt"
    unfolding pages_ok_def y put_range_def
  proof (intro allI impI)
    fix x assume "page_aligned x"
    then have c: "case flags_at xs x of None \<Rightarrow> pte_none (pt x) | Some g \<Rightarrow> agrees g (pt x)"
      using t unfolding table_ok_def pages_ok_def by blast
    show "case if s \<le> x \<and> x < e then Some f else flags_at xs x of None \<Rightarrow> pte_none (pt x) | Some g \<Rightarrow> agrees g (pt x)"
    proof (cases "s \<le> x \<and> x < e")
      case True
      then have "pt x = 0" using c u by (simp add: unmapped_def pte_none_def)
      then show ?thesis using True by simp
    next
      case False
      show ?thesis unfolding if_not_P [OF False] by (rule c)
    qed
  qed
  moreover have "no_huge ys" using t f unfolding table_ok_def no_huge_def y put_range_def by (simp split: if_splits)
  ultimately show ?thesis by (simp add: table_ok_def)
qed

section \<open>Clearing entries\<close>

lemma zap_pte_range_run:
  assumes "page_aligned a" "page_aligned e" "unat e = unat a + 4096 * n"
  shows "zap_pte_range n a pt = (\<lambda>x. if page_aligned x \<and> a \<le> x \<and> x < e then 0 else pt x)"
  using assms
proof (induction n arbitrary: a pt)
  case 0
  then have "e = a" by (simp add: word_unat_eq_iff)
  then show ?case by (auto simp: fun_eq_iff)
next
  case (Suc n)
  have "a < e" using Suc.prems(3) by (simp add: word_less_nat_alt)
  note n = aligned_next [OF Suc.prems(1,2) this]
  have e: "unat e = unat (a + PAGE_SIZE) + 4096 * n" using Suc.prems(3) n(5) by simp
  have "zap_pte_range (Suc n) a pt = zap_pte_range n (a + PAGE_SIZE) (pt(a := 0))" by (simp add: fun_upd_idem)
  also have "\<dots> = (\<lambda>x. if page_aligned x \<and> a + PAGE_SIZE \<le> x \<and> x < e then 0 else (pt(a := 0)) x)"
    by (rule Suc.IH [OF n(3) Suc.prems(2) e])
  also have "\<dots> = (\<lambda>x. if page_aligned x \<and> a \<le> x \<and> x < e then 0 else pt x)"
  proof
    fix x
    show "(if page_aligned x \<and> a + PAGE_SIZE \<le> x \<and> x < e then 0 else (pt(a := 0)) x) =
        (if page_aligned x \<and> a \<le> x \<and> x < e then 0 else pt x)"
      using n(4) [of x] Suc.prems(1) \<open>a < e\<close> by (cases "x = a") auto
  qed
  finally show ?case .
qed

lemma unmap_page_range_run:
  assumes "page_aligned a" "page_aligned e" "a \<le> e"
  shows "unmap_page_range a e pt = (\<lambda>x. if page_aligned x \<and> a \<le> x \<and> x < e then 0 else pt x)"
proof -
  have "4096 dvd unat e - unat a" using assms(1,2) by (simp add: page_aligned_iff)
  moreover have "unat (pages (e - a)) = (unat e - unat a) div 4096"
    using assms(3) by (simp add: pages_def drop_bit_eq_div unat_div unat_sub)
  ultimately have "unat e = unat a + 4096 * unat (pages (e - a))" using assms(3) by (simp add: word_le_nat_alt)
  then show ?thesis unfolding unmap_page_range_def by (rule zap_pte_range_run [OF assms(1,2)])
qed

lemma unmap_vmas_run:
  assumes "vmas_ok vs" "\<forall>v \<in> set vs. vm_flags v AND VM_HUGETLB = 0 \<and> s \<le> vm_start v \<and> vm_end v \<le> e"
  shows "unmap_vmas env s e vs pt = (\<lambda>x. if page_aligned x \<and> flags_at vs x \<noteq> None then 0 else pt x)"
  using assms
proof (induction vs arbitrary: pt)
  case (Cons v vs)
  have v: "vma_ok v" "s \<le> vm_start v" "vm_end v \<le> e" "vm_flags v AND VM_HUGETLB = 0" using Cons.prems by auto
  then have o: "vm_start v < vm_end v" "page_aligned (vm_start v)" "page_aligned (vm_end v)" by (simp_all add: vma_ok_def)
  have "max (vm_start v) s = vm_start v" "min (vm_end v) e = vm_end v" using v(2,3) by (simp_all add: max_def min_def)
  moreover have "vm_start v < e" using o(1) v(3) by (rule less_le_trans)
  moreover have "\<not> vm_end v \<le> vm_start v" using o(1) by simp
  ultimately have "unmap_vmas env s e (v # vs) pt = unmap_vmas env s e vs (unmap_page_range (vm_start v) (vm_end v) pt)"
    using v(4) by (simp add: Let_def)
  also have "\<dots> = (\<lambda>x. if page_aligned x \<and> flags_at vs x \<noteq> None then 0 else unmap_page_range (vm_start v) (vm_end v) pt x)"
    using Cons.IH Cons.prems by simp
  also have "\<dots> = (\<lambda>x. if page_aligned x \<and> flags_at (v # vs) x \<noteq> None then 0 else pt x)"
  proof
    fix x
    show "(if page_aligned x \<and> flags_at vs x \<noteq> None then 0 else unmap_page_range (vm_start v) (vm_end v) pt x) =
        (if page_aligned x \<and> flags_at (v # vs) x \<noteq> None then 0 else pt x)"
      unfolding unmap_page_range_run [OF o(2,3) less_imp_le [OF o(1)]]
      by (cases "page_aligned x"; cases "vm_start v \<le> x \<and> x < vm_end v"; cases "flags_at vs x") auto
  qed
  finally show ?case .
qed simp

lemma flags_within:
  assumes "vmas_ok vs" "flags_at vs = (\<lambda>x. if s \<le> x \<and> x < e then f x else None)" "v \<in> set vs"
  shows "s \<le> vm_start v" "vm_end v \<le> e"
proof -
  have o: "vm_start v < vm_end v" using vmas_ok_member [OF assms(1,3)] by (rule vma_okD)
  have at: "s \<le> x \<and> x < e" if "vm_start v \<le> x" "x < vm_end v" for x
    using flags_at_member [OF assms(1,3) that] unfolding assms(2) by (simp split: if_splits)
  show "s \<le> vm_start v" using at [of "vm_start v"] o by simp
  show "vm_end v \<le> e"
  proof (rule ccontr)
    assume "\<not> vm_end v \<le> e"
    then have "e < vm_end v" by simp
    moreover have "vm_start v < e" using at [of "vm_start v"] o by simp
    ultimately show False using at [OF less_imp_le] by blast
  qed
qed

lemma do_munmap_table:
  assumes ok: "vmas_ok (mm_mmap m)" and t: "table_ok (mm_mmap m) (mm_pgd m)" and d: "do_munmap env s len m = (r, m')"
  shows "table_ok (mm_mmap m') (mm_pgd m')"
proof -
  let ?e = "s + PAGE_ALIGN len"
  note k = do_munmap_keeps [OF ok d]
  show ?thesis
  proof (cases "r = 0")
    case False
    then have "flags_at (mm_mmap m') = flags_at (mm_mmap m)" "mm_pgd m' = mm_pgd m" using k(2,3) by simp_all
    then show ?thesis using t table_ok_same [of "mm_mmap m'" "mm_mmap m"] by simp
  next
    case True
    obtain gone where g: "vmas_ok gone" "flags_at gone = (\<lambda>x. if s \<le> x \<and> x < ?e then flags_at (mm_mmap m) x else None)"
      "mm_pgd m' = unmap_vmas env s ?e gone (mm_pgd m)"
      using k(3) unfolding if_P [OF True] pages_unmapped_def by blast
    have "no_huge gone" using t by (simp add: table_ok_def no_huge_def g(2))
    then have "\<forall>v \<in> set gone. vm_flags v AND VM_HUGETLB = 0 \<and> s \<le> vm_start v \<and> vm_end v \<le> ?e"
      using flags_within [OF g(1,2)] by (simp add: no_huge_iff [OF g(1)])
    note run = unmap_vmas_run [OF g(1) this]
    have pt: "mm_pgd m' x = (if page_aligned x \<and> s \<le> x \<and> x < ?e \<and> flags_at (mm_mmap m) x \<noteq> None then 0 else mm_pgd m x)" for x
      unfolding g(3) run g(2) by auto
    have fl: "flags_at (mm_mmap m') x = (if s \<le> x \<and> x < ?e then None else flags_at (mm_mmap m) x)" for x
      using k(2) True by (simp add: put_range_def)
    have h: "no_huge (mm_mmap m')" using t unfolding table_ok_def no_huge_def fl by (simp split: if_splits)
    have "pages_ok (mm_mmap m') (mm_pgd m')"
      unfolding pages_ok_def
    proof (intro allI impI)
      fix x assume "page_aligned x"
      then have "case flags_at (mm_mmap m) x of None \<Rightarrow> mm_pgd m x = 0 | Some f \<Rightarrow> agrees f (mm_pgd m x)"
        using t unfolding table_ok_def pages_ok_def pte_none_def by blast
      then show "case flags_at (mm_mmap m') x of None \<Rightarrow> pte_none (mm_pgd m' x) | Some f \<Rightarrow> agrees f (mm_pgd m' x)"
        using \<open>page_aligned x\<close>
        by (cases "s \<le> x \<and> x < ?e"; cases "flags_at (mm_mmap m) x") (simp_all only: fl pt, simp_all add: pte_none_def)
    qed
    then show ?thesis using h by (simp add: table_ok_def)
  qed
qed

end
