(* ===== verification/Kernel_Protect.thy ===== *)
theory Kernel_Protect
  imports Kernel_Agree Kernel_Absys
begin

text \<open>
  The loop of \<^verbatim>\<open>absys_mprotect\<close> and \<^verbatim>\<open>mprotect\<close>: it ends, on success it has put the
  requested protection on exactly its range, and when it stops early it has done so on a
  prefix of the range.
\<close>

text \<open>What matters of the flags: all but the accounting bit and \<^verbatim>\<open>VM_CAN_NONLINEAR\<close>.\<close>

definition vis :: "word32 \<Rightarrow> word32" where
  "vis f = f AND NOT (VM_ACCOUNT OR VM_CAN_NONLINEAR)"

definition view_at :: "vma list \<Rightarrow> addr \<Rightarrow> word32 option" where
  "view_at xs a = map_option vis (flags_at xs a)"

definition reprot :: "word32 \<Rightarrow> word32 \<Rightarrow> word32" where
  "reprot bits f = bits OR (f AND NOT VM_RWX)"

definition reprot_range :: "word32 \<Rightarrow> addr \<Rightarrow> addr \<Rightarrow> (addr \<Rightarrow> word32 option) \<Rightarrow> addr \<Rightarrow> word32 option" where
  "reprot_range bits s e f = (\<lambda>a. if s \<le> a \<and> a < e then map_option (reprot bits) (f a) else f a)"

lemma VM_RWX_7: "VM_RWX = 7"
  by (simp add: VM_RWX_def VM_READ_def VM_WRITE_def VM_EXEC_def)

lemma vis_core [simp]: "vis (core_flags f) = vis f"
  unfolding vis_def core_flags_def by (rule bit_word_eqI) (auto simp: bit_simps)

lemma vis_vis [simp]: "vis (vis f) = vis f"
  unfolding vis_def by (rule bit_word_eqI) (auto simp: bit_simps)

lemma vis_fixed [simp]: "vis (fixed_flags old new) = vis new"
  unfolding vis_def fixed_flags_def by (auto intro!: bit_word_eqI simp: bit_simps)

lemma vis_prot: "bits AND VM_RWX = bits \<Longrightarrow> vis bits = bits"
proof -
  assume b: "bits AND VM_RWX = bits"
  have "VM_RWX AND NOT (VM_ACCOUNT OR VM_CAN_NONLINEAR) = VM_RWX"
    by (simp add: VM_RWX_7 VM_ACCOUNT_def VM_CAN_NONLINEAR_def)
  then have "(bits AND VM_RWX) AND NOT (VM_ACCOUNT OR VM_CAN_NONLINEAR) = bits AND VM_RWX"
    by (simp add: and.assoc)
  then show "vis bits = bits" unfolding b vis_def .
qed

lemma vis_reprot: "bits AND VM_RWX = bits \<Longrightarrow> vis (reprot bits f) = reprot bits (vis f)"
proof -
  assume "bits AND VM_RWX = bits"
  then have "vis bits = bits" by (rule vis_prot)
  moreover have "vis (reprot bits f) = vis bits OR (vis f AND NOT VM_RWX)"
    unfolding vis_def reprot_def by (rule bit_word_eqI) (auto simp: bit_simps)
  ultimately show ?thesis by (simp add: reprot_def)
qed

lemma reprot_idem [simp]: "reprot bits (reprot bits f) = reprot bits f"
  unfolding reprot_def by (rule bit_word_eqI) (auto simp: bit_simps)


lemma view_at_Some: "view_at xs a = Some g \<longleftrightarrow> (\<exists>f. flags_at xs a = Some f \<and> g = vis f)"
  by (auto simp: view_at_def)

text \<open>
  \<^verbatim>\<open>mprotect_fixup\<close> ends, and its second half leaves entries that agree with the flags its first
  half has put on the area.
\<close>

lemma fixed_huge:
  assumes "bits AND VM_RWX = bits"
  shows "fixed_flags f (reprot bits f) AND VM_HUGETLB = f AND VM_HUGETLB"
proof -
  have "(bits AND VM_RWX) AND VM_HUGETLB = 0" by (simp add: VM_RWX_7 VM_HUGETLB_def and.assoc)
  then have "bits AND VM_HUGETLB = 0" unfolding assms .
  then show ?thesis
    by (simp add: fixed_flags_def reprot_def bit.conj_disj_distrib2 and.assoc VM_RWX_7 VM_HUGETLB_def VM_ACCOUNT_def)
qed

lemma changed_agrees:
  assumes "prot = (if d then vm_get_page_prot (vm_flags w AND NOT VM_SHARED) else vm_page_prot w)" "d = vma_wants_writenotify env w"
  shows "agrees (vm_flags w) (change_pte env prot d e)"
proof -
  have "d \<longrightarrow> access_allowed (vm_flags w) True"
  proof
    assume d
    then have b: "vm_flags w AND 10 = 10" by (simp add: assms(2) vma_wants_writenotify_def VM_WRITE_def VM_SHARED_def)
    have "(vm_flags w AND 10) AND 2 = vm_flags w AND 2" by (simp add: and.assoc)
    then show "access_allowed (vm_flags w) True" unfolding b by (simp add: access_allowed_def VM_WRITE_def)
  qed
  then show ?thesis by (intro change_pte_agrees) (auto simp: assms(1) vm_page_prot_def)
qed

lemma reflagged_table:
  assumes ok: "vmas_ok (pre @ v # post)" and v: "vm_start v \<le> s" "s < tmp" "tmp \<le> vm_end v"
    and bits: "bits AND VM_RWX = bits" and t: "table_ok (pre @ v # post) pt"
    and r: "reflagged (pre @ v # post) s tmp (fixed_flags (vm_flags v) (reprot bits (vm_flags v))) pre' w post'"
    and c: "\<And>e. agrees (vm_flags w) (c e)"
  shows "vm_flags w AND VM_HUGETLB = 0"
    "table_ok (pre' @ w # post') (\<lambda>x. if page_aligned x \<and> s \<le> x \<and> x < tmp then c (pt x) else pt x)"
proof -
  let ?new = "fixed_flags (vm_flags v) (reprot bits (vm_flags v))"
  have w: "vmas_ok (pre' @ w # post')" "vm_start w \<le> s" "tmp \<le> vm_end w"
    and fl: "flags_at (pre' @ w # post') = put_range (flags_at (pre @ v # post)) s tmp (Some (core_flags ?new))"
    using r by (simp_all add: reflagged_def)
  have "s < vm_end w" "s < vm_end v" using v(2,3) w(3) by auto
  then have core: "core_flags ?new = core_flags (vm_flags w)"
    using flags_at_inside [OF w(1,2)] v(2) unfolding fl put_range_def by simp
  have "flags_at (pre @ v # post) s = Some (core_flags (vm_flags v))" using flags_at_inside [OF ok v(1) \<open>s < vm_end v\<close>] .
  then have "vm_flags v AND VM_HUGETLB = 0" using t huge_core unfolding table_ok_def no_huge_def by metis
  then show hw: "vm_flags w AND VM_HUGETLB = 0"
    using arg_cong [OF core, of "\<lambda>f. f AND VM_HUGETLB"] fixed_huge [OF bits] by (simp add: huge_core)
  have "no_huge (pre' @ w # post')"
    using t hw unfolding table_ok_def no_huge_def fl core put_range_def by (simp add: huge_core split: if_splits)
  then show "table_ok (pre' @ w # post') (\<lambda>x. if page_aligned x \<and> s \<le> x \<and> x < tmp then c (pt x) else pt x)"
    using t c unfolding table_ok_def pages_ok_def fl core put_range_def by (simp add: agrees_core)
qed

lemma mprotect_fixup_keeps:
  assumes ok: "vmas_ok (pre @ v # post)" and v: "vm_start v \<le> s" "s < tmp" "tmp \<le> vm_end v"
    and al: "page_aligned s" "page_aligned tmp" and bits: "bits AND VM_RWX = bits"
  obtains err pre' w post' pt' where
    "mprotect_fixup env pre v post s tmp (reprot bits (vm_flags v)) pt = ret (err, pre', w, post', pt')"
    "if err = 0 then reflagged (pre @ v # post) s tmp (fixed_flags (vm_flags v) (reprot bits (vm_flags v))) pre' w post'
     else vmas_ok (pre' @ w # post') \<and> flags_at (pre' @ w # post') = flags_at (pre @ v # post)"
    "table_ok (pre @ v # post) pt \<longrightarrow> table_ok (pre' @ w # post') pt'"
proof -
  let ?new = "reprot bits (vm_flags v)"
  obtain err pre' w post' where fx: "fixup_areas env pre v post s tmp ?new = ret (err, pre', w, post')"
    and r: "if err = 0 then reflagged (pre @ v # post) s tmp (fixed_flags (vm_flags v) ?new) pre' w post'
     else vmas_ok (pre' @ w # post') \<and> flags_at (pre' @ w # post') = flags_at (pre @ v # post)"
    by (rule fixup_areas_keeps [OF ok v(1) al(1) v(2,3) al(2), of env ?new])
  show thesis
  proof (cases "err \<noteq> 0 \<or> ?new = vm_flags v")
    case True
    have "flags_at (pre' @ w # post') = flags_at (pre @ v # post)"
    proof (cases "err = 0")
      case z: True
      then have "?new = vm_flags v" using True by simp
      then show ?thesis using fx by (simp only: fixup_areas_def) simp
    qed (use r in simp)
    from table_ok_same [OF this, of pt] show thesis
      using that [OF _ r, of pt] fx True by (simp add: mprotect_fixup_def)
  next
    case False
    then have rf: "reflagged (pre @ v # post) s tmp (fixed_flags (vm_flags v) ?new) pre' w post'" using r by simp
    define d where "d = vma_wants_writenotify env w"
    define prot where "prot = (if d then vm_get_page_prot (vm_flags w AND NOT VM_SHARED) else vm_page_prot w)"
    note run = change_pte_range_run [OF al(2,1) v(2), of env prot d pt]
    note tab = reflagged_table [where c = "change_pte env prot d", OF ok v bits _ rf changed_agrees [OF prot_def d_def]]
    show thesis
    proof (cases "vm_flags w AND VM_HUGETLB = 0")
      case True
      then show thesis
        using that [OF _ r, of "\<lambda>x. if page_aligned x \<and> s \<le> x \<and> x < tmp then change_pte env prot d (pt x) else pt x"]
          fx False v(2) run tab(2) by (simp add: mprotect_fixup_def Let_def change_protection_def d_def prot_def)
    next
      case h: False
      then show thesis
        using that [OF _ r, of "ke_hugetlb_protect env w s tmp prot pt"] fx False tab(1)
        by (auto simp: mprotect_fixup_def Let_def d_def prot_def)
    qed
  qed
qed

text \<open>One round of the loop, from the point of view of the flags.\<close>

lemma mprotect_round:
  assumes ok: "vmas_ok (pre @ v # post)" and v: "vm_start v \<le> s" "s < tmp" "tmp \<le> vm_end v"
    and bits: "bits AND VM_RWX = bits"
    and r: "reflagged (pre @ v # post) s tmp (fixed_flags (vm_flags v) (reprot bits (vm_flags v))) pre' w post'"
    and t: "tmp \<le> t" "t \<le> vm_end w"
  shows "view_at (pre' @ w # post') = reprot_range bits s t (view_at (pre @ v # post))"
    "\<And>x. s \<le> x \<Longrightarrow> x < t \<Longrightarrow> \<exists>f. view_at (pre @ v # post) x = Some f \<and> (f = vis (vm_flags v) \<or> f = vis (reprot bits (vm_flags v)))"
proof -
  let ?g = "reprot bits (vm_flags v)"
  have new: "flags_at (pre' @ w # post') x = (if s \<le> x \<and> x < tmp then Some (core_flags (fixed_flags (vm_flags v) ?g))
      else flags_at (pre @ v # post) x)" for x
    using r by (simp add: reflagged_def put_range_def)
  have w: "view_at (pre' @ w # post') x = Some (vis (vm_flags w))" if "vm_start w \<le> x" "x < vm_end w" for x
    using r that flags_at_inside [of pre' w post' x] by (simp add: view_at_def reflagged_def)
  have inv: "view_at (pre @ v # post) x = Some (vis (vm_flags v))" if "s \<le> x" "x < tmp" for x
    using flags_at_inside [OF ok, of x] v that by (simp add: view_at_def)
  have "vm_start w \<le> s" "s < vm_end w" using r v t by (auto simp: reflagged_def)
  then have ww: "vis (vm_flags w) = vis ?g"
    using w [of s] new [of s] v(2) by (simp add: view_at_def)
  have tail: "view_at (pre @ v # post) x = Some (vis ?g)" if "tmp \<le> x" "x < t" for x
  proof -
    have "vm_start w \<le> x" "x < vm_end w" using that t v(2) \<open>vm_start w \<le> s\<close> by auto
    moreover have "\<not> x < tmp" using that by simp
    then have "view_at (pre @ v # post) x = view_at (pre' @ w # post') x"
      unfolding view_at_def new by simp
    ultimately show ?thesis using w [of x] ww by simp
  qed
  show "view_at (pre' @ w # post') = reprot_range bits s t (view_at (pre @ v # post))"
  proof
    fix x
    show "view_at (pre' @ w # post') x = reprot_range bits s t (view_at (pre @ v # post)) x"
      using inv [of x] tail [of x] new [of x] t v(2)
      by (auto simp: reprot_range_def view_at_def vis_reprot [OF bits] not_less)
  qed
  show "\<exists>f. view_at (pre @ v # post) x = Some f \<and> (f = vis (vm_flags v) \<or> f = vis ?g)" if "s \<le> x" "x < t" for x
    using inv [of x] tail [of x] that by (cases "x < tmp") auto
qed

lemma reprot_range_join:
  "s \<le> u \<Longrightarrow> u \<le> t \<Longrightarrow> reprot_range bits u t (reprot_range bits s u f) = reprot_range bits s t f"
  by (rule ext) (auto simp: reprot_range_def)

lemma reprot_range_empty [simp]: "reprot_range bits s s f = f"
  by (rule ext) (auto simp: reprot_range_def)

definition reprotected ::
  "(word32 \<Rightarrow> bool) \<Rightarrow> word32 \<Rightarrow> addr \<Rightarrow> addr \<Rightarrow> vma list \<Rightarrow> word32 \<Rightarrow> vma list \<Rightarrow> bool" where
  "reprotected good bits s e xs err ys \<longleftrightarrow>
     vmas_ok ys \<and>
     (\<exists>t. s \<le> t \<and> t \<le> e \<and> view_at ys = reprot_range bits s t (view_at xs) \<and> (err = 0 \<longrightarrow> t = e) \<and>
       (\<forall>x. s \<le> x \<and> x < t \<longrightarrow> (\<exists>f. view_at xs x = Some f \<and> good f)))"

lemma reprotectedI:
  "vmas_ok ys \<Longrightarrow> s \<le> t \<Longrightarrow> t \<le> e \<Longrightarrow> view_at ys = reprot_range bits s t (view_at xs) \<Longrightarrow>
   (err = 0 \<Longrightarrow> t = e) \<Longrightarrow> (\<And>x. s \<le> x \<Longrightarrow> x < t \<Longrightarrow> \<exists>f. view_at xs x = Some f \<and> good f) \<Longrightarrow>
   reprotected good bits s e xs err ys"
  by (auto simp: reprotected_def)

lemma mprotect_round_good:
  assumes ok: "vmas_ok (pre @ v # post)" and v: "vm_start v \<le> s" "s < tmp" "tmp \<le> vm_end v"
    and bits: "bits AND VM_RWX = bits" and good: "good (vis (vm_flags v))" "\<And>f. good f \<Longrightarrow> good (reprot bits f)"
    and r: "reflagged (pre @ v # post) s tmp (fixed_flags (vm_flags v) (reprot bits (vm_flags v))) pre' w post'"
    and t: "tmp \<le> t" "t \<le> vm_end w" "t \<le> e" "err = 0 \<Longrightarrow> t = e"
  shows "reprotected good bits s e (pre @ v # post) err (pre' @ w # post')"
proof (rule reprotectedI [where t = t])
  show "vmas_ok (pre' @ w # post')" using r by (simp add: reflagged_def)
  show "view_at (pre' @ w # post') = reprot_range bits s t (view_at (pre @ v # post))"
    by (rule mprotect_round(1) [OF ok v bits r t(1,2)])
  have "good (vis (reprot bits (vm_flags v)))" using good by (simp add: vis_reprot [OF bits])
  then show "\<exists>f. view_at (pre @ v # post) x = Some f \<and> good f" if "s \<le> x" "x < t" for x
    using mprotect_round(2) [OF ok v bits r t(1,2) that] good(1) by blast
qed (use t v in auto)

lemma mprotect_loop_step:
  assumes bits: "bits AND VM_RWX = bits"
    and good: "\<And>v. refuse v = 0 \<Longrightarrow> good (vis (vm_flags v))" "\<And>f. good f \<Longrightarrow> good (reprot bits f)"
    and e: "page_aligned e" and ok: "vmas_ok (pre @ v # post)" and v: "vm_start v \<le> s" "s < vm_end v"
    and s: "s < e" "page_aligned s"
  obtains (halt) err ys pt' where "mprotect_loop env refuse reqprot prot bits e s pre (v # post) pt = ret (err, ys, pt')"
      "reprotected good bits s e (pre @ v # post) err ys" "table_ok (pre @ v # post) pt \<longrightarrow> table_ok ys pt'"
  | (more) pre' w n ns u pt' where "mprotect_loop env refuse reqprot prot bits e s pre (v # post) pt =
        mprotect_loop env refuse reqprot prot bits e u (pre' @ [w]) (n # ns) pt'"
      "s < u" "u < e" "vm_start n = u" "reprotected good bits s u (pre @ v # post) 0 (pre' @ w # n # ns)"
      "table_ok (pre @ v # post) pt \<longrightarrow> table_ok (pre' @ w # n # ns) pt'"
proof -
  define new where "new = reprot bits (vm_flags v)"
  define tmp where "tmp = (if vm_end v > e then e else vm_end v)"
  have tmp: "s < tmp" "tmp \<le> vm_end v" "page_aligned tmp" "tmp \<le> e"
    using v s e ok by (auto simp: tmp_def vma_ok_def)
  note def = mprotect_loop.simps [of env refuse reqprot prot bits e s pre "v # post" pt,
      unfolded list.case Let_def, folded reprot_def [of bits "vm_flags v"] new_def tmp_def]
  have stop: "reprotected good bits s e (pre @ v # post) err ys"
    if "err \<noteq> 0" "vmas_ok ys" "flags_at ys = flags_at (pre @ v # post)" for err ys
    using that s by (intro reprotectedI [where t = s]) (auto simp: view_at_def)
  show thesis
  proof (cases "refuse v \<noteq> 0 \<or> (new AND NOT (drop_bit 4 new)) AND VM_RWX \<noteq> 0 \<or> ke_file_mprotect env v reqprot prot \<noteq> 0")
    case True
    then show thesis using halt stop [OF _ ok refl] def by (auto split: if_splits)
  next
    case False
    obtain err pre' w post' pt' where fx: "mprotect_fixup env pre v post s tmp new pt = ret (err, pre', w, post', pt')"
      and r: "if err = 0 then reflagged (pre @ v # post) s tmp (fixed_flags (vm_flags v) new) pre' w post'
         else vmas_ok (pre' @ w # post') \<and> flags_at (pre' @ w # post') = flags_at (pre @ v # post)"
      and tab: "table_ok (pre @ v # post) pt \<longrightarrow> table_ok (pre' @ w # post') pt'"
      unfolding new_def by (rule mprotect_fixup_keeps [OF ok v(1) tmp(1,2) s(2) tmp(3) bits])
    show thesis
    proof (cases "err = 0")
      case nz: False
      then show thesis using halt stop [OF nz] r def False fx tab by auto
    next
      case z: True
      have rf: "reflagged (pre @ v # post) s tmp (fixed_flags (vm_flags v) (reprot bits (vm_flags v))) pre' w post'"
        using r z by (simp add: new_def)
      define u where "u = (if tmp < vm_end w then vm_end w else tmp)"
      have u: "tmp \<le> u" "u \<le> vm_end w" "s < u" using rf tmp(1) by (auto simp: u_def reflagged_def)
      have gv: "good (vis (vm_flags v))" using good(1) False by blast
      note round = mprotect_round_good [where good = good, OF ok v(1) tmp(1,2) bits gv good(2) rf]
      have step: "mprotect_loop env refuse reqprot prot bits e s pre (v # post) pt =
        (if u \<ge> e then ret (0, pre' @ w # post', pt')
         else case post' of [] \<Rightarrow> ret (- ENOMEM, pre' @ w # post', pt')
           | n # _ \<Rightarrow> if vm_start n \<noteq> u then ret (- ENOMEM, pre' @ w # post', pt')
               else mprotect_loop env refuse reqprot prot bits e u (pre' @ [w]) post' pt')"
        using def False fx z unfolding u_def by simp
      show thesis
      proof (cases "u \<ge> e")
        case True
        then show thesis using halt step round [of e e 0] tmp(4) u(2) tab by simp
      next
        case lt: False
        have bad: "reprotected good bits s e (pre @ v # post) (- ENOMEM) (pre' @ w # post')"
          using round [of u e "- ENOMEM"] u lt by (simp add: not_le less_imp_le)
        show thesis
        proof (cases "post' \<noteq> [] \<and> vm_start (hd post') = u")
          case True
          then obtain n ns where n: "post' = n # ns" "vm_start n = u" by (cases post') auto
          then show thesis using more [of u pre' w n ns pt'] step lt u round [of u u 0] tab by simp
        next
          case False
          then show thesis using halt [OF _ bad] step lt tab by (cases post') auto
        qed
      qed
    qed
  qed
qed

lemma reprotected_join:
  assumes "reprotected good bits s u xs 0 ys" "reprotected good bits u e ys err zs" "s \<le> u"
  shows "reprotected good bits s e xs err zs"
proof -
  have ys: "view_at ys = reprot_range bits s u (view_at xs)"
    and g: "\<forall>x. s \<le> x \<and> x < u \<longrightarrow> (\<exists>f. view_at xs x = Some f \<and> good f)"
    using assms(1) by (auto simp: reprotected_def)
  obtain t where t: "u \<le> t" "t \<le> e" "view_at zs = reprot_range bits u t (view_at ys)" "err = 0 \<longrightarrow> t = e"
    "\<forall>x. u \<le> x \<and> x < t \<longrightarrow> (\<exists>f. view_at ys x = Some f \<and> good f)" "vmas_ok zs"
    using assms(2) by (auto simp: reprotected_def)
  show ?thesis
  proof (rule reprotectedI [where t = t])
    show "view_at zs = reprot_range bits s t (view_at xs)"
      using t(1,3) ys assms(3) by (simp add: reprot_range_join)
    show "\<exists>f. view_at xs x = Some f \<and> good f" if "s \<le> x" "x < t" for x
    proof (cases "x < u")
      case True
      then show ?thesis using g that by blast
    next
      case False
      then have "view_at ys x = view_at xs x" by (simp add: ys reprot_range_def)
      then show ?thesis using t(5) [rule_format, of x] that False by (simp add: not_less)
    qed
  qed (use t assms(3) in auto)
qed

lemma mprotect_loop_keeps:
  assumes bits: "bits AND VM_RWX = bits"
    and good: "\<And>v. refuse v = 0 \<Longrightarrow> good (vis (vm_flags v))" "\<And>f. good f \<Longrightarrow> good (reprot bits f)"
    and e: "page_aligned e"
  shows "vmas_ok (pre @ v # post) \<Longrightarrow> vm_start v \<le> s \<Longrightarrow> s < vm_end v \<Longrightarrow> s < e \<Longrightarrow> page_aligned s \<Longrightarrow>
    \<exists>err ys pt'. mprotect_loop env refuse reqprot prot bits e s pre (v # post) pt = ret (err, ys, pt') \<and>
      reprotected good bits s e (pre @ v # post) err ys \<and> (table_ok (pre @ v # post) pt \<longrightarrow> table_ok ys pt')"
proof (induction "unat e - unat s" arbitrary: s pre v post pt rule: less_induct)
  case less
  show ?case
  proof (rule mprotect_loop_step [where good = good and refuse = refuse and env = env and reqprot = reqprot
        and prot = prot and pt = pt, OF bits good e less.prems])
    fix pre' w n ns u pt'
    assume more: "mprotect_loop env refuse reqprot prot bits e s pre (v # post) pt =
        mprotect_loop env refuse reqprot prot bits e u (pre' @ [w]) (n # ns) pt'"
      "s < u" "u < e" "vm_start n = u" "reprotected good bits s u (pre @ v # post) 0 (pre' @ w # n # ns)"
      "table_ok (pre @ v # post) pt \<longrightarrow> table_ok (pre' @ w # n # ns) pt'"
    have ok: "vmas_ok ((pre' @ [w]) @ n # ns)" using more(5) by (simp add: reprotected_def)
    then have n: "vm_start n \<le> u" "u < vm_end n" "page_aligned u" using more(4) by (auto simp: vma_ok_def)
    have "unat e - unat u < unat e - unat s"
      using more(2,3) by (simp add: word_less_nat_alt)
    from less.hyps [OF this ok n(1,2) more(3) n(3), of pt'] obtain err ys pt2 where
      r: "mprotect_loop env refuse reqprot prot bits e u (pre' @ [w]) (n # ns) pt' = ret (err, ys, pt2)"
      "reprotected good bits u e (pre' @ w # n # ns) err ys" "table_ok (pre' @ w # n # ns) pt' \<longrightarrow> table_ok ys pt2"
      by auto
    have "reprotected good bits s e (pre @ v # post) err ys" using reprotected_join [OF more(5) r(2)] more(2) by simp
    then show ?thesis unfolding more(1) r(1) using r(3) more(6) by blast
  qed (assumption, assumption, intro exI conjI, assumption+)
qed

lemma calc_vm_prot_bits_and: "calc_vm_prot_bits prot = prot AND VM_RWX"
proof -
  have "calc_vm_prot_bits prot = (prot AND 1) OR (prot AND 2) OR (prot AND 4)"
    by (simp add: calc_vm_prot_bits_def calc_vm_trans_def VM_READ_def VM_WRITE_def VM_EXEC_def PROT_EXEC_def)
  also have "\<dots> = prot AND (1 OR 2 OR 4)"
    by (simp only: bit.conj_disj_distrib or.assoc)
  finally show ?thesis by (simp add: VM_RWX_7)
qed

lemma prot_bits_rwx [simp]: "calc_vm_prot_bits prot AND VM_RWX = calc_vm_prot_bits prot"
  by (simp add: calc_vm_prot_bits_and and.assoc)

lemma mm_same [simp]: "m\<lparr>mm_mmap := mm_mmap m\<rparr> = m"
  by simp

lemma mprotect_range_Inr:
  assumes "mprotect_range grows start e v = Inr (s, e')" "start < vm_end v" "start < e"
    "page_aligned start" "page_aligned e" "vma_ok v"
  shows "vm_start v \<le> s" "s < vm_end v" "s < e'" "page_aligned s" "page_aligned e'"
  using assms by (auto simp: mprotect_range_def vma_ok_def split: if_splits)

text \<open>\<open>mprotect\<close> on one address space, on every path.\<close>

lemma mprotect_found_keeps:
  assumes ok: "vmas_ok (mm_mmap m)"
    and good: "\<And>v. refuse v = 0 \<Longrightarrow> good (vis (vm_flags v))" "\<And>f. good f \<Longrightarrow> good (reprot bits f)"
    and bits: "bits AND VM_RWX = bits"
    and f: "find_vma_prev (mm_mmap m) start = (pre, v # post)"
    and a: "page_aligned start" "page_aligned e" "start < e"
    and r: "mprotect_range grows start e v = Inr (s, e')"
  shows "\<exists>err ys pt'. mprotect_loop env refuse reqprot prot bits e' s pre (v # post) pt = ret (err, ys, pt') \<and>
      reprotected good bits s e' (mm_mmap m) err ys \<and> (table_ok (mm_mmap m) pt \<longrightarrow> table_ok ys pt')"
proof -
  note sp = find_vma_prev_split [OF f]
  have v: "start < vm_end v" "vma_ok v" using sp ok by auto
  note q = mprotect_range_Inr [OF r v(1) a(3,1,2) v(2)]
  show ?thesis
    using mprotect_loop_keeps [where good = good and refuse = refuse, OF bits good q(5) _ q(1-4), of pre post env reqprot prot pt]
      ok sp(1) by auto
qed

definition mprotect_outcome :: "(word32 \<Rightarrow> bool) \<Rightarrow> mm \<Rightarrow> (word32 \<times> mm) res \<Rightarrow> bool" where
  "mprotect_outcome good m r \<longleftrightarrow> (\<exists>err ys pt. r = ret (err, m\<lparr>mm_mmap := ys, mm_pgd := pt\<rparr>) \<and>
     (table_ok (mm_mmap m) (mm_pgd m) \<longrightarrow> table_ok ys pt) \<and>
     (ys = mm_mmap m \<or> (\<exists>s e bits. bits AND VM_RWX = bits \<and> reprotected good bits s e (mm_mmap m) err ys)))"

lemma mprotect_mm_keeps:
  assumes ok: "vmas_ok (mm_mmap m)"
    and good: "\<And>v. refuse v = 0 \<Longrightarrow> good (vis (vm_flags v))"
      "\<And>f bits. bits AND VM_RWX = bits \<Longrightarrow> good f \<Longrightarrow> good (reprot bits f)"
  shows "mprotect_outcome good m (mprotect_mm env refuse personality start len prot m)"
proof -
  have same: "mprotect_outcome good m (ret (err, m))" for err
    unfolding mprotect_outcome_def by (intro exI [of _ err] exI [of _ "mm_mmap m"] exI [of _ "mm_pgd m"]) simp
  let ?e = "start + PAGE_ALIGN len"
  have main: "mprotect_outcome good m (bnd (mprotect_loop env refuse reqprot prt (calc_vm_prot_bits prt) e' s pre (v # post) (mm_pgd m))
      (\<lambda>(err, xs, pt). ret (err, m\<lparr>mm_mmap := xs, mm_pgd := pt\<rparr>)))"
    if "find_vma_prev (mm_mmap m) start = (pre, v # post)" "start AND NOT PAGE_MASK = 0" "\<not> ?e \<le> start"
      "mprotect_range grows start ?e v = Inr (s, e')" for reqprot prt e' s pre v post grows
  proof -
    have al: "page_aligned start" using that(2) by (simp add: page_aligned_def)
    then have "page_aligned ?e" by (simp add: page_aligned_add)
    with mprotect_found_keeps [where good = good and refuse = refuse, OF ok good(1) good(2) _ that(1) al _ _ that(4)] that(3)
    obtain err ys pt where "mprotect_loop env refuse reqprot prt (calc_vm_prot_bits prt) e' s pre (v # post) (mm_pgd m) = ret (err, ys, pt)"
      "reprotected good (calc_vm_prot_bits prt) s e' (mm_mmap m) err ys" "table_ok (mm_mmap m) (mm_pgd m) \<longrightarrow> table_ok ys pt"
      by (metis prot_bits_rwx not_le)
    then show ?thesis
      unfolding mprotect_outcome_def using prot_bits_rwx [of prt] by (intro exI [of _ err] exI [of _ ys] exI [of _ pt]) auto
  qed
  show ?thesis
    unfolding mprotect_mm_def Let_def
    by (auto simp: same main split: list.splits sum.splits prod.splits)
qed

end
