(* ===== verification/Kernel_Calls.thy ===== *)
theory Kernel_Calls
  imports Kernel_Protect
begin

text \<open>
  What the system calls of \<^verbatim>\<open>Kernel_Absys\<close> do to the address spaces of a group, one arbiter
  with the threads it controls: who may call, how a gap of an address space is mapped, how
  \<^verbatim>\<open>absys_brk\<close> grows the shared heap in every thread, and when \<^verbatim>\<open>absys_mprotect\<close> succeeds.  The
  locale \<open>space_loop\<close> is the interface between a loop over the ring of a group and a body
  that works on the address space of one task.
\<close>

subsection \<open>Control\<close>

lemma controls_arbiter:
  assumes "group (tasks s) arb cs" "c \<in> set cs"
  shows "controls arb c s = ret (True, s)"
proof -
  obtain t where "tasks s arb = Some t" "is_arbiter t"
    using assms(1) by (auto simp: group_def arbiter_at_def split: option.splits)
  then show ?thesis
    using group_find_my_arbiter [OF assms] by (simp add: controls_def sb_def)
qed

lemma controls_denied:
  assumes "tasks s cur = Some t" "\<not> is_arbiter t \<or> group (tasks s) arb cs \<and> c \<in> set (arb # cs) \<and> cur \<noteq> arb"
  shows "controls cur c s = ret (False, s)"
proof (cases "is_arbiter t")
  case True
  then have g: "group (tasks s) arb cs" "c \<in> set (arb # cs)" "cur \<noteq> arb" using assms(2) by auto
  have "\<exists>r. find_my_arbiter c s = ret (r, s) \<and> r \<noteq> Some cur"
    using g group_find_my_arbiter [OF g(1), of c] group_no_own_arbiter [OF g(1)] by (cases "c = arb") auto
  then show ?thesis using True assms(1) by (auto simp: controls_def sb_def)
next
  case False
  then show ?thesis using assms(1) by (simp add: controls_def sb_def)
qed

subsection \<open>Mapping a gap\<close>

lemma gap_rest:
  assumes ok: "vmas_ok xs" and f: "find_vma_prev xs a = (pre, rest)"
    and un: "unmapped xs a e" and ae: "a < e"
  shows "\<forall>w \<in> set rest. e \<le> vm_start w"
proof
  note none = un [unfolded unmapped_def, rule_format, OF conjI]
  note sp = find_vma_prev_split [OF f]
  fix w assume w: "w \<in> set rest"
  then obtain v post where rest: "rest = v # post" by (cases rest) auto
  have v: "a < vm_end v" "vma_ok v" using sp ok rest by auto
  have "\<not> vm_start v < e"
  proof
    assume s: "vm_start v < e"
    show False
    proof (cases "vm_start v \<le> a")
      case True
      then show False using none [of a] ae v sp(1) rest ok flags_at_inside [of pre v post a] by simp
    next
      case False
      then have "a \<le> vm_start v" using s by auto
      then show False
        using none [of "vm_start v"] s v sp(1) rest ok flags_at_inside [of pre v post "vm_start v"]
        by (auto dest: vma_okD)
    qed
  qed
  moreover have "vmas_ok (v # post)" using ok sp(1) rest by simp
  ultimately show "e \<le> vm_start w" using w rest by (fastforce simp: not_less dest: vma_okD)
qed

definition covered :: "vma list \<Rightarrow> addr \<Rightarrow> addr \<Rightarrow> bool" where
  "covered xs a e \<longleftrightarrow> (\<exists>v \<in> set xs. vm_start v \<le> a \<and> e \<le> vm_end v)"

lemma link_region_gap:
  assumes ok: "vmas_ok (mm_mmap m)" and none: "unmapped (mm_mmap m) a (a + len)"
    and r: "a < a + len" "page_aligned a" "page_aligned (a + len)" and ab: "vmflags AND VM_AB_CONTROL \<noteq> 0"
  obtains r ys where "link_region env a len vmflags pgoff m = ret (r, m\<lparr>mm_mmap := ys\<rparr>)" "vmas_ok ys"
    "r = 0 \<longrightarrow> covered ys a (a + len) \<and> flags_at ys = put_range (flags_at (mm_mmap m)) a (a + len) (Some (core_flags vmflags))"
    "r \<noteq> 0 \<longrightarrow> r = - ENOMEM \<and> ys = mm_mmap m" "length ys \<le> Suc (length (mm_mmap m))"
proof -
  obtain pre rest where f: "find_vma_prev (mm_mmap m) a = (pre, rest)" by (cases "find_vma_prev (mm_mmap m) a")
  note sp = find_vma_prev_split [OF f]
  have rest: "\<forall>w \<in> set rest. a + len \<le> vm_start w" by (rule gap_rest [OF ok f none r(1)])
  have ok': "vmas_ok (pre @ rest)" using ok sp(1) by simp
  show thesis
  proof (rule vma_merge_gap [OF ok' sp(2) rest r(1-3), where flags = vmflags and anon = 0 and vf = 0 and pgoff = pgoff])
    assume n: "vma_merge pre rest a (a + len) vmflags 0 0 pgoff = ret None"
    let ?w = "\<lparr>vm_start = a, vm_end = a + len, vm_flags = vmflags, vm_pgoff = pgoff, vm_file = 0,
      anon_vma = 0, vm_close = False\<rparr>"
    have mg: "merged (pre @ rest) a (a + len) vmflags pre ?w rest"
      using ok' sp(2) rest r
      by (intro merged_within [where pr = pre and ms = "[]" and ns = rest and lo = a and hi = "a + len"
          and ls = "[]" and hs = "[]"]) (auto simp: merge_proof)
    show thesis
    proof (cases "ke_vma_alloc env (mm_mmap m)")
      case True
      then show thesis
        using n f ab mg sp(1) by (intro that [of 0 "pre @ ?w # rest"]) (auto simp: link_region_def merged_def covered_def)
    next
      case False
      then show thesis
        using n f ok by (intro that [of "- ENOMEM" "mm_mmap m"]) (auto simp: link_region_def)
    qed
  next
    fix pre' w post'
    assume n: "vma_merge pre rest a (a + len) vmflags 0 0 pgoff = ret (Some (pre', w, post'))"
      and mg: "merged (pre @ rest) a (a + len) vmflags pre' w post'" and fl: "core_flags (vm_flags w) = core_flags vmflags"
    have "w\<lparr>vm_flags := vm_flags w\<rparr> = w" by simp
    then have "flags_at (pre' @ w # post') = put_range (flags_at (mm_mmap m)) a (a + len) (Some (core_flags vmflags))"
      using mg [unfolded merged_def, THEN conjunct2, THEN conjunct2, THEN conjunct2, rule_format, OF fl]
      unfolding sp(1) by (simp only:)
    moreover have "link_region env a len vmflags pgoff m = ret (0, m\<lparr>mm_mmap := pre' @ w # post'\<rparr>)"
      using n f by (simp add: link_region_def)
    moreover have "vmas_ok (pre' @ w # post')" using mg by (simp only: merged_def)
    moreover have "covered (pre' @ w # post') a (a + len)" using mg by (simp add: merged_def covered_def)
    moreover have "length (pre' @ w # post') \<le> Suc (length (mm_mmap m))"
      using vma_merge_length [OF n] sp(1) by simp
    ultimately show thesis by (intro that [of 0 "pre' @ w # post'"]) simp_all
  qed
qed

lemma munmap_back_gap:
  assumes ok: "vmas_ok (mm_mmap m)" and ae: "a < a + len" and none: "unmapped (mm_mmap m) a (a + len)"
  shows "munmap_back env a len m = ret (0, m)"
proof -
  obtain pre rest where f: "find_vma_prev (mm_mmap m) a = (pre, rest)" by (cases "find_vma_prev (mm_mmap m) a")
  have "\<forall>w \<in> set rest. a + len \<le> vm_start w" by (rule gap_rest [OF ok f none ae])
  then show ?thesis using f by (subst munmap_back.simps) (auto split: list.splits simp: not_less)
qed

subsection \<open>The break\<close>

text \<open>What the calls keep of an address space: the ends of its break, and that its page table agrees with its areas.\<close>

definition space_kept :: "mm \<Rightarrow> mm \<Rightarrow> bool" where
  "space_kept m m' \<longleftrightarrow> mm_ab_brk m' = mm_ab_brk m \<and> mm_start_ab_brk m' = mm_start_ab_brk m \<and>
     mm_def_flags m' = mm_def_flags m \<and> mm_start_data m' = mm_start_data m \<and> mm_start_brk m' = mm_start_brk m \<and>
     (mm_def_flags m AND VM_HUGETLB = 0 \<and> table_ok (mm_mmap m) (mm_pgd m) \<longrightarrow> table_ok (mm_mmap m') (mm_pgd m'))"

lemma space_kept_refl [simp]: "space_kept m m"
  by (simp add: space_kept_def)

lemma space_kept_trans: "space_kept m m1 \<Longrightarrow> space_kept m1 m2 \<Longrightarrow> space_kept m m2"
  by (simp add: space_kept_def)

lemma space_ok_kept: "space_ok m \<Longrightarrow> vmas_ok (mm_mmap m') \<Longrightarrow> space_kept m m' \<Longrightarrow> space_ok m'"
  by (simp add: space_ok_def space_kept_def)

text \<open>Without huge pages as the default, the flags of a new area have none.\<close>

definition plain_flags :: "word32 \<Rightarrow> mm \<Rightarrow> bool" where
  "plain_flags f m \<longleftrightarrow> (mm_def_flags m AND VM_HUGETLB = 0 \<longrightarrow> f AND VM_HUGETLB = 0)"

text \<open>The negative error numbers as words; security hooks answer 0 or one of them.\<close>

definition errno_val :: "word32 \<Rightarrow> bool" where
  "errno_val r \<longleftrightarrow> - 4095 \<le> r"

definition hooks_ok :: "kenv \<Rightarrow> bool" where
  "hooks_ok env \<longleftrightarrow> (\<forall>q p f a b. ke_file_mmap env q p f a b = 0 \<or> errno_val (ke_file_mmap env q p f a b))"

lemma errno_vals [simp]:
  "errno_val (- EPERM)" "errno_val (- EAGAIN)" "errno_val (- ENOMEM)" "errno_val (- EINVAL)" "errno_val (- EOVERFLOW)"
  by (simp_all add: errno_val_def EPERM_def EAGAIN_def ENOMEM_def EINVAL_def EOVERFLOW_def)

lemma not_task_address:
  assumes "a + l \<le> TASK_SIZE" "a < a + l"
  shows "a \<noteq> - ENOMEM" "a \<noteq> - EINVAL" "a \<noteq> - EAGAIN" "\<not> errno_val a"
proof -
  have a: "a < TASK_SIZE" using assms by simp
  show n: "\<not> errno_val a"
  proof
    assume "errno_val a"
    then have "TASK_SIZE \<le> a"
      unfolding errno_val_def by (rule order_trans [rotated]) (simp add: TASK_SIZE_def)
    then show False using a by simp
  qed
  then show "a \<noteq> - ENOMEM" "a \<noteq> - EINVAL" "a \<noteq> - EAGAIN" by auto
qed

lemma brk_region_gap:
  fixes len :: word32
  defines "l \<equiv> PAGE_ALIGN len"
  assumes ok: "vmas_ok (mm_mmap m)" and none: "unmapped (mm_mmap m) a (a + l)"
    and a: "a < a + l" "a + l \<le> TASK_SIZE" "page_aligned a" and ab: "flags_of m AND VM_AB_CONTROL \<noteq> 0" and h: "hooks_ok env"
    and nh: "plain_flags (flags_of m) m"
  obtains r m' where "brk_region env flags_of a len m = ret (r, m')" "vmas_ok (mm_mmap m')" "space_kept m m'"
    "r = a \<longrightarrow> covered (mm_mmap m') a (a + l)" "length (mm_mmap m') \<le> Suc (length (mm_mmap m))"
    "flags_at (mm_mmap m') = (if r = a then put_range (flags_at (mm_mmap m)) a (a + l) (Some (core_flags (flags_of m)))
       else flags_at (mm_mmap m))"
proof -
  note na = not_task_address [OF a(2,1)]
  have l0: "l \<noteq> 0" using a(1) by auto
  have ae: "page_aligned (a + l)" using a(3) by (simp add: page_aligned_add l_def)
  have rng: "\<not> (a + l > TASK_SIZE \<or> a + l < a)" using a by auto
  define err where "err = ke_file_mmap env 0 0 0 a True"
  define cont where "cont = sb (link_region env a l (flags_of m) (pages a)) (\<lambda>r.
           if r \<noteq> 0 then sret r
           else sb (modify (\<lambda>m. m\<lparr>mm_total_vm := mm_total_vm m + pages l\<rparr>)) (\<lambda>_.
                sb (swhen (flags_of m AND VM_LOCKED \<noteq> 0 \<and> ke_mlock_pages env a (a + l) = 0)
                     (modify (\<lambda>m. m\<lparr>mm_locked_vm := mm_locked_vm m + pages l\<rparr>))) (\<lambda>_.
                sret a)))"
  have def: "brk_region env flags_of a len m =
     (if err \<noteq> 0 then ret (err, m)
      else if mm_def_flags m AND VM_LOCKED \<noteq> 0 \<and> mlock_refused env l m then ret (- EAGAIN, m)
      else if \<not> (may_expand_vm env (pages l) m \<and> \<not> length (mm_mmap m) > ke_max_map_count env) \<or>
              \<not> ke_enough_memory env (pages l) then ret (- ENOMEM, m)
      else cont m)"
    unfolding brk_region_def Let_def l_def [symmetric] err_def [symmetric] cont_def
    using l0 rng munmap_back_gap [OF ok a(1) none, of env] by (auto simp: sb_def)
  have ea: "err \<noteq> 0 \<Longrightarrow> err \<noteq> a" using h na(4) unfolding hooks_ok_def err_def by metis
  note fin = that
  have stop: thesis if "brk_region env flags_of a len m = ret (r, m)" "r \<noteq> a" for r
    using that ok by (intro fin [of r m]) auto
  show thesis
  proof (cases "brk_region env flags_of a len m = cont m")
    case False
    then have "\<exists>r. brk_region env flags_of a len m = ret (r, m) \<and> r \<noteq> a"
      using def na ea by (auto split: if_splits)
    then show thesis using stop by blast
  next
    case True
    obtain r ys where lr: "link_region env a l (flags_of m) (pages a) m = ret (r, m\<lparr>mm_mmap := ys\<rparr>)" "vmas_ok ys"
      "r = 0 \<longrightarrow> covered ys a (a + l) \<and> flags_at ys = put_range (flags_at (mm_mmap m)) a (a + l) (Some (core_flags (flags_of m)))"
      "r \<noteq> 0 \<longrightarrow> r = - ENOMEM \<and> ys = mm_mmap m" "length ys \<le> Suc (length (mm_mmap m))"
      by (rule link_region_gap [OF ok none a(1,3) ae ab, where env = env and pgoff = "pages a"])
    show thesis
    proof (cases "r = 0")
      case z: False
      then have rr: "r = - ENOMEM" "ys = mm_mmap m" using lr(4) by auto
      have "cont m = ret (- ENOMEM, m)"
        using z lr(1) unfolding cont_def rr by (simp add: sb_def)
      then show thesis using stop [of "- ENOMEM"] True na(1) by simp
    next
      case z: True
      have "mm_def_flags m AND VM_HUGETLB = 0 \<and> table_ok (mm_mmap m) (mm_pgd m) \<longrightarrow> table_ok ys (mm_pgd m)"
        using table_ok_put [OF _ none] lr(3) z nh by (auto simp: plain_flags_def huge_core)
      then have "\<exists>m'. cont m = ret (a, m') \<and> mm_mmap m' = ys \<and> space_kept m m'"
        using lr(1) unfolding z cont_def by (auto simp: sb_def swhen_def space_kept_def)
      then obtain m' where c: "cont m = ret (a, m')" "mm_mmap m' = ys" "space_kept m m'" by blast
      show thesis
        by (rule fin [of a m']) (use True c lr(2,3,5) z in simp_all)
    qed
  qed
qed

definition mm_of :: "kern \<Rightarrow> pid \<Rightarrow> mm option" where
  "mm_of s p = Option.bind (tasks s p) (\<lambda>t. mms s (tk_mm t))"

definition mm_id :: "kern \<Rightarrow> pid \<Rightarrow> addr" where
  "mm_id s p = tk_mm (the (tasks s p))"

lemma on_mm_run:
  assumes "mm_of s p = Some m"
  shows "on_mm p f s = bnd (f m) (\<lambda>(x, m'). ret (x, s\<lparr>mms := (mms s)(mm_id s p \<mapsto> m')\<rparr>))"
  using assms by (auto simp: on_mm_def mm_of_def mm_id_def bind_eq_Some_conv)

lemma mm_of_same [simp]: "mm_of s p = Some m \<Longrightarrow> (mms s)(mm_id s p \<mapsto> m) = mms s"
  by (auto simp: mm_of_def mm_id_def bind_eq_Some_conv)

lemma on_mm_gets [simp]: "mm_of s p = Some m \<Longrightarrow> on_mm p (gets f) s = ret (f m, s)"
  by (simp add: on_mm_run)

lemma mm_of_upd:
  assumes "mm_of s q = Some m"
  shows "mm_of (s\<lparr>mms := (mms s)(i \<mapsto> m')\<rparr>) q = (if mm_id s q = i then Some m' else Some m)"
  using assms by (cases "tasks s q") (simp_all add: mm_of_def mm_id_def)

lemma mm_id_upd [simp]: "mm_id (s\<lparr>mms := x\<rparr>) q = mm_id s q"
  by (simp add: mm_id_def)

lemma intersection_none:
  assumes "vmas_ok xs" "find_vma_intersection xs s e = None" "s \<le> x" "x < e"
  shows "flags_at xs x = None"
proof -
  obtain pre rest where f: "find_vma_prev xs s = (pre, rest)" by (cases "find_vma_prev xs s")
  have "rest = [] \<or> e \<le> vm_start (hd rest)"
    using assms(2) f by (auto simp: find_vma_intersection_def find_vma_prev_find split: list.splits if_splits)
  then show ?thesis
    using flags_at_gap [OF _ find_vma_prev_split(2) [OF f], of rest e x] find_vma_prev_split(1) [OF f] assms
    by simp
qed

definition brk_flags :: "word32 \<Rightarrow> mm \<Rightarrow> word32" where
  "brk_flags personality m = VM_DATA_DEFAULT_FLAGS personality OR VM_ACCOUNT OR mm_def_flags m OR VM_AB_CONTROL"

lemma brk_flags_controlled: "brk_flags personality m AND VM_AB_CONTROL \<noteq> 0"
proof -
  have "brk_flags personality m AND VM_AB_CONTROL = VM_AB_CONTROL"
    unfolding brk_flags_def by (rule bit_word_eqI) (auto simp: bit_simps)
  then show ?thesis by (simp add: VM_AB_CONTROL_def VM_SAO_def)
qed

lemma brk_flags_plain: "plain_flags (brk_flags personality m) m"
  by (simp add: plain_flags_def brk_flags_def VM_DATA_DEFAULT_FLAGS_def bit.conj_disj_distrib2 VM_READ_def VM_WRITE_def
      VM_EXEC_def VM_MAYREAD_def VM_MAYWRITE_def VM_MAYEXEC_def VM_ACCOUNT_def VM_AB_CONTROL_def VM_SAO_def VM_HUGETLB_def)

lemma do_absys_brk_region: "do_absys_brk env personality = brk_region env (brk_flags personality)"
  by (simp add: do_absys_brk_def brk_flags_def [abs_def])

text \<open>What growing the break does to the address space of one thread.\<close>

definition grown :: "word32 \<Rightarrow> addr \<Rightarrow> addr \<Rightarrow> bool \<Rightarrow> mm \<Rightarrow> mm \<Rightarrow> bool" where
  "grown personality old new mapped m m' \<longleftrightarrow> vmas_ok (mm_mmap m') \<and> space_kept m m' \<and>
     (mapped \<longrightarrow> covered (mm_mmap m') old new) \<and> length (mm_mmap m') \<le> Suc (length (mm_mmap m)) \<and>
     flags_at (mm_mmap m') =
       (if mapped then put_range (flags_at (mm_mmap m)) old new (Some (core_flags (brk_flags personality m)))
        else flags_at (mm_mmap m))"

definition break_range :: "addr \<Rightarrow> addr \<Rightarrow> bool" where
  "break_range old new \<longleftrightarrow> old < new \<and> new \<le> TASK_SIZE \<and> page_aligned old \<and> page_aligned new"

lemma break_range_end: "break_range old new \<Longrightarrow> new \<le> new + PAGE_SIZE"
proof -
  assume "break_range old new"
  then have "unat new \<le> 0xC0000000" by (simp add: break_range_def TASK_SIZE_def word_le_nat_alt)
  then show ?thesis by (simp add: PAGE_SIZE_def word_le_nat_alt unat_word_ariths)
qed

lemma brk_grow_one:
  assumes m: "mm_of s p = Some m" "vmas_ok (mm_mmap m)" and p: "p \<noteq> arb" and r: "break_range old new" and h: "hooks_ok env"
  obtains x m' where "brk_grow env personality arb old new p s = ret (x, s\<lparr>mms := (mms s)(mm_id s p \<mapsto> m')\<rparr>)"
    "grown personality old new (x = None) m m'"
proof (cases "find_vma_intersection (mm_mmap m) old (new + PAGE_SIZE)")
  case (Some v)
  then show thesis
    by (intro that [of "Some ()" m]) (use m p in \<open>simp_all add: brk_grow_def sb_def grown_def on_mm_gets [OF m(1)]\<close>)
next
  case None
  have al: "PAGE_ALIGN (new - old) = new - old"
    using r by (simp add: PAGE_ALIGN_id page_aligned_diff break_range_def)
  have gap: "unmapped (mm_mmap m) old (old + PAGE_ALIGN (new - old))"
    unfolding unmapped_def
  proof (intro allI impI, elim conjE)
    fix x assume x: "old \<le> x" "x < old + PAGE_ALIGN (new - old)"
    then have "x < new + PAGE_SIZE" using break_range_end [OF r] al by simp
    then show "flags_at (mm_mmap m) x = None" by (rule intersection_none [OF m(2) None x(1)])
  qed
  have rng: "old < old + PAGE_ALIGN (new - old)" "old + PAGE_ALIGN (new - old) \<le> TASK_SIZE" "page_aligned old"
    using r al by (simp_all add: break_range_def)
  obtain y m' where b: "do_absys_brk env personality old (new - old) m = ret (y, m')" "vmas_ok (mm_mmap m')" "space_kept m m'"
    "y = old \<longrightarrow> covered (mm_mmap m') old (old + PAGE_ALIGN (new - old))" "length (mm_mmap m') \<le> Suc (length (mm_mmap m))"
    "flags_at (mm_mmap m') = (if y = old then put_range (flags_at (mm_mmap m)) old (old + PAGE_ALIGN (new - old))
        (Some (core_flags (brk_flags personality m))) else flags_at (mm_mmap m))"
    unfolding do_absys_brk_region by (rule brk_region_gap [where flags_of = "brk_flags personality", OF m(2) gap rng brk_flags_controlled h brk_flags_plain])
  have o1: "on_mm p (do_absys_brk env personality old (new - old)) s = ret (y, s\<lparr>mms := (mms s)(mm_id s p \<mapsto> m')\<rparr>)"
    by (simp add: on_mm_run [OF m(1)] b(1))
  have o2: "on_mm p (gets (\<lambda>m. find_vma_intersection (mm_mmap m) old (new + PAGE_SIZE))) s = ret (None, s)"
    by (simp add: on_mm_gets [OF m(1)] None)
  have "brk_grow env personality arb old new p s =
      ret (if y \<noteq> old then Some () else None, s\<lparr>mms := (mms s)(mm_id s p \<mapsto> m')\<rparr>)"
    using p by (simp add: brk_grow_def sb_def o1 o2)
  then show thesis
    by (rule that) (use b(2-6) al in \<open>simp add: grown_def\<close>)
qed

text \<open>Tasks with distinct address spaces, and what a loop over them leaves.\<close>

definition ready :: "(pid \<Rightarrow> mm \<Rightarrow> bool) \<Rightarrow> kern \<Rightarrow> pid list \<Rightarrow> bool" where
  "ready ok s qs \<longleftrightarrow> distinct (map (mm_id s) qs) \<and> (\<forall>p \<in> set qs. \<exists>m. mm_of s p = Some m \<and> ok p m)"

definition visited :: "('b option \<Rightarrow> mm \<Rightarrow> mm \<Rightarrow> bool) \<Rightarrow> kern \<Rightarrow> kern \<Rightarrow> 'b option \<Rightarrow> pid \<Rightarrow> bool" where
  "visited post s s' x p \<longleftrightarrow> (\<exists>m m'. mm_of s p = Some m \<and> mm_of s' p = Some m' \<and>
     (m' = m \<or> (\<exists>y. post y m m')) \<and> (x = None \<longrightarrow> post None m m'))"

definition only_spaces :: "kern \<Rightarrow> kern \<Rightarrow> pid list \<Rightarrow> bool" where
  "only_spaces s s' qs \<longleftrightarrow> tasks s' = tasks s \<and> ab_category_count s' = ab_category_count s \<and>
     (\<forall>i. i \<notin> mm_id s ` set qs \<longrightarrow> mms s' i = mms s i)"

text \<open>
  A loop over tasks with address spaces of their own, whose body works on the address space
  of its task: \<open>ok\<close> is what it needs of it, \<open>post\<close> what it does to it.
\<close>

locale space_loop =
  fixes body :: "pid \<Rightarrow> (kern, 'b option) st" and ok :: "pid \<Rightarrow> mm \<Rightarrow> bool"
    and post :: "pid \<Rightarrow> 'b option \<Rightarrow> mm \<Rightarrow> mm \<Rightarrow> bool"
  assumes step: "mm_of s p = Some m \<Longrightarrow> ok p m \<Longrightarrow>
      \<exists>x m'. body p s = ret (x, s\<lparr>mms := (mms s)(mm_id s p \<mapsto> m')\<rparr>) \<and> post p x m m'"
    and same_tasks: "body p s = ret (x, s') \<Longrightarrow> tasks s' = tasks s"
begin

lemma next_kept: "keeps_next body"
  by (auto simp: keeps_next_def dest: same_tasks)

lemma foreach_spaces:
  "ready ok s qs \<Longrightarrow> \<exists>x s'. foreach body qs s = ret (x, s') \<and> only_spaces s s' qs \<and> (\<forall>p \<in> set qs. visited (post p) s s' x p)"
proof (induction qs arbitrary: s)
  case Nil
  show ?case by (simp add: only_spaces_def)
next
  case (Cons p qs)
  then obtain m where m: "mm_of s p = Some m" "ok p m" by (auto simp: ready_def)
  have ex: "\<exists>n. mm_of s q = Some n" if "q \<in> set qs" for q
    using Cons.prems that unfolding ready_def by auto
  from step [OF m] obtain x m' where
    b: "body p s = ret (x, s\<lparr>mms := (mms s)(mm_id s p \<mapsto> m')\<rparr>)" "post p x m m'" by blast
  define s1 where "s1 = s\<lparr>mms := (mms s)(mm_id s p \<mapsto> m')\<rparr>"
  have id1: "mm_id s1 = mm_id s" by (simp add: fun_eq_iff s1_def)
  have new: "mm_of s1 p = Some m'" using mm_of_upd [OF m(1)] by (simp add: s1_def)
  have ni: "mm_id s p \<notin> mm_id s ` set qs" using Cons.prems by (simp add: ready_def)
  then have fresh: "mm_id s q \<noteq> mm_id s p" if "q \<in> set qs" for q
    using that by (metis imageI)
  have other: "mm_of s1 q = mm_of s q" if "q \<in> set qs" for q
  proof -
    from ex [OF that] obtain n where "mm_of s q = Some n" by blast
    then show ?thesis using mm_of_upd [of s q n] fresh [OF that] by (simp add: s1_def)
  qed
  show ?case
  proof (cases x)
    case (Some y)
    have "foreach body (p # qs) s = ret (x, s1)" using b(1) Some by (simp add: sb_def s1_def)
    moreover have "only_spaces s s1 (p # qs)" by (simp add: only_spaces_def s1_def)
    moreover have "visited (post q) s s1 x q" if "q \<in> set (p # qs)" for q
    proof (cases "q = p")
      case True
      then show ?thesis using m(1) new b(2) Some by (auto simp: visited_def)
    next
      case False
      then have "q \<in> set qs" using that by simp
      moreover from this obtain n where "mm_of s q = Some n" using ex by auto
      ultimately show ?thesis using other [of q] Some by (auto simp: visited_def)
    qed
    ultimately show ?thesis by blast
  next
    case None
    have "ready ok s1 qs" using Cons.prems other by (auto simp: ready_def id1)
    from Cons.IH [OF this] obtain z s' where
      r: "foreach body qs s1 = ret (z, s')" "only_spaces s1 s' qs" "\<forall>q \<in> set qs. visited (post q) s1 s' z q" by blast
    have "foreach body (p # qs) s = ret (z, s')" using b(1) None r(1) by (simp add: sb_def s1_def)
    moreover have "only_spaces s s' (p # qs)" using r(2) by (auto simp: only_spaces_def s1_def)
    moreover have "mm_of s' p = Some m'"
    proof -
      have "mms s' (mm_id s p) = mms s1 (mm_id s p)" "tasks s' = tasks s1"
        using r(2) ni by (simp_all add: only_spaces_def id1)
      then show ?thesis using new by (cases "tasks s p") (auto simp: mm_of_def mm_id_def s1_def)
    qed
    then have "visited (post p) s s' z p" using m(1) b(2) None by (auto simp: visited_def)
    moreover have "visited (post q) s s' z q" if "q \<in> set qs" for q
      using bspec [OF r(3) that] unfolding visited_def other [OF that] .
    ultimately show ?thesis by auto
  qed
qed

end

definition grow_ok :: "kenv \<Rightarrow> pid \<Rightarrow> addr \<Rightarrow> addr \<Rightarrow> pid \<Rightarrow> mm \<Rightarrow> bool" where
  "grow_ok env arb old new p m \<longleftrightarrow> p \<noteq> arb \<and> break_range old new \<and> hooks_ok env \<and> vmas_ok (mm_mmap m)"

lemma on_mm_tasks:
  assumes "on_mm p f s = ret (x, s')" shows "tasks s' = tasks s"
proof (cases "mm_of s p")
  case None
  then show ?thesis
    using assms by (cases "tasks s p") (simp_all add: mm_of_def on_mm_def deref_def)
next
  case (Some m)
  show ?thesis
    using assms unfolding on_mm_run [OF Some] by (cases "f m" rule: res_cases) (auto split: prod.splits)
qed

lemma brk_grow_tasks: "brk_grow env personality arb old new p s = ret (x, s') \<Longrightarrow> tasks s' = tasks s"
  by (auto simp: brk_grow_def sb_eq_ret split: if_splits dest!: on_mm_tasks)

interpretation bg: space_loop "brk_grow env personality arb old new" "grow_ok env arb old new"
    "\<lambda>_ x. grown personality old new (x = None)"
proof
  fix s p m assume "mm_of s p = Some m" "grow_ok env arb old new p m"
  then show "\<exists>x m'. brk_grow env personality arb old new p s = ret (x, s\<lparr>mms := (mms s)(mm_id s p \<mapsto> m')\<rparr>) \<and>
      grown personality old new (x = None) m m'"
    unfolding grow_ok_def by (metis brk_grow_one)
qed (rule brk_grow_tasks)

lemma brk_blocked_one:
  "mm_of s p = Some m \<Longrightarrow> brk_blocked arb old new p s =
     ret (if p \<noteq> arb \<and> find_vma_intersection (mm_mmap m) old (new + PAGE_SIZE) \<noteq> None then Some () else None, s)"
  by (simp add: brk_blocked_def sb_def on_mm_gets)

lemma brk_blocked_keeps: "keeps_next (brk_blocked arb old new)"
  by (auto simp: keeps_next_def brk_blocked_def sb_eq_ret split: if_splits dest!: on_mm_tasks)

lemma foreach_blocked:
  "\<forall>p \<in> set qs. mm_of s p \<noteq> None \<Longrightarrow> \<exists>x. foreach (brk_blocked arb old new) qs s = ret (x, s)"
  by (induction qs) (auto simp: sb_def brk_blocked_one)

definition group_spaces :: "kern \<Rightarrow> pid \<Rightarrow> pid list \<Rightarrow> bool" where
  "group_spaces s arb cs \<longleftrightarrow> group (tasks s) arb cs \<and> ready (\<lambda>_ m. vmas_ok (mm_mmap m)) s (arb # cs)"

lemma group_spacesD:
  assumes "group_spaces s arb cs"
  shows "group (tasks s) arb cs" "ring (tasks s) arb cs" "arb \<notin> set cs"
    "ready (\<lambda>_ m. vmas_ok (mm_mmap m)) s cs" "mm_id s arb \<notin> mm_id s ` set cs"
  using assms by (auto simp: group_spaces_def group_def ring_def ready_def)

lemma foreach_grow:
  assumes g: "group_spaces s arb cs" and r: "break_range old new" "hooks_ok env"
  obtains x s' where "for_ab_tasks arb (brk_grow env personality arb old new) s = ret (x, s')"
    "only_spaces s s' cs" "\<forall>p \<in> set cs. visited (\<lambda>x. grown personality old new (x = None)) s s' x p"
proof -
  note d = group_spacesD [OF g]
  have "ready (grow_ok env arb old new) s cs"
    using d(3,4) r by (auto simp: ready_def grow_ok_def)
  from bg.foreach_spaces [OF this] obtain x s' where
    "foreach (brk_grow env personality arb old new) cs s = ret (x, s')"
    "only_spaces s s' cs" "\<forall>p \<in> set cs. visited (\<lambda>x. grown personality old new (x = None)) s s' x p" by blast
  then show thesis using that for_ab_tasks_ring [OF d(2) bg.next_kept] by simp
qed

lemma grown_refl [simp]: "vmas_ok (mm_mmap m) \<Longrightarrow> grown personality old new False m m"
  by (simp add: grown_def)

text \<open>The two ends of \<^verbatim>\<open>sys_absys_brk\<close> when the break grows.\<close>

definition brk_done :: "word32 \<Rightarrow> addr \<Rightarrow> addr \<Rightarrow> bool \<Rightarrow> pid list \<Rightarrow> kern \<Rightarrow> kern \<Rightarrow> bool" where
  "brk_done personality old new all cs s s' \<longleftrightarrow>
     (\<forall>p \<in> set cs. \<exists>m m' g. mm_of s p = Some m \<and> mm_of s' p = Some m' \<and> (all \<longrightarrow> g) \<and> grown personality old new g m m')"

lemma only_spaces_id: "only_spaces s s' qs \<Longrightarrow> mm_id s' = mm_id s"
  by (auto simp: only_spaces_def mm_id_def)

lemma only_spaces_other:
  "only_spaces s s' qs \<Longrightarrow> mm_id s p \<notin> mm_id s ` set qs \<Longrightarrow> mm_of s' p = mm_of s p"
  by (cases "tasks s p") (auto simp: only_spaces_def mm_of_def mm_id_def)

lemma visited_done:
  fixes x :: "'a option"
  assumes "\<forall>p \<in> set cs. visited (\<lambda>x. grown personality old new (x = None)) s s' x p"
    "ready (\<lambda>_ m. vmas_ok (mm_mmap m)) s cs"
  shows "brk_done personality old new (x = None) cs s s'"
  unfolding brk_done_def
proof
  fix p assume p: "p \<in> set cs"
  then obtain m where m: "mm_of s p = Some m" "vmas_ok (mm_mmap m)" using assms(2) by (auto simp: ready_def)
  from bspec [OF assms(1) p, unfolded visited_def] obtain n m' where v: "mm_of s p = Some n" "mm_of s' p = Some m'"
    "m' = n \<or> (\<exists>y. grown personality old new (y = (None :: 'a option)) n m')" "x = None \<longrightarrow> grown personality old new True n m'"
    by (elim exE conjE) simp
  have "n = m" using v(1) m(1) by simp
  then have "\<exists>g. (x = None \<longrightarrow> g) \<and> grown personality old new g m m'"
    using v(3,4) grown_refl [OF m(2)] by metis
  then show "\<exists>m m' g. mm_of s p = Some m \<and> mm_of s' p = Some m' \<and> (x = None \<longrightarrow> g) \<and> grown personality old new g m m'"
    using m(1) v(2) by blast
qed

lemma sys_absys_brk_grows:
  assumes g: "group_spaces s arb cs" and c: "c \<in> set cs" and h: "hooks_ok env"
    and a: "tasks s arb = Some t" "mm_of s arb = Some ma"
    and r: "break_range (PAGE_ALIGN (mm_ab_brk ma)) (PAGE_ALIGN ab_brk)" "mm_start_ab_brk ma \<le> ab_brk"
  obtains all s' where
    "sys_absys_brk env arb c ab_brk s = ret (if all then ab_brk else mm_ab_brk ma, s')"
    "only_spaces s s' (arb # cs)"
    "mm_of s' arb = Some (if all then ma\<lparr>mm_ab_brk := ab_brk\<rparr> else ma)"
    "brk_done (tk_personality t) (PAGE_ALIGN (mm_ab_brk ma)) (PAGE_ALIGN ab_brk) all cs s s'"
proof -
  note d = group_spacesD [OF g]
  let ?old = "PAGE_ALIGN (mm_ab_brk ma)" and ?new = "PAGE_ALIGN ab_brk" and ?pers = "tk_personality t"
  have ex: "\<forall>p \<in> set cs. \<exists>m. mm_of s p = Some m \<and> vmas_ok (mm_mmap m)" using d(4) by (simp add: ready_def)
  obtain bad where bad: "for_ab_tasks arb (brk_blocked arb ?old ?new) s = ret (bad, s)"
    using foreach_blocked [of cs s arb ?old ?new] ex for_ab_tasks_ring [OF d(2) brk_blocked_keeps] by fastforce
  have ne: "?old \<noteq> ?new" "\<not> ab_brk < mm_start_ab_brk ma" using r by (auto simp: break_range_def)
  have nogrow: "brk_done ?pers ?old ?new False cs s s" unfolding brk_done_def using ex grown_refl by blast
  have head: "sys_absys_brk env arb c ab_brk s =
     (if bad \<noteq> None then ret (mm_ab_brk ma, s)
      else sb (for_ab_tasks arb (brk_grow env ?pers arb ?old ?new)) (\<lambda>bad.
           if bad \<noteq> None then sret (mm_ab_brk ma)
           else sb (on_mm arb (modify (\<lambda>m. m\<lparr>mm_ab_brk := ab_brk\<rparr>))) (\<lambda>_. sret ab_brk)) s)"
    using ne bad
    by (simp add: sys_absys_brk_def sb_def controls_arbiter [OF d(1) c] a on_mm_gets [OF a(2)] Let_def)
  show thesis
  proof (cases bad)
    case (Some b)
    then show thesis
      using that [of False s] head nogrow a(2) by (simp add: only_spaces_def)
  next
    case None
    obtain x s1 where x: "for_ab_tasks arb (brk_grow env ?pers arb ?old ?new) s = ret (x, s1)"
      "only_spaces s s1 cs" "\<forall>p \<in> set cs. visited (\<lambda>x. grown ?pers ?old ?new (x = None)) s s1 x p"
      by (rule foreach_grow [OF g r(1) h])
    note o = only_spaces_other [OF x(2)] and dn = visited_done [OF x(3) d(4)]
    have arb1: "mm_of s1 arb = Some ma" using o [OF d(5)] a(2) by simp
    show thesis
    proof (cases x)
      case Some
      then have "brk_done ?pers ?old ?new False cs s s1" using dn by (auto simp: brk_done_def)
      then show thesis
        using that [of False s1] head None Some x(1,2) arb1 by (simp add: sb_def only_spaces_def)
    next
      case n: None
      let ?s = "s1\<lparr>mms := (mms s1)(mm_id s arb \<mapsto> ma\<lparr>mm_ab_brk := ab_brk\<rparr>)\<rparr>"
      have id1: "mm_id s1 = mm_id s" by (rule only_spaces_id [OF x(2)])
      have "on_mm arb (modify (\<lambda>m. m\<lparr>mm_ab_brk := ab_brk\<rparr>)) s1 = ret ((), ?s)"
        by (simp add: on_mm_run [OF arb1] id1)
      then have run: "sys_absys_brk env arb c ab_brk s = ret (ab_brk, ?s)"
        using head None n x(1) by (simp add: sb_def)
      have osp: "only_spaces s ?s (arb # cs)" using x(2) by (auto simp: only_spaces_def)
      have marb: "mm_of ?s arb = Some (ma\<lparr>mm_ab_brk := ab_brk\<rparr>)" using mm_of_upd [OF arb1] id1 by simp
      have "mm_of ?s p = mm_of s1 p" if "p \<in> set cs" for p
      proof -
        have "mm_id s1 p \<noteq> mm_id s arb" using d(5) that id1 by (metis imageI)
        moreover have "mm_of s1 p \<noteq> None" using bspec [OF dn [unfolded brk_done_def] that] by auto
        then obtain n where "mm_of s1 p = Some n" by blast
        ultimately show ?thesis using mm_of_upd [of s1 p n] by simp
      qed
      then have "brk_done ?pers ?old ?new True cs s ?s" using dn n by (simp add: brk_done_def)
      then show thesis using that [of True ?s] run osp marb by simp
    qed
  qed
qed

subsection \<open>Protection\<close>

lemma small_prot:
  assumes "prot AND NOT 7 = (0::word32)"
  shows "prot AND (PROT_GROWSDOWN OR PROT_GROWSUP) = 0" "prot AND NOT (PROT_GROWSDOWN OR PROT_GROWSUP) = prot"
    "arch_validate_prot prot"
proof -
  have p: "prot = prot AND 7"
  proof -
    have "prot = (prot AND 7) OR (prot AND NOT 7)" by (rule bit_word_eqI) (auto simp: bit_simps)
    then show ?thesis using assms by simp
  qed
  have "(prot AND 7) AND (PROT_GROWSDOWN OR PROT_GROWSUP) = 0"
    by (simp add: PROT_GROWSDOWN_def PROT_GROWSUP_def and.assoc)
  then show "prot AND (PROT_GROWSDOWN OR PROT_GROWSUP) = 0" using p by simp
  have "(prot AND 7) AND NOT (PROT_GROWSDOWN OR PROT_GROWSUP) = prot AND 7"
    by (simp add: PROT_GROWSDOWN_def PROT_GROWSUP_def and.assoc)
  then show "prot AND NOT (PROT_GROWSDOWN OR PROT_GROWSUP) = prot" using p by simp
  have "(prot AND 7) AND NOT (1 OR 2 OR PROT_EXEC OR PROT_SEM) = 0"
    by (simp add: PROT_EXEC_def PROT_SEM_def and.assoc)
  then show "arch_validate_prot prot" unfolding arch_validate_prot_def using p by simp
qed

text \<open>The part of the call on one address space after the checks of its arguments.\<close>

lemma mprotect_mm_plain:
  assumes prot: "prot AND NOT 7 = 0" and r: "page_aligned start" "start < start + PAGE_ALIGN len"
  shows "mprotect_mm env refuse personality start len prot m =
     (case find_vma_prev (mm_mmap m) start of
        (pre, []) \<Rightarrow> ret (- ENOMEM, m)
      | (pre, v # post) \<Rightarrow>
          if vm_start v > start then ret (- ENOMEM, m)
          else bnd (mprotect_loop env refuse prot (implied_exec personality prot)
                 (calc_vm_prot_bits (implied_exec personality prot)) (start + PAGE_ALIGN len) start pre (v # post) (mm_pgd m))
                 (\<lambda>(err, xs, pt). ret (err, m\<lparr>mm_mmap := xs, mm_pgd := pt\<rparr>)))"
proof -
  have "len \<noteq> 0"
  proof
    assume "len = 0"
    then have "PAGE_ALIGN len = 0" by (simp add: PAGE_ALIGN_def PAGE_SIZE_def PAGE_MASK_def)
    then show False using r(2) by simp
  qed
  moreover have "PROT_GROWSDOWN OR PROT_GROWSUP \<noteq> 0" by (simp add: PROT_GROWSDOWN_def PROT_GROWSUP_def)
  ultimately show ?thesis
    using r small_prot(3) [OF prot] unfolding mprotect_mm_def Let_def small_prot(1,2) [OF prot]
    by (auto simp: page_aligned_def mprotect_range_def split: list.splits prod.splits)
qed

lemma mprotect_mm_exact:
  assumes ok: "vmas_ok (mm_mmap m)" and prot: "prot AND NOT 7 = 0"
    and r: "page_aligned start" "start < start + PAGE_ALIGN len"
    and good: "\<And>v. refuse v = 0 \<Longrightarrow> good (vis (vm_flags v))"
      "\<And>f. good f \<Longrightarrow> good (reprot (calc_vm_prot_bits (implied_exec personality prot)) f)"
  obtains err ys pt where "mprotect_mm env refuse personality start len prot m = ret (err, m\<lparr>mm_mmap := ys, mm_pgd := pt\<rparr>)"
    "reprotected good (calc_vm_prot_bits (implied_exec personality prot)) start (start + PAGE_ALIGN len) (mm_mmap m) err ys"
    "table_ok (mm_mmap m) (mm_pgd m) \<longrightarrow> table_ok ys pt"
proof -
  obtain pre rest where f: "find_vma_prev (mm_mmap m) start = (pre, rest)" by (cases "find_vma_prev (mm_mmap m) start")
  note def = mprotect_mm_plain [OF prot r, of env refuse personality m, unfolded f split_conv]
  note fin = that
  have stop: thesis if "mprotect_mm env refuse personality start len prot m = ret (- ENOMEM, m)"
    using that ok r
    by (intro fin [of "- ENOMEM" "mm_pgd m" "mm_mmap m"] reprotectedI [where t = start]) simp_all
  show thesis
  proof (cases "rest \<noteq> [] \<and> vm_start (hd rest) \<le> start")
    case False
    then have "mprotect_mm env refuse personality start len prot m = ret (- ENOMEM, m)"
      using def by (cases rest) auto
    then show thesis by (rule stop)
  next
    case True
    then obtain v post where rest: "rest = v # post" "vm_start v \<le> start" by (cases rest) auto
    note sp = find_vma_prev_split [OF f]
    have v: "start < vm_end v" using sp rest by auto
    have "page_aligned (start + PAGE_ALIGN len)" using r(1) by (simp add: page_aligned_add)
    note k = mprotect_loop_keeps [where good = good and refuse = refuse, OF prot_bits_rwx good this _ rest(2) v r(2,1),
        of pre post env]
    have "vmas_ok (pre @ v # post)" using ok sp(1) rest(1) by simp
    from k [OF _ _ this, of prot "implied_exec personality prot" "mm_pgd m"] obtain err ys pt where
      "mprotect_loop env refuse prot (implied_exec personality prot) (calc_vm_prot_bits (implied_exec personality prot))
         (start + PAGE_ALIGN len) start pre (v # post) (mm_pgd m) = ret (err, ys, pt)"
      "reprotected good (calc_vm_prot_bits (implied_exec personality prot)) start (start + PAGE_ALIGN len)
         (pre @ v # post) err ys" "table_ok (pre @ v # post) (mm_pgd m) \<longrightarrow> table_ok ys pt" by blast
    then show thesis using that [of err pt ys] def rest sp(1) by (simp add: leD)
  qed
qed

text \<open>With room for two more VMAs and no refusal of its resources, a call within one VMA succeeds.\<close>

definition mprotect_room :: "kenv \<Rightarrow> mm \<Rightarrow> bool" where
  "mprotect_room env m \<longleftrightarrow> length (mm_mmap m) + 1 < ke_max_map_count env \<and> (\<forall>xs. ke_vma_alloc env xs) \<and>
     (\<forall>n. ke_enough_memory env n) \<and> (\<forall>v p q. ke_file_mprotect env v p q = 0)"

lemma fixup_split_room:
  assumes "length (pre @ v # post) + 1 < ke_max_map_count env" "\<forall>xs. ke_vma_alloc env xs" "vm_flags v AND VM_HUGETLB = 0"
  shows "fst (fixup_split env pre v post s e flags) = 0"
  using assms by (simp add: fixup_split_def split_vma_def)

lemma fixup_areas_room:
  assumes "fixup_areas env pre v post s e new = ret (err, pre', w, post')"
    "length (pre @ v # post) + 1 < ke_max_map_count env" "\<forall>xs. ke_vma_alloc env xs"
    "\<forall>n. ke_enough_memory env n" "vm_flags v AND VM_HUGETLB = 0"
  shows "err = 0"
proof (cases "new = vm_flags v")
  case True
  then show ?thesis using assms(1) by (simp add: fixup_areas_def)
next
  case False
  note fs = fixup_split_room [OF assms(2,3,5)]
  show ?thesis
    using assms(1,4) False fs [of s e "if commit_needed (vm_flags v) new then new OR VM_ACCOUNT else new"]
    unfolding fixup_areas_def Let_def by (auto simp: bnd_eq_ret split: option.splits prod.splits)
qed

lemma mprotect_fixup_room:
  assumes "mprotect_fixup env pre v post s e new pt = ret (err, pre', w, post', pt')"
    "length (pre @ v # post) + 1 < ke_max_map_count env" "\<forall>xs. ke_vma_alloc env xs"
    "\<forall>n. ke_enough_memory env n" "vm_flags v AND VM_HUGETLB = 0"
  shows "err = 0"
  using assms(1) fixup_areas_room [OF _ assms(2-5), of s e new]
  by (auto simp: mprotect_fixup_def Let_def bnd_eq_ret split: if_splits prod.splits)

lemma may_all:
  fixes h f :: word32
  assumes "h = bits OR (f AND NOT VM_RWX)" "core_flags f AND (VM_MAYREAD OR VM_MAYWRITE OR VM_MAYEXEC) = VM_MAYREAD OR VM_MAYWRITE OR VM_MAYEXEC"
  shows "(h AND NOT (drop_bit 4 h)) AND VM_RWX = 0"
proof -
  have m: "VM_MAYREAD OR VM_MAYWRITE OR VM_MAYEXEC = 0x70"
    by (simp add: VM_MAYREAD_def VM_MAYWRITE_def VM_MAYEXEC_def)
  have "core_flags f AND 0x70 = f AND 0x70" by (simp add: core_flags_def VM_CAN_NONLINEAR_def and.assoc)
  then have f: "f AND 0x70 = 0x70" using assms(2) unfolding m by simp
  have "h AND 0x70 = (bits AND 0x70) OR (f AND 0x70)"
    unfolding assms(1) VM_RWX_7 by (simp add: bit.conj_disj_distrib2 and.assoc)
  also have "\<dots> = 0x70" unfolding f by (rule bit_word_eqI) (auto simp: bit_simps)
  finally have "drop_bit 4 h AND 7 = 7" using drop_bit_and [of 4 h "0x70"] by simp
  then have d: "NOT (drop_bit 4 h) AND 7 = 0"
    by (metis bit.conj_cancel_left and.assoc and.commute and_zero_eq)
  show ?thesis unfolding VM_RWX_7 and.assoc d by simp
qed

lemma mprotect_mm_succeeds:
  assumes ok: "vmas_ok (mm_mmap m)" and prot: "prot AND NOT 7 = 0"
    and r: "page_aligned start" "start < start + PAGE_ALIGN len"
    and cov: "covered (mm_mmap m) start (start + PAGE_ALIGN len)" and room: "mprotect_room env m"
    and f: "flags_at (mm_mmap m) start = Some g" "g AND VM_HUGETLB = 0"
      "g AND (VM_MAYREAD OR VM_MAYWRITE OR VM_MAYEXEC) = VM_MAYREAD OR VM_MAYWRITE OR VM_MAYEXEC"
  shows "\<exists>m'. mprotect_mm env (\<lambda>_. 0) personality start len prot m = ret (0, m')"
proof -
  let ?e = "start + PAGE_ALIGN len" and ?bits = "calc_vm_prot_bits (implied_exec personality prot)"
  obtain pre rest where fp: "find_vma_prev (mm_mmap m) start = (pre, rest)" by (cases "find_vma_prev (mm_mmap m) start")
  note sp = find_vma_prev_split [OF fp]
  have "\<exists>v post. rest = v # post \<and> vm_start v \<le> start \<and> ?e \<le> vm_end v"
  proof -
    obtain u where u: "u \<in> set (pre @ rest)" "vm_start u \<le> start" "?e \<le> vm_end u"
      using cov sp(1) by (auto simp: covered_def)
    then have "\<not> vm_end u \<le> start" using r(2) by auto
    then have ur: "u \<in> set rest" using u(1) sp(2) by auto
    then obtain v post where vp: "rest = v # post" by (cases rest) auto
    have "u \<notin> set post" using find_vma_prev_rest [of "mm_mmap m" start pre v post u] fp vp ok u(2) by auto
    then show ?thesis using ur vp u by auto
  qed
  then obtain v post where rest: "rest = v # post" "vm_start v \<le> start" "?e \<le> vm_end v" by blast
  have v: "start < vm_end v" using sp rest by auto
  have ok': "vmas_ok (pre @ v # post)" using ok sp(1) rest(1) by simp
  have g: "g = core_flags (vm_flags v)"
    using flags_at_inside [OF ok' rest(2) v] f(1) sp(1) rest(1) by simp
  have may: "(reprot ?bits (vm_flags v) AND NOT (drop_bit 4 (reprot ?bits (vm_flags v)))) AND VM_RWX = 0"
    by (rule may_all [OF reprot_def f(3) [unfolded g]])
  have huge: "vm_flags v AND VM_HUGETLB = 0"
    using f(2) by (simp add: g core_flags_def VM_CAN_NONLINEAR_def VM_HUGETLB_def and.assoc)
  have pe: "page_aligned ?e" using r(1) by (simp add: page_aligned_add)
  obtain err pre' w post' pt' where
    fx: "mprotect_fixup env pre v post start ?e (reprot ?bits (vm_flags v)) (mm_pgd m) = ret (err, pre', w, post', pt')"
    by (rule mprotect_fixup_keeps [OF ok' rest(2) r(2) rest(3) r(1) pe prot_bits_rwx])
  have err: "err = 0"
    using mprotect_fixup_room [OF fx] room huge sp(1) rest(1) by (simp add: mprotect_room_def)
  let ?p = "implied_exec personality prot"
  have tmp: "(if vm_end v > ?e then ?e else vm_end v) = ?e" using rest(3) by auto
  note def = mprotect_loop.simps [of env "\<lambda>_. 0" prot ?p ?bits ?e start pre "v # post" "mm_pgd m",
      unfolded list.case Let_def tmp, folded reprot_def [of ?bits "vm_flags v"]]
  have "\<exists>ys. mprotect_loop env (\<lambda>_. 0) prot ?p ?bits ?e start pre (v # post) (mm_pgd m) = ret (0, ys)"
    unfolding def using may room fx err by (auto simp: mprotect_room_def)
  then show ?thesis
    unfolding mprotect_mm_plain [OF prot r] fp rest(1) using rest(2) by auto
qed

end
