(* ===== verification/Kernel_Paging.thy ===== *)
theory Kernel_Paging
  imports Kernel_Pages Kernel_Calls
begin

text \<open>
  What a fault on a controlled page gives, for every entry that agrees with the flags of the
  area.
\<close>

section \<open>Faults\<close>

lemma maybe_mkwrite_agrees:
  assumes "agrees (vm_flags v) e"
  shows "agrees (vm_flags v) (maybe_mkwrite v e)"
  using assms mkwrite_agrees by (simp add: maybe_mkwrite_def access_allowed_def)

lemma hw_write: "hw_access e False \<Longrightarrow> hw_access (pte_mkwrite e) True"
  by (simp add: hw_access_def pte_mkwrite_def pte_bits bit.conj_disj_distrib2)

lemma write_reads: "access_allowed f True \<Longrightarrow> access_allowed f False"
proof -
  assume "access_allowed f True"
  moreover have "(f AND 7) AND 2 = f AND 2" by (simp add: and.assoc)
  ultimately show ?thesis by (auto simp: access_allowed_def VM_READ_def VM_WRITE_def VM_EXEC_def)
qed

lemma maybe_mkwrite_access:
  assumes "hw_access e False" "access_allowed (vm_flags v) True"
  shows "hw_access (maybe_mkwrite v e) True"
  using assms hw_write by (simp add: maybe_mkwrite_def access_allowed_def)

lemma new_pte_access: "hw_access (pfn_pte env pfn (vm_get_page_prot f)) False \<longleftrightarrow> access_allowed f False"
  using access_bits(1) [OF pfn_pte_bits] page_prot(1) by blast

lemma new_pte_agrees: "agrees f (pfn_pte env pfn (vm_get_page_prot f))"
  by (rule prot_agrees [OF pfn_pte_bits])

lemma new_pte_pfn: "pte_pfn (pfn_pte env pfn (vm_get_page_prot f)) = take_bit 20 pfn"
proof -
  have z: "vm_get_page_prot f AND PTE_PFN_MASK = 0"
  proof -
    have "(vm_get_page_prot f AND NOT 0x127) AND PTE_PFN_MASK = 0" unfolding page_prot_low by simp
    then show ?thesis by (simp add: and.assoc pte_bits)
  qed
  have m: "(PTE_PFN_MASK :: word32) = NOT (mask 12)" by (simp add: pte_bits mask_eq_exp_minus_1)
  show ?thesis
    unfolding pte_pfn_def pfn_pte_def page_prot_supported bit.conj_disj_distrib2 z
    unfolding m by (simp add: bit_eq_iff bit_simps) fastforce
qed

lemma hw_dirty: "hw_access (pte_mkdirty e) wrt = hw_access e wrt" "hw_access (pte_mkyoung e) wrt = hw_access e wrt"
  "agrees f (pte_mkdirty e) = agrees f e" "agrees f (pte_mkyoung e) = agrees f e"
  by (rule access_bits, simp)+

text \<open>A write to a page that is present but not writable.\<close>

lemma do_wp_page_access:
  assumes e: "agrees (vm_flags v) e" "pte_present e" and w: "access_allowed (vm_flags v) True"
    and out: "do_wp_page env v a e = Fault_pte e'"
  shows "agrees (vm_flags v) e' \<and> hw_access e' True"
proof -
  have r: "access_allowed (vm_flags v) False" by (rule write_reads [OF w])
  have "hw_access e False" using e r by (simp add: agrees_def)
  then have "agrees (vm_flags v) (maybe_mkwrite v (pte_mkdirty (pte_mkyoung e))) \<and>
      hw_access (maybe_mkwrite v (pte_mkdirty (pte_mkyoung e))) True"
    using e w by (simp add: maybe_mkwrite_agrees maybe_mkwrite_access hw_dirty)
  moreover have "agrees (vm_flags v) (maybe_mkwrite v (pte_mkdirty (pfn_pte env n (vm_page_prot v)))) \<and>
      hw_access (maybe_mkwrite v (pte_mkdirty (pfn_pte env n (vm_page_prot v)))) True" for n
    using w r by (simp add: maybe_mkwrite_agrees maybe_mkwrite_access hw_dirty vm_page_prot_def new_pte_access new_pte_agrees)
  ultimately show ?thesis using out by (auto simp: do_wp_page_def split: if_splits option.splits)
qed

lemma do_wp_page_other: "do_wp_page env v a e \<in> {Fault_oom} \<union> range Fault_pte"
  by (simp add: do_wp_page_def split: option.splits)

text \<open>The entry the first fault on a controlled page installs.\<close>

definition first_pte :: "kenv \<Rightarrow> word32 \<Rightarrow> vma \<Rightarrow> pte" where
  "first_pte env pfn v =
     (let entry = pfn_pte env pfn (vm_page_prot v)
      in if vm_flags v AND VM_WRITE \<noteq> 0 then pte_mkwrite (pte_mkdirty entry) else entry)"

lemma pfn_or: "drop_bit 12 ((e OR b) AND PTE_PFN_MASK) = drop_bit 12 (e AND PTE_PFN_MASK)" if "b AND PTE_PFN_MASK = 0"
  by (simp add: bit.conj_disj_distrib2 that)

lemma first_pte_access:
  "agrees (vm_flags v) (first_pte env pfn v)" "pte_pfn (first_pte env pfn v) = take_bit 20 pfn"
  "access_allowed (vm_flags v) wrt \<Longrightarrow> hw_access (first_pte env pfn v) wrt"
proof -
  let ?e = "pfn_pte env pfn (vm_page_prot v)"
  have e: "agrees (vm_flags v) ?e" "pte_pfn ?e = take_bit 20 pfn" "hw_access ?e False \<longleftrightarrow> access_allowed (vm_flags v) False"
    by (simp_all add: vm_page_prot_def new_pte_agrees new_pte_pfn new_pte_access)
  show "agrees (vm_flags v) (first_pte env pfn v)"
    using e(1) by (simp add: first_pte_def Let_def mkwrite_agrees hw_dirty access_allowed_def)
  show "pte_pfn (first_pte env pfn v) = take_bit 20 pfn"
    using e(2) by (simp add: first_pte_def Let_def pte_pfn_def pte_mkwrite_def pte_mkdirty_def pfn_or pte_bits)
  show "hw_access (first_pte env pfn v) wrt" if "access_allowed (vm_flags v) wrt"
    using that e(3) write_reads [of "vm_flags v"]
    by (cases wrt) (auto simp: first_pte_def Let_def hw_write hw_dirty mkwrite_bits access_allowed_def)
qed

lemma controlled_core: "core_flags f AND VM_AB_CONTROL = f AND VM_AB_CONTROL"
  by (simp add: core_flags_def VM_AB_CONTROL_def VM_SAO_def VM_CAN_NONLINEAR_def and.assoc)

lemma find_vma_at:
  assumes "vmas_ok xs" "flags_at xs x = Some f"
  obtains v where "find_vma xs x = Some v" "vm_start v \<le> x" "core_flags (vm_flags v) = f"
proof -
  from assms(2) obtain v where v: "v \<in> set xs" "vm_start v \<le> x" "x < vm_end v" "core_flags (vm_flags v) = f"
    by (induction xs) (auto split: if_splits)
  then show thesis using that find_vma_covering [OF assms(1) v(1-3)] by blast
qed

text \<open>What a fault leaves in the page table.\<close>

definition faulted :: "addr \<Rightarrow> fault \<Rightarrow> mm \<Rightarrow> mm" where
  "faulted x out m = (case out of Fault_pte e \<Rightarrow> m\<lparr>mm_pgd := (mm_pgd m)(x AND PAGE_MASK := e)\<rparr> | _ \<Rightarrow> m)"

lemma install_pte_run:
  assumes "mm_of s c = Some m"
  shows "install_pte c x out s = ret (out, s\<lparr>mms := (mms s)(mm_id s c \<mapsto> faulted x out m)\<rparr>)"
  using assms by (cases out) (simp_all add: install_pte_def faulted_def sb_def on_mm_run modify_def)

lemma page_fault_run:
  assumes g: "group (tasks s) arb cs" "c \<in> set cs" and c: "tasks s c = Some t" "is_special t" "mm_of s c = Some m"
    and a: "tasks s arb = Some ta" "tk_mm ta \<noteq> 0"
    and v: "vmas_ok (mm_mmap m)" "flags_at (mm_mmap m) x = Some f" "f AND VM_AB_CONTROL \<noteq> 0" "f AND VM_HUGETLB = 0"
    and e: "e = mm_pgd m (x AND PAGE_MASK)"
  obtains u where "core_flags (vm_flags u) = f" "do_page_fault env c present wrt x s = install_pte c x
        (if access_error present wrt u then Bad_access
         else if \<not> ke_pte_alloc env x then Fault_oom
         else if pte_present e then if wrt then do_wp_page env u x e else Fault_pte (pte_mkyoung e)
         else if \<not> pte_none e then Fault_swap
         else if \<not> ke_anon_vma_prepare env u then Fault_oom
         else case ke_get_user_pages env (tk_mm ta) x of
                None \<Rightarrow> Fault_oom
              | Some pfn \<Rightarrow> if ke_cgroup_charge env pfn then Fault_pte (first_pte env pfn u) else Fault_oom) s"
proof -
  obtain u where u: "find_vma (mm_mmap m) x = Some u" "vm_start u \<le> x" "core_flags (vm_flags u) = f"
    by (rule find_vma_at [OF v(1,2)])
  have ab: "is_abt_vma u" using v(3) u(3) controlled_core [of "vm_flags u"] by (simp add: is_abt_vma_def)
  have nh: "vm_flags u AND VM_HUGETLB = 0" using v(4) u(3) huge_core [of "vm_flags u"] by simp
  have page: "abmap_get_page env c x s = ret (ke_get_user_pages env (tk_mm ta) x, s)"
    using c a group_find_my_arbiter [OF g] by (simp add: abmap_get_page_def sb_def)
  have stay: "install_pte c x out s = ret (out, s)" if "\<forall>d. out \<noteq> Fault_pte d" for out
    using that by (cases out) (simp_all add: install_pte_def)
  have "do_abt_anon_page env c u x s = install_pte c x (if \<not> ke_anon_vma_prepare env u then Fault_oom
      else case ke_get_user_pages env (tk_mm ta) x of
             None \<Rightarrow> Fault_oom
           | Some pfn \<Rightarrow> if ke_cgroup_charge env pfn then Fault_pte (first_pte env pfn u) else Fault_oom) s"
    by (simp add: do_abt_anon_page_def sb_def page first_pte_def Let_def stay split: option.splits)
  moreover have "pte_at c x s = ret (e, s)" using on_mm_gets [OF c(3)] by (simp add: pte_at_def e)
  ultimately show thesis
    using c(1,2) u(1,2) ab nh
    by (intro that [OF u(3)]) (simp add: do_page_fault_def sb_def handle_abt_vmfault_def handle_mm_fault_def handle_pte_fault_def on_mm_gets [OF c(3)] stay)
qed

lemma fault_denied:
  assumes "agrees (vm_flags u) e" "\<not> hw_access e wrt"
  shows "access_error (e AND PAGE_PRESENT \<noteq> 0) wrt u \<longleftrightarrow> \<not> access_allowed (vm_flags u) wrt"
proof (cases wrt)
  case False
  have "hw_access e False" if "e AND PAGE_PRESENT \<noteq> 0" "access_allowed (vm_flags u) False"
  proof -
    have "pte_present e" using that(1) absent_no_access [of e] and.assoc [of e "0x101" 1] by (auto simp: pte_present_def pte_bits)
    then show ?thesis using assms(1) that(2) by (simp add: agrees_def)
  qed
  then show ?thesis using False assms(2) by (auto simp: access_error_def access_allowed_def)
qed (simp add: access_error_def access_allowed_def)

text \<open>
  What a fault for an access of kind \<open>wrt\<close> at \<open>x\<close> may give, where the flags are \<open>f\<close>, the entry was \<open>e\<close> and
  \<open>frames\<close> is the address space of the arbiter.
\<close>

definition fault_outcome :: "kenv \<Rightarrow> word32 \<Rightarrow> addr \<Rightarrow> word32 \<Rightarrow> bool \<Rightarrow> pte \<Rightarrow> fault \<Rightarrow> bool" where
  "fault_outcome env frames x f wrt e out \<longleftrightarrow>
     (out = Bad_access \<longleftrightarrow> \<not> access_allowed f wrt) \<and> out \<notin> {Bad_area, Fault_stock} \<and>
     (out = Fault_swap \<longrightarrow> \<not> pte_present e \<and> \<not> pte_none e) \<and>
     (\<forall>e'. out = Fault_pte e' \<longrightarrow> agrees f e' \<and> hw_access e' wrt \<and>
        (pte_none e \<longrightarrow> (\<exists>pfn. ke_get_user_pages env frames x = Some pfn \<and> pte_pfn e' = take_bit 20 pfn)))"

lemma page_fault_outcome:
  assumes g: "group (tasks s) arb cs" "c \<in> set cs" and c: "tasks s c = Some t" "is_special t" "mm_of s c = Some m"
    and a: "tasks s arb = Some ta" "tk_mm ta \<noteq> 0"
    and v: "vmas_ok (mm_mmap m)" "flags_at (mm_mmap m) x = Some f" "f AND VM_AB_CONTROL \<noteq> 0" "f AND VM_HUGETLB = 0"
    and e: "e = mm_pgd m (x AND PAGE_MASK)" "agrees f e" "\<not> hw_access e wrt"
  shows "\<exists>out. do_page_fault env c (e AND PAGE_PRESENT \<noteq> 0) wrt x s = ret (out, s\<lparr>mms := (mms s)(mm_id s c \<mapsto> faulted x out m)\<rparr>) \<and>
     fault_outcome env (tk_mm ta) x f wrt e out"
proof -
  let ?p = "e AND PAGE_PRESENT \<noteq> 0"
  obtain u where u: "core_flags (vm_flags u) = f" and r: "do_page_fault env c ?p wrt x s = install_pte c x
        (if access_error ?p wrt u then Bad_access
         else if \<not> ke_pte_alloc env x then Fault_oom
         else if pte_present e then if wrt then do_wp_page env u x e else Fault_pte (pte_mkyoung e)
         else if \<not> pte_none e then Fault_swap
         else if \<not> ke_anon_vma_prepare env u then Fault_oom
         else case ke_get_user_pages env (tk_mm ta) x of
                None \<Rightarrow> Fault_oom
              | Some pfn \<Rightarrow> if ke_cgroup_charge env pfn then Fault_pte (first_pte env pfn u) else Fault_oom) s"
    by (rule page_fault_run [OF g c a v e(1)])
  have ag: "agrees (vm_flags u) e" "agrees (vm_flags u) d = agrees f d" "access_allowed (vm_flags u) w = access_allowed f w" for d w
    using e(2) agrees_core [of "vm_flags u"] access_core [of "vm_flags u"] u by simp_all
  note d = fault_denied [OF ag(1) e(3), unfolded ag(3)]
  note first = first_pte_access [where v = u, unfolded ag(2,3)]
  note r = r [unfolded install_pte_run [OF c(3)]]
  show ?thesis
  proof (cases "access_allowed f wrt \<and> pte_present e")
    case True
    then have wrt using e(2,3) by (cases wrt) (auto simp: agrees_def)
    then show ?thesis
      using True r d do_wp_page_other [of env u x e] do_wp_page_access [OF ag(1), of env x, unfolded ag(2,3)]
      by (auto simp: fault_outcome_def pte_none_def pte_present_def)
  next
    case False
    then show ?thesis using r d first by (auto simp: fault_outcome_def split: option.splits)
  qed
qed

section \<open>Accesses\<close>

text \<open>
  An access of a thread: the processor looks at the entry of the page, and where that does not
  permit the access it raises a fault, with the present bit of the entry in the error code.
\<close>

definition user_access :: "kenv \<Rightarrow> pid \<Rightarrow> bool \<Rightarrow> addr \<Rightarrow> (kern, fault option) st" where
  "user_access env current wrt x =
     sb (pte_at current x) (\<lambda>e.
     if hw_access e wrt then sret None
     else sb (do_page_fault env current (e AND PAGE_PRESENT \<noteq> 0) wrt x) (\<lambda>out. sret (Some out)))"

lemma page_mask_below:
  assumes "page_aligned a"
  shows "a \<le> x AND PAGE_MASK \<longleftrightarrow> a \<le> x"
proof -
  obtain k where "unat a = 4096 * k" using assms by (auto simp: page_aligned_iff)
  moreover have "unat (x AND PAGE_MASK) = 4096 * (unat x div 4096)"
    unfolding unat_and_page_mask by (simp add: minus_mod_eq_mult_div)
  ultimately show ?thesis using less_eq_div_iff_mult_less_eq [of 4096 k "unat x"] by (simp add: word_le_nat_alt mult.commute)
qed

lemma page_mask_aligned [simp]: "page_aligned (x AND PAGE_MASK)"
  by (simp add: page_aligned_def and.assoc)

lemma flags_at_page: "vmas_ok xs \<Longrightarrow> flags_at xs (x AND PAGE_MASK) = flags_at xs x"
proof (induction xs)
  case (Cons v xs)
  then have "page_aligned (vm_start v)" "page_aligned (vm_end v)" by (simp_all add: vma_ok_def)
  then show ?case using Cons page_mask_below [of _ x] by (simp add: not_le [symmetric])
qed simp

lemma space_ok_entry:
  assumes "space_ok m" "flags_at (mm_mmap m) x = Some f"
  shows "agrees f (mm_pgd m (x AND PAGE_MASK))"
proof -
  have "case flags_at (mm_mmap m) (x AND PAGE_MASK) of None \<Rightarrow> pte_none (mm_pgd m (x AND PAGE_MASK))
      | Some f \<Rightarrow> agrees f (mm_pgd m (x AND PAGE_MASK))"
    using assms(1) page_mask_aligned unfolding space_ok_def table_ok_def pages_ok_def by blast
  then show ?thesis using assms by (simp add: space_ok_def flags_at_page)
qed

lemma space_ok_faulted:
  assumes "space_ok m" "flags_at (mm_mmap m) x = Some f" "fault_outcome env frames x f wrt e out"
  shows "space_ok (faulted x out m)"
proof (cases "\<exists>d. out = Fault_pte d")
  case True
  then obtain d where d: "out = Fault_pte d" "agrees f d" using assms(3) by (auto simp: fault_outcome_def)
  have "flags_at (mm_mmap m) (x AND PAGE_MASK) = Some f" using assms(1,2) by (simp add: space_ok_def flags_at_page)
  then have "pages_ok (mm_mmap m) ((mm_pgd m)(x AND PAGE_MASK := d))"
    using assms(1) d(2) unfolding space_ok_def table_ok_def pages_ok_def fun_upd_apply by simp
  then show ?thesis using assms(1) by (simp add: space_ok_def table_ok_def faulted_def d(1))
next
  case False
  then have "faulted x out m = m" by (cases out) (simp_all add: faulted_def)
  then show ?thesis using assms(1) by simp
qed

text \<open>
  What an access gives in an address space whose page table agrees with its areas: it goes
  through only where the flags permit it, and what a fault installs agrees with them again.
\<close>

definition access_outcome :: "kenv \<Rightarrow> word32 \<Rightarrow> addr \<Rightarrow> word32 \<Rightarrow> bool \<Rightarrow> mm \<Rightarrow> fault option \<Rightarrow> mm \<Rightarrow> bool" where
  "access_outcome env frames x f wrt m r m' \<longleftrightarrow> space_ok m' \<and>
     (case r of
        None \<Rightarrow> access_allowed f wrt \<and> m' = m
      | Some out \<Rightarrow> fault_outcome env frames x f wrt (mm_pgd m (x AND PAGE_MASK)) out \<and> m' = faulted x out m)"

lemma user_access_outcome:
  assumes g: "group (tasks s) arb cs" "c \<in> set cs" and c: "tasks s c = Some t" "is_special t" "mm_of s c = Some m"
    and a: "tasks s arb = Some ta" "tk_mm ta \<noteq> 0"
    and v: "space_ok m" "flags_at (mm_mmap m) x = Some f" "f AND VM_AB_CONTROL \<noteq> 0"
  shows "\<exists>r m'. user_access env c wrt x s = ret (r, s\<lparr>mms := (mms s)(mm_id s c \<mapsto> m')\<rparr>) \<and>
     access_outcome env (tk_mm ta) x f wrt m r m'"
proof -
  define e where "e = mm_pgd m (x AND PAGE_MASK)"
  have ag: "agrees f e" using space_ok_entry [OF v(1,2)] by (simp add: e_def)
  have ok: "vmas_ok (mm_mmap m)" using v(1) by (simp add: space_ok_def)
  have nh: "f AND VM_HUGETLB = 0" using v(1,2) by (auto simp: space_ok_def table_ok_def no_huge_def)
  have at: "pte_at c x s = ret (e, s)" using on_mm_gets [OF c(3)] by (simp add: pte_at_def e_def)
  show ?thesis
  proof (cases "hw_access e wrt")
    case True
    have "access_allowed f wrt" by (rule hw_allowed [OF ag True])
    moreover have "user_access env c wrt x s = ret (None, s)" using True at by (simp add: user_access_def sb_def)
    ultimately show ?thesis using v(1) c(3)
      by (intro exI [of _ None] exI [of _ m]) (simp add: access_outcome_def)
  next
    case False
    obtain out where out: "do_page_fault env c (e AND PAGE_PRESENT \<noteq> 0) wrt x s =
        ret (out, s\<lparr>mms := (mms s)(mm_id s c \<mapsto> faulted x out m)\<rparr>)" "fault_outcome env (tk_mm ta) x f wrt e out"
      using page_fault_outcome [OF g c a ok v(2,3) nh e_def ag False] by blast
    then have "user_access env c wrt x s = ret (Some out, s\<lparr>mms := (mms s)(mm_id s c \<mapsto> faulted x out m)\<rparr>)"
      using False at by (simp add: user_access_def sb_def)
    then show ?thesis
      using out(2) space_ok_faulted [OF v(1,2) out(2)] unfolding access_outcome_def e_def
      by (intro exI [of _ "Some out"] exI [of _ "faulted x out m"]) simp
  qed
qed

end
