(* ===== verification/Kernel_Control.thy ===== *)
theory Kernel_Control
  imports Kernel_Paging
begin

text \<open>
  What the kernel enforces on a group: lookup in the tree of VMAs, who may call, the break,
  protection changed by the arbiter and by the thread itself, page faults, and how tasks join
  a group and leave it.  The example at the start is the kernel state the witnesses use.
\<close>

subsection \<open>An example\<close>

text \<open>A kernel that refuses nothing, and a group: arbiter 1, threads 8 and 7, and a task 9 the arbiter has forked.\<close>

definition env_example :: kenv where
  "env_example = \<lparr>ke_max_map_count = 65530, ke_vma_alloc = \<lambda>_. True, ke_enough_memory = \<lambda>_. True, ke_rlim_as = - 1,
     ke_rlim_memlock = 0x10000, ke_cap_ipc_lock = False, ke_huge_page_mask = 0xFFC00000, ke_file_mmap = \<lambda>_ _ _ _ _. 0,
     ke_file_mprotect = \<lambda>_ _ _. 0, ke_mlock_pages = \<lambda>_ _. 0, ke_get_area = \<lambda>a _ _ _. a, ke_mmap_min_addr = 0x1000,
     ke_overcommit_never = False, ke_hugetlb_mmap = \<lambda>_ _ _ _ _. sret (- EINVAL), ke_freed_vm_end = vm_end,
     ke_get_user_pages = \<lambda>_ a. Some (drop_bit 12 a), ke_cgroup_charge = \<lambda>_. True,
     ke_anon_vma_prepare = \<lambda>_. True, ke_page_anon = \<lambda>_. False, ke_reuse_swap_page = \<lambda>_. False, ke_alloc_page = \<lambda>_. Some 0x1234,
     ke_max_pfn = 0xFFFFF, ke_has_pge = True, ke_page_mkwrite = \<lambda>_. False, ke_account_dirty = \<lambda>_. False,
     ke_hugetlb_protect = \<lambda>_ _ _ _ pt. pt, ke_hugetlb_unmap = \<lambda>_ _ _ pt. pt, ke_hugetlb_copy = \<lambda>_ _ dst. (0, dst), ke_pte_alloc = \<lambda>_. True,
     ke_track_pfn = \<lambda>_. 0, ke_ksm_fork = 0, ke_mpol_dup = \<lambda>_. 0\<rparr>"

definition task_example :: "pid \<Rightarrow> word32 \<Rightarrow> addr \<Rightarrow> task" where
  "task_example n i a = \<lparr>ab_next = n, ab_prev = 0, ab_identity = i, ab_tgleader_mm = 0, tk_parent = 1, tk_mm = a, tk_personality = 0\<rparr>"

definition vma_example :: vma where
  "vma_example = \<lparr>vm_start = 0x90000000, vm_end = 0x90004000, vm_flags = 0x20000073, vm_pgoff = 0x90000, vm_file = 0,
     anon_vma = 0, vm_close = False\<rparr>"

definition mm_example :: "vma list \<Rightarrow> mm" where
  "mm_example vs = \<lparr>mm_mmap = vs, mm_total_vm = 0, mm_locked_vm = 0, mm_def_flags = 0, mm_start_data = 0x08049000,
     mm_start_brk = 0x0804A000, mm_start_ab_brk = 0x80000000, mm_ab_brk = 0x80000000, mm_pgd = \<lambda>_. 0\<rparr>"

definition group_example :: kern where
  "group_example = \<lparr>tasks = [1 \<mapsto> task_example 8 3 0x10, 8 \<mapsto> task_example 7 2 0x20, 7 \<mapsto> task_example 1 2 0x30, 9 \<mapsto> task_example 9 0 0x40],
     mms = [0x10 \<mapsto> mm_example [], 0x20 \<mapsto> mm_example [vma_example], 0x30 \<mapsto> mm_example [vma_example], 0x40 \<mapsto> mm_example []],
     ab_category_count = 1\<rparr>"

lemma env_example_simps [simp]:
  "ke_max_map_count env_example = 65530" "ke_vma_alloc env_example xs" "ke_enough_memory env_example n" "ke_rlim_as env_example = - 1"
  "ke_file_mmap env_example q p f a b = 0" "ke_file_mprotect env_example v p q = 0" "ke_get_area env_example a len off f = a"
  "ke_freed_vm_end env_example = vm_end" "ke_get_user_pages env_example i a = Some (drop_bit 12 a)" "ke_cgroup_charge env_example n"
  "ke_anon_vma_prepare env_example v" "\<not> ke_page_anon env_example n" "ke_alloc_page env_example a = Some 0x1234"
  "ke_max_pfn env_example = 0xFFFFF" "ke_pte_alloc env_example a" "ke_track_pfn env_example v = 0" "ke_ksm_fork env_example = 0"
  "ke_mpol_dup env_example v = 0"
  by (simp_all add: env_example_def)

lemma mm_example_simps [simp]:
  "mm_mmap (mm_example vs) = vs" "mm_total_vm (mm_example vs) = 0" "mm_def_flags (mm_example vs) = 0"
  "mm_start_ab_brk (mm_example vs) = 0x80000000" "mm_ab_brk (mm_example vs) = 0x80000000"
  "mm_pgd (mm_example vs) = (\<lambda>_. 0)"
  by (simp_all add: mm_example_def)

lemma vma_example_ok: "vmas_ok [vma_example]"
  by (simp add: vma_example_def vma_ok_def page_aligned_def PAGE_MASK_def)

lemma mm_example_ok: "space_ok (mm_example [vma_example])" "space_ok (mm_example [])"
  using vma_example_ok
  by (simp_all add: space_ok_def table_ok_def no_huge_def pages_ok_def pte_none_def split: option.split)
    (simp add: vma_example_def core_flags_def VM_CAN_NONLINEAR_def VM_HUGETLB_def)

lemma group_example_tasks:
  "tasks group_example 1 = Some (task_example 8 3 0x10)" "tasks group_example 8 = Some (task_example 7 2 0x20)"
  "tasks group_example 7 = Some (task_example 1 2 0x30)" "tasks group_example 9 = Some (task_example 9 0 0x40)"
  by (simp_all add: group_example_def)

lemma group_example_mm:
  "mm_of group_example 1 = Some (mm_example [])" "mm_of group_example 8 = Some (mm_example [vma_example])"
  "mm_of group_example 7 = Some (mm_example [vma_example])" "mm_of group_example 9 = Some (mm_example [])"
  by (simp_all add: mm_of_def group_example_def task_example_def)

lemma roles_example: "is_arbiter (task_example n 3 a)" "\<not> is_arbiter (task_example n 2 a)" "is_special (task_example n 2 a)"
  by (simp_all add: is_arbiter_def is_special_def is_common_def get_role_def get_category_def task_example_def)

lemma group_example_group: "group (tasks group_example) 1 [8, 7]"
  using roles_example by (simp add: group_def ring_def arbiter_at_def group_example_tasks) (simp add: task_example_def)

lemma group_example_spaces: "group_spaces group_example 1 [8, 7]"
  using group_example_group vma_example_ok
  by (simp add: group_spaces_def ready_def group_example_mm mm_id_def group_example_tasks) (simp add: task_example_def)

lemmas group_example_facts = group_example_tasks group_example_mm roles_example

lemma unmapped_intersection:
  assumes "vmas_ok xs" "unmapped xs a e" "a < e"
  shows "find_vma_intersection xs a e = None"
proof -
  obtain pre rest where fp: "find_vma_prev xs a = (pre, rest)" by (cases "find_vma_prev xs a")
  have "\<forall>w \<in> set rest. e \<le> vm_start w" by (rule gap_rest [OF assms(1) fp assms(2,3)])
  then show ?thesis
    by (auto simp: find_vma_intersection_def find_vma_prev_find fp split: list.splits)
qed

subsection \<open>Lookup\<close>

text \<open>
  Property C24.  Looking an address up in the tree of VMAs, through the last VMA found when it covers the
  address, gives the first VMA that ends above the address, as a search of the sorted list
  would; the cache keeps pointing into the list, and the descent of \<^verbatim>\<open>find_vma_prev\<close> ends at the
  VMA in front of it.
\<close>

theorem vma_tree_lookup:
  assumes "vmas_ok (inorder t)" "cache = None \<or> the cache \<in> set (inorder t)"
  shows "fst (find_vma_cached cache t a) = find_vma (inorder t) a \<and>
    (snd (find_vma_cached cache t a) = None \<or> the (snd (find_vma_cached cache t a)) \<in> set (inorder t)) \<and>
    find_vma_prev_rb (vm_next_in (inorder t)) t a None = last_opt (fst (find_vma_prev (inorder t) a))"
proof (intro conjI)
  have c: "\<And>v. cache = Some v \<Longrightarrow> v \<in> set (inorder t)" using assms(2) by auto
  show "fst (find_vma_cached cache t a) = find_vma (inorder t) a"
    by (rule find_vma_cached_list [OF assms(1) c])
  show "snd (find_vma_cached cache t a) = None \<or> the (snd (find_vma_cached cache t a)) \<in> set (inorder t)"
    using find_vma_cached_keeps [OF assms(1) c] by (cases "snd (find_vma_cached cache t a)") auto
  show "find_vma_prev_rb (vm_next_in (inorder t)) t a None = last_opt (fst (find_vma_prev (inorder t) a))"
    using find_vma_prev_rb_list [of "[]" t "[]" a] assms(1) by (simp add: last_opt_def)
qed

theorem vma_tree_lookup_witness:
  "fst (find_vma_cached None (Node Leaf vma_example Leaf) 0x90001000) = Some vma_example"
proof -
  have "find_vma (inorder (Node Leaf vma_example Leaf)) 0x90001000 = Some vma_example" by (simp add: find_vma_def vma_example_def)
  then show ?thesis using vma_tree_lookup [of "Node Leaf vma_example Leaf" None "0x90001000"] vma_example_ok by simp
qed

subsection \<open>Control\<close>

lemma anonymous_flag: "(flags AND NOT (MAP_EXECUTABLE OR MAP_DENYWRITE)) AND MAP_ANONYMOUS = flags AND MAP_ANONYMOUS"
  by (simp add: MAP_EXECUTABLE_def MAP_DENYWRITE_def MAP_ANONYMOUS_def and.assoc)

lemma calls_denied:
  assumes "tasks s cur = Some t"
    and "\<not> is_arbiter t \<or> group (tasks s) arb cs \<and> c \<in> set (arb # cs) \<and> cur \<noteq> arb"
  shows "sys_absys_mmap env cur c a len prot flags pgoff s =
       ret (if flags AND MAP_ANONYMOUS = 0 then - EINVAL else - EPERM, s) \<and>
    sys_absys_brk env cur c b s = ret (- EPERM, s) \<and>
    sys_absys_munmap env cur c a len s = ret (- EPERM, s) \<and>
    sys_absys_mprotect env cur c a len prot s = ret (- EPERM, s)"
  using controls_denied [OF assms]
  unfolding sys_absys_mmap_def sys_absys_brk_def sys_absys_munmap_def sys_absys_mprotect_def Let_def anonymous_flag
  by (simp add: sb_def)

text \<open>
  Property C13.  A task that is no arbiter, or is the arbiter of another group, gets \<^verbatim>\<open>-EPERM\<close> from every system
  call on the address space of a thread and changes nothing.
\<close>

theorem only_arbiter_controls:
  assumes "tasks s cur = Some t"
    and "\<not> is_arbiter t \<or> group (tasks s) arb cs \<and> c \<in> set (arb # cs) \<and> cur \<noteq> arb"
  shows "sys_absys_mmap env cur c a len prot flags pgoff s =
       ret (if flags AND MAP_ANONYMOUS = 0 then - EINVAL else - EPERM, s) \<and>
    sys_absys_brk env cur c b s = ret (- EPERM, s) \<and>
    sys_absys_munmap env cur c a len s = ret (- EPERM, s) \<and>
    sys_absys_mprotect env cur c a len prot s = ret (- EPERM, s)"
  by (rule calls_denied [OF assms])

theorem only_arbiter_controls_witness:
  "sys_absys_mprotect env_example 8 7 0x90000000 4096 3 group_example = ret (- EPERM, group_example)"
  using only_arbiter_controls [of group_example 8 "task_example 7 2 0x20" 1 "[8, 7]" 7] group_example_facts by simp

subsection \<open>The break\<close>

text \<open>
  Property C15.  \<^verbatim>\<open>absys_brk\<close> moves the break of the group only when the new range was mapped in the address
  space of every thread, readable and writable and under the arbiter's control.  Otherwise it
  returns the old break, and a thread has either all of the new range or nothing of it; the
  ranges mapped before the failure stay mapped.
\<close>

theorem absys_brk_grows:
  assumes "group_spaces s arb cs" "c \<in> set cs" "hooks_ok env" "tasks s arb = Some t" "mm_of s arb = Some ma"
    "break_range (PAGE_ALIGN (mm_ab_brk ma)) (PAGE_ALIGN ab_brk)" "mm_start_ab_brk ma \<le> ab_brk"
  shows "\<exists>all s'. sys_absys_brk env arb c ab_brk s = ret (if all then ab_brk else mm_ab_brk ma, s') \<and>
    only_spaces s s' (arb # cs) \<and> mm_of s' arb = Some (if all then ma\<lparr>mm_ab_brk := ab_brk\<rparr> else ma) \<and>
    (\<forall>p \<in> set cs. \<exists>m m' g. mm_of s p = Some m \<and> mm_of s' p = Some m' \<and> (all \<longrightarrow> g) \<and>
       grown (tk_personality t) (PAGE_ALIGN (mm_ab_brk ma)) (PAGE_ALIGN ab_brk) g m m')"
  using sys_absys_brk_grows [OF assms] unfolding brk_done_def by metis

lemma vma_example_below: "e \<le> 0x90000000 \<Longrightarrow> unmapped [vma_example] a e"
  by (auto simp: unmapped_def vma_example_def)

lemma brk_example:
  "\<exists>m'. do_absys_brk env_example 0 0x80000000 0xA000 (mm_example [vma_example]) = ret (0x80000000, m')"
proof -
  let ?m = "mm_example [vma_example]"
  have mb: "munmap_back env_example 0x80000000 0xA000 ?m = ret (0, ?m)"
    by (rule munmap_back_gap) (use vma_example_ok vma_example_below in simp_all)
  have al: "PAGE_ALIGN 0xA000 = 0xA000" "pages 0xA000 = 10" "pages 0x80000000 = 0x80000" "pages (- 1) = 0xFFFFF"
    by (simp_all add: PAGE_ALIGN_def PAGE_SIZE_def PAGE_MASK_def pages_def mask_eq_exp_minus_1)
  have fl: "brk_flags 0 ?m = 0x20100073"
    by (simp add: brk_flags_def VM_DATA_DEFAULT_FLAGS_def VM_READ_def VM_WRITE_def VM_MAYREAD_def VM_MAYWRITE_def VM_MAYEXEC_def
        VM_ACCOUNT_def VM_AB_CONTROL_def VM_SAO_def)
  have lr: "\<exists>ys. link_region env_example 0x80000000 0xA000 0x20100073 0x80000 ?m = ret (0, ?m\<lparr>mm_mmap := ys\<rparr>)"
    by (simp add: link_region_def find_vma_prev_def vma_example_def vma_merge_def merge_nexts_def joins_next_def VM_AB_CONTROL_def VM_SAO_def) blast
  show ?thesis
    unfolding do_absys_brk_region brk_region_def Let_def al(1) fl
    using lr by (auto simp: sb_def mb al may_expand_vm_def TASK_SIZE_def VM_LOCKED_def swhen_def fl)
qed

lemma brk_grow_example:
  assumes "mm_of s p = Some (mm_example [vma_example])" "p \<noteq> 1"
  shows "\<exists>m'. brk_grow env_example 0 1 0x80000000 0x8000A000 p s = ret (None, s\<lparr>mms := (mms s)(mm_id s p \<mapsto> m')\<rparr>)"
proof -
  have i: "find_vma_intersection [vma_example] 0x80000000 (0x8000A000 + PAGE_SIZE) = None"
    by (rule unmapped_intersection) (use vma_example_ok vma_example_below in \<open>simp_all add: PAGE_SIZE_def\<close>)
  show ?thesis
    using brk_example assms(2) i by (auto simp: brk_grow_def sb_def on_mm_run [OF assms(1)] mm_of_same [OF assms(1)])
qed

lemma foreach_example:
  "\<exists>s'. foreach (brk_grow env_example 0 1 0x80000000 0x8000A000) [8, 7] group_example = ret (None, s') \<and> mm_of s' 1 = mm_of group_example 1"
proof -
  obtain m8 where m8: "brk_grow env_example 0 1 0x80000000 0x8000A000 8 group_example =
      ret (None, group_example\<lparr>mms := (mms group_example)(mm_id group_example 8 \<mapsto> m8)\<rparr>)"
    using brk_grow_example [OF group_example_facts(6)] by auto
  let ?s = "group_example\<lparr>mms := (mms group_example)(mm_id group_example 8 \<mapsto> m8)\<rparr>"
  have "mm_of ?s 7 = Some (mm_example [vma_example])"
    using mm_of_upd [OF group_example_facts(7)] by (simp add: mm_id_def group_example_facts) (simp add: task_example_def)
  from brk_grow_example [OF this] obtain m7 where m7: "brk_grow env_example 0 1 0x80000000 0x8000A000 7 ?s =
      ret (None, ?s\<lparr>mms := (mms ?s)(mm_id ?s 7 \<mapsto> m7)\<rparr>)" by auto
  let ?t = "?s\<lparr>mms := (mms ?s)(mm_id ?s 7 \<mapsto> m7)\<rparr>"
  have "foreach (brk_grow env_example 0 1 0x80000000 0x8000A000) [8, 7] group_example = ret (None, ?t)"
    using m8 m7 by (simp add: sb_def)
  moreover have "mm_of ?t 1 = mm_of group_example 1"
    by (simp add: mm_of_def mm_id_def group_example_def task_example_def)
  ultimately show ?thesis by blast
qed

lemma sys_brk_example: "\<exists>s'. sys_absys_brk env_example 1 8 0x8000A000 group_example = ret (0x8000A000, s')"
proof -
  note g = group_example_group
  have r: "ring (tasks group_example) 1 [8, 7]" using g by (simp add: group_def)
  have i: "find_vma_intersection [vma_example] 0x80000000 (0x8000A000 + PAGE_SIZE) = None"
    by (rule unmapped_intersection) (use vma_example_ok vma_example_below in \<open>simp_all add: PAGE_SIZE_def\<close>)
  have al: "PAGE_ALIGN 0x80000000 = 0x80000000" "PAGE_ALIGN 0x8000A000 = 0x8000A000"
    by (simp_all add: PAGE_ALIGN_def PAGE_SIZE_def PAGE_MASK_def)
  have b: "for_ab_tasks 1 (brk_blocked 1 0x80000000 0x8000A000) group_example = ret (None, group_example)"
    unfolding for_ab_tasks_ring [OF r brk_blocked_keeps]
    using i by (simp add: sb_def brk_blocked_one [OF group_example_facts(6)] brk_blocked_one [OF group_example_facts(7)])
  obtain s' where s': "for_ab_tasks 1 (brk_grow env_example 0 1 0x80000000 0x8000A000) group_example = ret (None, s')"
    "mm_of s' 1 = Some (mm_example [])"
    using foreach_example unfolding for_ab_tasks_ring [OF r bg.next_kept] group_example_facts(5) by blast
  show ?thesis
    using controls_arbiter [OF g, of 8] b s'(1) al
    by (simp add: sys_absys_brk_def sb_def group_example_facts on_mm_gets [OF group_example_facts(5)] on_mm_run [OF s'(2)]
        task_example_def Let_def)
qed

theorem absys_brk_grows_witness:
  "\<exists>s' m'. sys_absys_brk env_example 1 8 0x8000A000 group_example = ret (0x8000A000, s') \<and>
     mm_of s' 7 = Some m' \<and> grown 0 0x80000000 0x8000A000 True (mm_example [vma_example]) m'"
proof -
  have al: "PAGE_ALIGN 0x80000000 = 0x80000000" "PAGE_ALIGN 0x8000A000 = 0x8000A000"
    by (simp_all add: PAGE_ALIGN_def PAGE_SIZE_def PAGE_MASK_def)
  have r: "break_range 0x80000000 0x8000A000" by (simp add: break_range_def TASK_SIZE_def page_aligned_def PAGE_MASK_def)
  have h: "hooks_ok env_example" by (simp add: hooks_ok_def)
  have pre: "8 \<in> set [8 :: pid, 7]" "break_range (PAGE_ALIGN (mm_ab_brk (mm_example []))) (PAGE_ALIGN 0x8000A000)"
    "mm_start_ab_brk (mm_example []) \<le> 0x8000A000" using r by (simp_all add: al)
  obtain all s' where s: "sys_absys_brk env_example 1 8 0x8000A000 group_example = ret (if all then 0x8000A000 else 0x80000000, s')"
    "\<forall>p \<in> set [8, 7]. \<exists>m m' g. mm_of group_example p = Some m \<and> mm_of s' p = Some m' \<and> (all \<longrightarrow> g) \<and>
       grown (tk_personality (task_example 8 3 0x10)) 0x80000000 0x8000A000 g m m'"
    using absys_brk_grows [OF group_example_spaces pre(1) h group_example_facts(1,5) pre(2,3)] unfolding al mm_example_simps by blast
  have seven: "7 \<in> set [8 :: pid, 7]" by simp
  have all using s(1) sys_brk_example by (auto split: if_splits)
  then show ?thesis using s(1) bspec [OF s(2) seven] group_example_facts(7) by (auto simp: task_example_def)
qed

subsection \<open>Protection\<close>

lemma absys_mprotect_run:
  assumes g: "group_spaces s arb cs" "c \<in> set cs" and t: "tasks s c = Some t" "mm_of s c = Some m"
    and a: "prot AND NOT 7 = 0" "page_aligned start" "start < start + PAGE_ALIGN len"
  shows "\<exists>err ys pt. sys_absys_mprotect env arb c start len prot s =
      ret (err, s\<lparr>mms := (mms s)(mm_id s c \<mapsto> m\<lparr>mm_mmap := ys, mm_pgd := pt\<rparr>)\<rparr>) \<and>
    reprotected (\<lambda>_. True) (calc_vm_prot_bits (implied_exec (tk_personality t) prot))
      start (start + PAGE_ALIGN len) (mm_mmap m) err ys \<and>
    (table_ok (mm_mmap m) (mm_pgd m) \<longrightarrow> table_ok ys pt)"
proof -
  note d = group_spacesD [OF g(1)]
  have ok: "vmas_ok (mm_mmap m)" using d(4) g(2) t(2) by (auto simp: ready_def)
  obtain err ys pt where r: "mprotect_mm env (\<lambda>_. 0) (tk_personality t) start len prot m = ret (err, m\<lparr>mm_mmap := ys, mm_pgd := pt\<rparr>)"
    "reprotected (\<lambda>_. True) (calc_vm_prot_bits (implied_exec (tk_personality t) prot))
      start (start + PAGE_ALIGN len) (mm_mmap m) err ys" "table_ok (mm_mmap m) (mm_pgd m) \<longrightarrow> table_ok ys pt"
    by (rule mprotect_mm_exact [OF ok a, of "\<lambda>_. 0" "\<lambda>_. True"]) auto
  have "sys_absys_mprotect env arb c start len prot s = ret (err, s\<lparr>mms := (mms s)(mm_id s c \<mapsto> m\<lparr>mm_mmap := ys, mm_pgd := pt\<rparr>)\<rparr>)"
    using controls_arbiter [OF d(1) g(2)] t r(1) by (simp add: sys_absys_mprotect_def sb_def on_mm_run [OF t(2)])
  then show ?thesis using r(2,3) by blast
qed



lemma controlled_vis: "vis f AND VM_AB_CONTROL = f AND VM_AB_CONTROL"
  by (simp add: vis_def VM_AB_CONTROL_def VM_SAO_def VM_ACCOUNT_def VM_CAN_NONLINEAR_def and.assoc)

lemma controlled_reprot: "bits AND VM_RWX = bits \<Longrightarrow> reprot bits f AND VM_AB_CONTROL = f AND VM_AB_CONTROL"
proof -
  assume b: "bits AND VM_RWX = bits"
  have "(bits AND VM_RWX) AND VM_AB_CONTROL = 0" by (simp add: VM_RWX_7 VM_AB_CONTROL_def VM_SAO_def and.assoc)
  then have "bits AND VM_AB_CONTROL = 0" unfolding b .
  then show ?thesis
    by (simp add: reprot_def bit.conj_disj_distrib2 and.assoc VM_RWX_7 VM_AB_CONTROL_def VM_SAO_def)
qed

text \<open>What the calls a thread makes itself can do: unmap a page, or change the access of one that is not controlled.\<close>

definition still :: "vma list \<Rightarrow> vma list \<Rightarrow> bool" where
  "still xs ys \<longleftrightarrow> (\<forall>x. case view_at xs x of
       None \<Rightarrow> view_at ys x = None
     | Some f \<Rightarrow> view_at ys x = None \<or>
         (if f AND VM_AB_CONTROL \<noteq> 0 then view_at ys x = Some f else \<exists>g. view_at ys x = Some g \<and> g AND VM_AB_CONTROL = 0))"

lemma still_refl: "still xs xs"
  unfolding still_def by (auto split: option.split)

lemma still_trans:
  assumes "still xs ys" "still ys zs" shows "still xs zs"
  unfolding still_def
proof
  fix x
  show "case view_at xs x of None \<Rightarrow> view_at zs x = None
     | Some f \<Rightarrow> view_at zs x = None \<or>
         (if f AND VM_AB_CONTROL \<noteq> 0 then view_at zs x = Some f else \<exists>g. view_at zs x = Some g \<and> g AND VM_AB_CONTROL = 0)"
    using assms [unfolded still_def, rule_format, of x]
    by (cases "view_at xs x"; cases "view_at ys x") (auto split: if_splits)
qed

lemma user_mprotect_run:
  assumes t: "tasks s p = Some t" "mm_of s p = Some m" and ok: "vmas_ok (mm_mmap m)"
  obtains err ys pt where "sys_mprotect env p start len prot s =
      ret (err, s\<lparr>mms := (mms s)(mm_id s p \<mapsto> m\<lparr>mm_mmap := ys, mm_pgd := pt\<rparr>)\<rparr>)" "vmas_ok ys"
    "table_ok (mm_mmap m) (mm_pgd m) \<longrightarrow> table_ok ys pt" "still (mm_mmap m) ys" "dom (view_at ys) = dom (view_at (mm_mmap m))"
proof -
  let ?free = "\<lambda>f. f AND VM_AB_CONTROL = 0"
  have "mprotect_outcome ?free m (mprotect_mm env (\<lambda>v. if is_abt_vma v then - EACCES else 0) (tk_personality t) start len prot m)"
    by (rule mprotect_mm_keeps [OF ok])
      (auto simp: is_abt_vma_def controlled_vis controlled_reprot split: if_splits)
  then obtain err ys pt where r: "mprotect_mm env (\<lambda>v. if is_abt_vma v then - EACCES else 0) (tk_personality t) start len prot m =
      ret (err, m\<lparr>mm_mmap := ys, mm_pgd := pt\<rparr>)"
    and tab: "table_ok (mm_mmap m) (mm_pgd m) \<longrightarrow> table_ok ys pt"
    and k: "ys = mm_mmap m \<or> (\<exists>a e bits. bits AND VM_RWX = bits \<and> reprotected ?free bits a e (mm_mmap m) err ys)"
    unfolding mprotect_outcome_def by blast
  have run: "sys_mprotect env p start len prot s = ret (err, s\<lparr>mms := (mms s)(mm_id s p \<mapsto> m\<lparr>mm_mmap := ys, mm_pgd := pt\<rparr>)\<rparr>)"
    using t r by (simp add: sys_mprotect_def sb_def on_mm_run [OF t(2)])
  have "vmas_ok ys \<and> still (mm_mmap m) ys \<and> dom (view_at ys) = dom (view_at (mm_mmap m))"
    using k
  proof (elim disjE exE conjE)
    fix a e bits assume bits: "bits AND VM_RWX = bits" and "reprotected ?free bits a e (mm_mmap m) err ys"
    then obtain u where u: "view_at ys = reprot_range bits a u (view_at (mm_mmap m))" "vmas_ok ys"
      "\<forall>y. a \<le> y \<and> y < u \<longrightarrow> (\<exists>f. view_at (mm_mmap m) y = Some f \<and> ?free f)"
      by (auto simp: reprotected_def)
    have "still (mm_mmap m) ys"
      unfolding still_def
    proof
      fix x
      show "case view_at (mm_mmap m) x of None \<Rightarrow> view_at ys x = None
         | Some f \<Rightarrow> view_at ys x = None \<or>
             (if f AND VM_AB_CONTROL \<noteq> 0 then view_at ys x = Some f else \<exists>g. view_at ys x = Some g \<and> g AND VM_AB_CONTROL = 0)"
        using u(1) u(3) [rule_format, of x] controlled_reprot [OF bits]
        by (cases "a \<le> x \<and> x < u"; cases "view_at (mm_mmap m) x") (auto simp: reprot_range_def)
    qed
    then show ?thesis using u(1,2) by (auto simp: reprot_range_def dom_def)
  qed (use ok still_refl in simp)
  then show thesis using that [OF run] tab by blast
qed

text \<open>
  A thread cannot change the access of memory its arbiter controls: \<^verbatim>\<open>mprotect\<close>, called by the
  thread itself with any arguments, leaves the flags of every controlled page as they were, and
  a page table that agrees with the areas agreeing.
\<close>

theorem user_mprotect_confined:
  assumes t: "tasks s p = Some t" "mm_of s p = Some m" and ok: "vmas_ok (mm_mmap m)"
  shows "\<exists>err ys pt. sys_mprotect env p start len prot s =
      ret (err, s\<lparr>mms := (mms s)(mm_id s p \<mapsto> m\<lparr>mm_mmap := ys, mm_pgd := pt\<rparr>)\<rparr>) \<and>
    (\<forall>x f. view_at (mm_mmap m) x = Some f \<and> f AND VM_AB_CONTROL \<noteq> 0 \<longrightarrow> view_at ys x = Some f) \<and>
    (table_ok (mm_mmap m) (mm_pgd m) \<longrightarrow> table_ok ys pt)"
proof -
  obtain err ys pt where r: "sys_mprotect env p start len prot s =
      ret (err, s\<lparr>mms := (mms s)(mm_id s p \<mapsto> m\<lparr>mm_mmap := ys, mm_pgd := pt\<rparr>)\<rparr>)"
    "table_ok (mm_mmap m) (mm_pgd m) \<longrightarrow> table_ok ys pt" "still (mm_mmap m) ys" "dom (view_at ys) = dom (view_at (mm_mmap m))"
    by (rule user_mprotect_run [OF assms])
  have "view_at ys x = Some f" if x: "view_at (mm_mmap m) x = Some f" "f AND VM_AB_CONTROL \<noteq> 0" for x f
  proof -
    have "x \<in> dom (view_at ys)" using r(4) x(1) by blast
    then show ?thesis using r(3) [unfolded still_def, rule_format, of x] x by auto
  qed
  then show ?thesis using r(1,2) by blast
qed

theorem user_mprotect_confined_witness:
  "\<exists>err ys pt. sys_mprotect env_example 7 0x90000000 4096 7 group_example =
     ret (err, group_example\<lparr>mms := (mms group_example)(0x30 \<mapsto> (mm_example [vma_example])\<lparr>mm_mmap := ys, mm_pgd := pt\<rparr>)\<rparr>) \<and>
   view_at ys 0x90000000 = Some 0x20000073 \<and> table_ok ys pt"
proof -
  have v: "view_at (mm_mmap (mm_example [vma_example])) 0x90000000 = Some 0x20000073"
    by (simp add: mm_example_def view_at_def vma_example_def core_flags_def vis_def VM_ACCOUNT_def VM_CAN_NONLINEAR_def)
  have ok: "vmas_ok (mm_mmap (mm_example [vma_example]))" using vma_example_ok by (simp add: mm_example_def)
  show ?thesis
    using user_mprotect_confined [OF group_example_facts(3,7) ok, of env_example "0x90000000" 4096 7] v mm_example_ok(1) [unfolded space_ok_def]
    by (fastforce simp: VM_AB_CONTROL_def VM_SAO_def mm_id_def group_example_facts task_example_def)
qed

subsection \<open>Page faults\<close>


lemma abmap_example: "abmap_get_page env_example 7 0x90001234 group_example = ret (Some 0x90001, group_example)"
  using group_example_facts(1,3) roles_example(3) [of 1 "0x30"] group_find_my_arbiter [OF group_example_group, of 7]
  by (simp add: abmap_get_page_def sb_def) (simp add: task_example_def)

lemma first_pte_example: "first_pte env_example 0x90001 vma_example = 0x90001067"
proof -
  have "pfn_pte env_example 0x90001 (vm_page_prot vma_example) = 0x90001025"
    unfolding pfn_pte_def vm_page_prot_def page_prot_supported
    by (simp add: vm_get_page_prot_def vma_example_def protection_map_def VM_READ_def VM_WRITE_def VM_EXEC_def VM_SHARED_def
      PAGE_COPY_def PAGE_PRESENT_def PAGE_USER_def PAGE_ACCESSED_def)
  then show ?thesis
    by (simp add: first_pte_def) (simp add: vma_example_def VM_WRITE_def pte_mkwrite_def pte_mkdirty_def PAGE_RW_def PAGE_DIRTY_def)
qed


subsection \<open>Joining and leaving a group\<close>

lemma special_identity [simp]: "\<not> is_arbiter (t\<lparr>ab_identity := convert_to_identity cat AB_SET_ME_SPECIAL\<rparr>)"
proof -
  have "convert_to_identity cat 0 AND 1 = 0"
    by (simp add: convert_to_identity_def and_one_eq mod_2_eq_odd)
  then show ?thesis by (simp add: is_arbiter_def get_role_def AB_SET_ME_SPECIAL_def)
qed

text \<open>What \<open>AB_SET_ME_SPECIAL\<close> does, given the links of the ring after \<^verbatim>\<open>list_add\<close>.\<close>

lemma thread_control_special_run:
  assumes t: "tasks s p = Some t" "tasks s (tk_parent t) = Some par" "tasks s (ab_next par) = Some n" "p \<noteq> tk_parent t"
  obtains s' where "sys_absys_thread_control p AB_SET_ME_SPECIAL s = ret (0, s')"
    "mms s' = mms s" "\<forall>x. map_option ab_next (tasks s' x) = map_option ab_next (linked p (tk_parent t) (ab_next par) (tasks s) x)"
    "\<forall>x. x \<noteq> p \<longrightarrow> map_option ab_identity (tasks s' x) = map_option ab_identity (tasks s x)"
    "\<forall>x. map_option (\<lambda>t. (tk_mm t, tk_parent t)) (tasks s' x) = map_option (\<lambda>t. (tk_mm t, tk_parent t)) (tasks s x)"
    "\<exists>t'. tasks s' p = Some t' \<and> ab_identity t' = convert_to_identity (get_category par) AB_SET_ME_SPECIAL \<and>
       ab_tgleader_mm t' = (if is_arbiter par then tk_mm t else ab_tgleader_mm par)"
proof -
  define s1 where "s1 = s\<lparr>tasks := linked p (tk_parent t) (ab_next par) (tasks s)\<rparr>"
  have la: "list_add p (tk_parent t) s = ret ((), s1)"
    unfolding s1_def by (rule list_add_run [OF t(2,3,1,4)])
  define t1 where "t1 = t\<lparr>ab_next := ab_next par, ab_prev := tk_parent t\<rparr>"
  have p1: "tasks s1 p = Some t1" using t by (simp add: s1_def linked_def t1_def)
  obtain par1 where par1: "tasks s1 (tk_parent t) = Some par1" "ab_identity par1 = ab_identity par"
    "ab_tgleader_mm par1 = ab_tgleader_mm par" "is_arbiter par1 = is_arbiter par"
    using t by (simp add: s1_def linked_def is_arbiter_def get_role_def)
  define t2 where "t2 = t1\<lparr>ab_tgleader_mm := if is_arbiter par1 then tk_mm t1 else ab_tgleader_mm par1,
    ab_identity := convert_to_identity (get_category par) AB_SET_ME_SPECIAL\<rparr>"
  let ?s = "s1\<lparr>tasks := (tasks s1)(p \<mapsto> t2)\<rparr>"
  have "AB_SET_ME_SPECIAL \<noteq> AB_SET_ME_ARBITER" by (simp add: AB_SET_ME_SPECIAL_def AB_SET_ME_ARBITER_def)
  then have run: "sys_absys_thread_control p AB_SET_ME_SPECIAL s = ret (0, ?s)"
    using t la p1 par1(1) by (simp add: sys_absys_thread_control_def sb_def t2_def)
  show thesis
  proof (rule that [OF run])
    show "\<forall>x. map_option ab_next (tasks ?s x) = map_option ab_next (linked p (tk_parent t) (ab_next par) (tasks s) x)"
      using p1 by (auto simp: s1_def t2_def t1_def)
    show "\<forall>x. x \<noteq> p \<longrightarrow> map_option ab_identity (tasks ?s x) = map_option ab_identity (tasks s x)"
      by (auto simp: s1_def linked_def option.map_comp comp_def)
    show "\<forall>x. map_option (\<lambda>t. (tk_mm t, tk_parent t)) (tasks ?s x) = map_option (\<lambda>t. (tk_mm t, tk_parent t)) (tasks s x)"
      using t by (auto simp: s1_def linked_def option.map_comp comp_def t1_def t2_def)
    show "\<exists>t'. tasks ?s p = Some t' \<and> ab_identity t' = convert_to_identity (get_category par) AB_SET_ME_SPECIAL \<and>
       ab_tgleader_mm t' = (if is_arbiter par then tk_mm t else ab_tgleader_mm par)"
      using par1 by (simp add: t2_def t1_def)
  qed (simp add: s1_def)
qed

lemma ring_at:
  assumes "ring ts arb cs" "h \<in> set (arb # cs)"
  obtains xs where "ring ts h xs" "set (h # xs) = set (arb # cs)"
proof (cases "h = arb")
  case True
  then show thesis using that assms(1) by blast
next
  case False
  then obtain ys zs where cs: "cs = ys @ h # zs" using assms(2) by (metis set_ConsD split_list)
  then have "ring ts h (zs @ arb # ys)" using assms(1) ring_rotate by blast
  then show thesis by (rule that) (auto simp: cs)
qed

lemma ring_next:
  assumes "ring ts h xs" "ts h = Some t"
  obtains n where "ts (ab_next t) = Some n"
proof -
  have "ab_next t \<in> set (h # xs)" using assms by (cases xs) (auto simp: ring_def)
  then show thesis using ring_alive [OF assms(1)] that by blast
qed

lemma arbiter_at_cong:
  "map_option ab_identity (ts x) = map_option ab_identity (ts' x) \<Longrightarrow> arbiter_at ts x = arbiter_at ts' x"
  by (cases "ts x"; cases "ts' x") (simp_all add: arbiter_at_def is_arbiter_def get_role_def)

lemma thread_control_run:
  assumes g: "group (tasks s) arb cs" and p: "tasks s p = Some t" "p \<notin> set (arb # cs)"
    and par: "tk_parent t \<in> set (arb # cs)" "tasks s (tk_parent t) = Some par"
  shows "\<exists>s' cs' t'. sys_absys_thread_control p AB_SET_ME_SPECIAL s = ret (0, s') \<and>
    group (tasks s') arb cs' \<and> set cs' = insert p (set cs) \<and> mms s' = mms s \<and> tasks s' p = Some t' \<and>
    ab_identity t' = convert_to_identity (get_category par) AB_SET_ME_SPECIAL \<and>
    ab_tgleader_mm t' = (if is_arbiter par then tk_mm t else ab_tgleader_mm par) \<and>
    (\<forall>x. x \<noteq> p \<longrightarrow> map_option ab_identity (tasks s' x) = map_option ab_identity (tasks s x)) \<and>
    (\<forall>x. map_option (\<lambda>t. (tk_mm t, tk_parent t)) (tasks s' x) = map_option (\<lambda>t. (tk_mm t, tk_parent t)) (tasks s x))"
proof -
  have r: "ring (tasks s) arb cs" using g by (simp add: group_def)
  obtain xs where xs: "ring (tasks s) (tk_parent t) xs" "set (tk_parent t # xs) = set (arb # cs)"
    by (rule ring_at [OF r par(1)])
  obtain n where n: "tasks s (ab_next par) = Some n" by (rule ring_next [OF xs(1) par(2)])
  have ne: "p \<noteq> tk_parent t" using p(2) par(1) by auto
  obtain s' where s': "sys_absys_thread_control p AB_SET_ME_SPECIAL s = ret (0, s')" "mms s' = mms s"
    "\<forall>x. map_option ab_next (tasks s' x) = map_option ab_next (linked p (tk_parent t) (ab_next par) (tasks s) x)"
    "\<forall>x. x \<noteq> p \<longrightarrow> map_option ab_identity (tasks s' x) = map_option ab_identity (tasks s x)"
    "\<forall>x. map_option (\<lambda>t. (tk_mm t, tk_parent t)) (tasks s' x) = map_option (\<lambda>t. (tk_mm t, tk_parent t)) (tasks s x)"
    "\<exists>t'. tasks s' p = Some t' \<and> ab_identity t' = convert_to_identity (get_category par) AB_SET_ME_SPECIAL \<and>
       ab_tgleader_mm t' = (if is_arbiter par then tk_mm t else ab_tgleader_mm par)"
    by (rule thread_control_special_run [OF p(1) par(2) n ne])
  have "ring (linked p (tk_parent t) (ab_next par) (tasks s)) (tk_parent t) (p # xs)"
    by (rule ring_list_add [OF xs(1) _ p(1) par(2)]) (use p(2) xs(2) in \<open>simp only: not_False_eq_True\<close>)
  then have "ring (tasks s') (tk_parent t) (p # xs)"
    using ring_cong [of "tk_parent t" "p # xs" "tasks s'"] s'(3) by simp
  then obtain cs' where cs': "ring (tasks s') arb cs'" "set (arb # cs') = set (tk_parent t # p # xs)"
    using ring_at [of "tasks s'" "tk_parent t" "p # xs" arb] xs(2) by (metis insert_iff list.set(2))
  have "set (arb # cs') = insert p (set (arb # cs))" using cs'(2) xs(2) by auto
  moreover have "arb \<notin> set cs'" "arb \<notin> set cs" using cs'(1) r by (simp_all add: ring_def)
  ultimately have set: "set cs' = insert p (set cs)" using p(2) by auto
  have same: "arbiter_at (tasks s') x = arbiter_at (tasks s) x" if "x \<noteq> p" for x
    by (rule arbiter_at_cong) (use s'(4) that in simp)
  obtain t' where t': "tasks s' p = Some t'" "ab_identity t' = convert_to_identity (get_category par) AB_SET_ME_SPECIAL"
    "ab_tgleader_mm t' = (if is_arbiter par then tk_mm t else ab_tgleader_mm par)" using s'(6) by blast
  have "\<not> is_arbiter t'" using special_identity [where t = t' and cat = "get_category par"] t'(2) by (simp add: is_arbiter_def get_role_def)
  then have np: "\<not> arbiter_at (tasks s') p" using t'(1) by (simp add: arbiter_at_def)
  have "\<not> arbiter_at (tasks s') c" if "c \<in> set cs'" for c
    using np same [of c] that set g by (cases "c = p") (auto simp: group_def)
  then have "group (tasks s') arb cs'"
    using g cs'(1) same [of arb] p(2) by (auto simp: group_def)
  then show ?thesis using s'(1,2,4,5) set t' by blast
qed

text \<open>
  A task whose parent is a member of a group and that asks to become a special thread joins the
  ring of the group, under the same arbiter, in the category of its parent.
\<close>

theorem thread_control_joins:
  assumes g: "group (tasks s) arb cs" and p: "tasks s p = Some t" "p \<notin> set (arb # cs)"
    and par: "tk_parent t \<in> set (arb # cs)" "tasks s (tk_parent t) = Some par"
  shows "\<exists>s' cs' t'. sys_absys_thread_control p AB_SET_ME_SPECIAL s = ret (0, s') \<and>
    group (tasks s') arb cs' \<and> set cs' = insert p (set cs) \<and> mms s' = mms s \<and> tasks s' p = Some t' \<and>
    ab_identity t' = convert_to_identity (get_category par) AB_SET_ME_SPECIAL \<and>
    ab_tgleader_mm t' = (if is_arbiter par then tk_mm t else ab_tgleader_mm par)"
  using thread_control_run [OF assms] by blast

theorem thread_control_joins_witness:
  "\<exists>s' cs'. sys_absys_thread_control 9 AB_SET_ME_SPECIAL group_example = ret (0, s') \<and>
    group (tasks s') 1 cs' \<and> set cs' = {7, 8, 9}"
  using thread_control_joins [OF group_example_group group_example_facts(4)] group_example_facts(1)
  by (fastforce simp: task_example_def)

lemma thread_control_arbiter_run:
  assumes u: "tasks s u = Some t" "mm_of s u = Some m"
  obtains s' where "sys_absys_thread_control u AB_SET_ME_ARBITER s = ret (0, s')"
    "tasks s' = (tasks s)(u \<mapsto> t\<lparr>ab_identity := convert_to_identity (ab_category_count s + 1) AB_SET_ME_ARBITER\<rparr>)"
proof -
  define s1 where "s1 = s\<lparr>ab_category_count := ab_category_count s + 1\<rparr>"
  have m1: "mm_of s1 u = Some m" using u(2) by (simp add: s1_def mm_of_def)
  define s2 where "s2 = s1\<lparr>mms := (mms s1)(mm_id s1 u \<mapsto> m\<lparr>mm_start_ab_brk := AB_HEAP_START\<rparr>)\<rparr>"
  have m2: "mm_of s2 u = Some (m\<lparr>mm_start_ab_brk := AB_HEAP_START\<rparr>)" using mm_of_upd [OF m1] by (simp add: s2_def)
  define s3 where "s3 = s2\<lparr>mms := (mms s2)(mm_id s2 u \<mapsto> m\<lparr>mm_start_ab_brk := AB_HEAP_START, mm_ab_brk := AB_HEAP_START\<rparr>)\<rparr>"
  have r: "alloc_category s = ret (ab_category_count s + 1, s1)"
    by (simp add: alloc_category_def s1_def)
  have r2: "on_mm u (modify (\<lambda>m. m\<lparr>mm_start_ab_brk := AB_HEAP_START\<rparr>)) s1 = ret ((), s2)"
    unfolding on_mm_run [OF m1] s2_def by simp
  have r3: "on_mm u (modify (\<lambda>m. m\<lparr>mm_ab_brk := AB_HEAP_START\<rparr>)) s2 = ret ((), s3)"
    unfolding on_mm_run [OF m2] s3_def by simp
  have t3: "tasks s3 = tasks s" by (simp add: s1_def s2_def s3_def)
  have "sys_absys_thread_control u AB_SET_ME_ARBITER s = ret (0, s3\<lparr>tasks := (tasks s)(u \<mapsto>
      t\<lparr>ab_identity := convert_to_identity (ab_category_count s + 1) AB_SET_ME_ARBITER\<rparr>)\<rparr>)"
    using u(1) by (simp add: sys_absys_thread_control_def sb_def r r2 r3 t3)
  then show thesis by (rule that) simp
qed

text \<open>
  Property C37.  A special thread can make itself an arbiter.  From then on it, and no longer the real arbiter,
  controls the threads in front of it in the ring.
\<close>

theorem special_usurps:
  assumes g: "group (tasks s) arb (xs @ c # ys @ u # zs)" and u: "tasks s u = Some t" "mm_of s u = Some m"
  shows "\<exists>s'. sys_absys_thread_control u AB_SET_ME_ARBITER s = ret (0, s') \<and>
    controls u c s' = ret (True, s') \<and> controls arb c s' = ret (False, s')"
proof -
  have r: "ring (tasks s) arb (xs @ c # ys @ u # zs)" using g by (simp add: group_def)
  then have ne: "u \<noteq> arb" "arb \<noteq> c" by (auto simp: ring_def)
  define t' where "t' = t\<lparr>ab_identity := convert_to_identity (ab_category_count s + 1) AB_SET_ME_ARBITER\<rparr>"
  have arb: "is_arbiter t'"
  proof -
    have "odd (convert_to_identity (ab_category_count s + 1) 1)"
      unfolding convert_to_identity_def bit_0 [symmetric] by (simp add: bit_or_iff)
    then have "convert_to_identity (ab_category_count s + 1) 1 AND 1 = 1" by (simp add: and_one_eq mod_2_eq_odd)
    then show ?thesis by (simp add: t'_def is_arbiter_def get_role_def AB_SET_ME_ARBITER_def)
  qed
  obtain s' where s': "sys_absys_thread_control u AB_SET_ME_ARBITER s = ret (0, s')" "tasks s' = (tasks s)(u \<mapsto> t')"
    unfolding t'_def by (rule thread_control_arbiter_run [OF u])
  have "ring (tasks s') arb (xs @ c # ys @ u # zs)"
    using r ring_cong [of arb "xs @ c # ys @ u # zs" "tasks s'" "tasks s"] u(1) by (simp add: s'(2) t'_def)
  then have rc: "ring (tasks s') c ((ys @ u # zs) @ arb # xs)" by (rule ring_rotate)
  have "\<not> arbiter_at (tasks s') y" if "y \<in> set ys" for y
  proof -
    have "y \<noteq> u" using r that by (auto simp: ring_def)
    then show ?thesis using g that by (simp add: group_def arbiter_at_def s'(2))
  qed
  then have "List.find (arbiter_at (tasks s')) ((ys @ u # zs) @ arb # xs) = Some u"
    using arb find_past [of ys "arbiter_at (tasks s')" u "zs @ arb # xs"] by (simp add: s'(2) arbiter_at_def)
  then have f: "find_my_arbiter c s' = ret (Some u, s')" using find_my_arbiter_ring [OF rc] by simp
  obtain ta where ta: "tasks s' arb = Some ta" using ring_alive [OF r, of arb] ne(1) by (auto simp: s'(2))
  have "controls u c s' = ret (True, s')" using f arb by (simp add: controls_def sb_def s'(2))
  moreover have "controls arb c s' = ret (False, s')" using f ta ne(1) by (simp add: controls_def sb_def)
  ultimately show ?thesis using s'(1) by blast
qed

theorem special_usurps_witness:
  "\<exists>s'. sys_absys_thread_control 7 AB_SET_ME_ARBITER group_example = ret (0, s') \<and>
    controls 7 8 s' = ret (True, s') \<and> controls 1 8 s' = ret (False, s')"
  using special_usurps [of group_example 1 "[]" 8 "[]" 7 "[]"] group_example_group group_example_facts by simp

text \<open>
  Property C38.  A special thread that asks a second time to become one is linked to itself, so that its
  arbiter is not found any more and \<^verbatim>\<open>absys_mprotect\<close> on it is refused: its access can never be
  taken back.
\<close>

theorem special_twice_escapes:
  assumes g: "group (tasks s) arb (p # cs)" and p: "tasks s p = Some t" "tk_parent t = arb"
  shows "\<exists>s'. sys_absys_thread_control p AB_SET_ME_SPECIAL s = ret (0, s') \<and> mms s' = mms s \<and>
    sys_absys_mprotect env arb p start len prot s' = ret (- EPERM, s')"
proof -
  have r: "ring (tasks s) arb (p # cs)" using g by (simp add: group_def)
  then obtain par where par: "tasks s (tk_parent t) = Some par" "ab_next par = p" and ne: "p \<noteq> tk_parent t"
    using p(2) by (auto simp: ring_def)
  have n: "tasks s (ab_next par) = Some t" using par(2) p(1) by simp
  obtain s' where s': "sys_absys_thread_control p AB_SET_ME_SPECIAL s = ret (0, s')" "mms s' = mms s"
    "\<forall>x. map_option ab_next (tasks s' x) = map_option ab_next (linked p (tk_parent t) (ab_next par) (tasks s) x)"
    "\<forall>x. x \<noteq> p \<longrightarrow> map_option ab_identity (tasks s' x) = map_option ab_identity (tasks s x)"
    "\<forall>x. map_option (\<lambda>t. (tk_mm t, tk_parent t)) (tasks s' x) = map_option (\<lambda>t. (tk_mm t, tk_parent t)) (tasks s x)"
    "\<exists>t'. tasks s' p = Some t' \<and> ab_identity t' = convert_to_identity (get_category par) AB_SET_ME_SPECIAL \<and>
       ab_tgleader_mm t' = (if is_arbiter par then tk_mm t else ab_tgleader_mm par)"
    by (rule thread_control_special_run [OF p(1) par(1) n ne])
  have "ring (tasks s') p []"
    using s'(3) [rule_format, of p] ne p(1) par(2) by (auto simp: ring_def linked_def)
  then have f: "find_my_arbiter p s' = ret (None, s')" using find_my_arbiter_ring [of s' p "[]"] by simp
  obtain ta where ta: "tasks s' arb = Some ta"
    using s'(4) [rule_format, of arb] ne par(1) p(2) by auto
  have "controls arb p s' = ret (False, s')" using f ta by (simp add: controls_def sb_def)
  then have "sys_absys_mprotect env arb p start len prot s' = ret (- EPERM, s')"
    by (simp add: sys_absys_mprotect_def sb_def)
  then show ?thesis using s'(1,2) by blast
qed

theorem special_twice_escapes_witness:
  "\<exists>s'. sys_absys_thread_control 8 AB_SET_ME_SPECIAL group_example = ret (0, s') \<and> mms s' = mms group_example \<and>
    sys_absys_mprotect env_example 1 8 0x90000000 4096 0 s' = ret (- EPERM, s')"
  using special_twice_escapes [of group_example 1 8 "[7]" "task_example 7 2 0x20"] group_example_group group_example_facts
  by (simp add: task_example_def)

end
