(* ===== verification/Kernel_Mapping.thy ===== *)
theory Kernel_Mapping
  imports Kernel_Control
begin

text \<open>
  \<^verbatim>\<open>absys_mmap\<close> with the flags the monitor uses: the region is mapped in the address space of the
  thread it is for with the requested access, and reserved, with no access at all, in the
  address spaces of its siblings.
\<close>

subsection \<open>Mapping a region\<close>

lemma account_region_same:
  "vmflags AND VM_LOCKED = 0 \<Longrightarrow> account_region env a len vmflags m = (a, m\<lparr>mm_total_vm := mm_total_vm m + pages len\<rparr>)"
  by (simp add: account_region_def Let_def)

lemma put_range_twice [simp]: "put_range (put_range f a e x) a e y = put_range f a e y"
  by (auto simp: put_range_def)

lemma put_none_unmapped: "flags_at xs = put_range f a e None \<Longrightarrow> unmapped xs a e"
  by (simp add: unmapped_def put_range_def)

text \<open>What mapping a range does to the flags: all of it, or an error and nothing new.\<close>

definition region_mapped :: "addr \<Rightarrow> addr \<Rightarrow> word32 \<Rightarrow> mm \<Rightarrow> word32 \<times> mm \<Rightarrow> bool" where
  "region_mapped a e f m = (\<lambda>(r, m'). vmas_ok (mm_mmap m') \<and> space_kept m m' \<and>
     (if r = a then flags_at (mm_mmap m') = put_range (flags_at (mm_mmap m)) a e (Some (core_flags f))
      else errno_val r \<and> (\<forall>x g. flags_at (mm_mmap m') x = Some g \<longrightarrow> flags_at (mm_mmap m) x = Some g)))"

definition user_range :: "addr \<Rightarrow> word32 \<Rightarrow> bool" where
  "user_range a len \<longleftrightarrow> a < a + len \<and> a + len \<le> TASK_SIZE \<and> page_aligned a \<and> page_aligned len"

lemma user_rangeD:
  assumes "user_range a len"
  shows "a < a + len" "page_aligned a" "page_aligned (a + len)" "page_aligned len" "a \<noteq> - ENOMEM" "\<not> errno_val a"
  using assms not_task_address [of a len] by (auto simp: user_range_def page_aligned_add)

lemma do_munmap_space_kept:
  assumes ok: "vmas_ok (mm_mmap m)" and d: "do_munmap env s len m = (r, m')" shows "space_kept m m'"
proof -
  have "mm_ab_brk m' = mm_ab_brk m \<and> mm_start_ab_brk m' = mm_start_ab_brk m \<and>
     mm_def_flags m' = mm_def_flags m \<and> mm_start_data m' = mm_start_data m \<and> mm_start_brk m' = mm_start_brk m"
    using d
    by (auto simp: do_munmap_def munmap_found_def detach_vmas_to_be_unmapped_def unmap_region_def Let_def
        split: if_splits list.splits prod.splits sum.splits)
  then show ?thesis using do_munmap_table [OF ok _ d] by (simp add: space_kept_def)
qed

lemma space_kept_put:
  assumes "space_kept m m1" "unmapped (mm_mmap m1) a e" "plain_flags f m"
    "flags_at ys = put_range (flags_at (mm_mmap m1)) a e (Some (core_flags f))"
  shows "space_kept m (m1\<lparr>mm_mmap := ys, mm_total_vm := n\<rparr>)"
  using assms(1,3) table_ok_put [OF _ assms(2,4), of "mm_pgd m1"] by (auto simp: space_kept_def plain_flags_def huge_core)

lemma munmap_back_maps:
  assumes ok: "vmas_ok (mm_mmap m)" and u: "user_range a len"
  obtains r m' where "munmap_back env a len m = ret (r, m')" "vmas_ok (mm_mmap m')" "space_kept m m'"
    "r = 0 \<longrightarrow> flags_at (mm_mmap m') = put_range (flags_at (mm_mmap m)) a (a + len) None"
    "\<forall>x g. flags_at (mm_mmap m') x = Some g \<longrightarrow> flags_at (mm_mmap m) x = Some g"
proof -
  note ur = user_rangeD [OF u]
  obtain pre rest where f: "find_vma_prev (mm_mmap m) a = (pre, rest)" by (cases "find_vma_prev (mm_mmap m) a")
  note sp = find_vma_prev_split [OF f]
  show thesis
  proof (cases "rest = [] \<or> \<not> vm_start (hd rest) < a + len")
    case True
    then have "munmap_back env a len m = ret (0, m)"
      using f by (subst munmap_back.simps) (auto split: list.splits)
    moreover have "flags_at (mm_mmap m) = put_range (flags_at (mm_mmap m)) a (a + len) None"
      using flags_at_gap [OF _ sp(2), of rest "a + len"] True ok unfolding sp(1)
      by (auto simp: put_range_def not_less simp del: flags_at_append intro!: ext)
    ultimately show thesis using ok by (intro that) auto
  next
    case False
    obtain r m' where d: "do_munmap env a len m = (r, m')" by (cases "do_munmap env a len m")
    have eq: "munmap_back env a len m = (if r \<noteq> 0 then ret (- ENOMEM, m') else munmap_back env a len m')"
      using False f d by (subst munmap_back.simps) (auto split: list.splits)
    note k = do_munmap_keeps [OF ok d] and sb = do_munmap_space_kept [OF ok d]
    have sub: "\<forall>x g. flags_at (mm_mmap m') x = Some g \<longrightarrow> flags_at (mm_mmap m) x = Some g"
      using k(2) by (auto simp: put_range_def split: if_splits)
    show thesis
    proof (cases "r = 0")
      case True
      have fl: "flags_at (mm_mmap m') = put_range (flags_at (mm_mmap m)) a (a + len) None"
        using k(2) True by (simp add: PAGE_ALIGN_id [OF ur(4)])
      have "munmap_back env a len m' = ret (0, m')"
        by (rule munmap_back_gap [OF k(1) ur(1) put_none_unmapped [OF fl]])
      then have "munmap_back env a len m = ret (0, m')" using eq True by simp
      then show thesis by (rule that) (use k(1) sb fl sub in simp_all)
    next
      case False
      then have "munmap_back env a len m = ret (- ENOMEM, m')" using eq by simp
      then show thesis by (rule that) (use k(1) sb sub in simp_all)
    qed
  qed
qed

lemma absys_mmap_region_maps:
  assumes ok: "vmas_ok (mm_mmap m)" and u: "user_range a len"
    and f: "vmflags AND VM_AB_CONTROL \<noteq> 0" "vmflags AND VM_LOCKED = 0" "vmflags AND VM_SHARED \<noteq> 0" "flags AND MAP_NORESERVE = 0"
      "plain_flags vmflags m"
  obtains r m' where "absys_mmap_region env a len flags vmflags pgoff m = ret (r, m')"
    "region_mapped a (a + len) vmflags m (r, m')"
proof -
  note r = user_rangeD [OF u]
  obtain k m1 where b: "munmap_back env a len m = ret (k, m1)" "vmas_ok (mm_mmap m1)" "space_kept m m1"
    "k = 0 \<longrightarrow> flags_at (mm_mmap m1) = put_range (flags_at (mm_mmap m)) a (a + len) None"
    "\<forall>x g. flags_at (mm_mmap m1) x = Some g \<longrightarrow> flags_at (mm_mmap m) x = Some g"
    by (rule munmap_back_maps [OF ok u])
  have na: "\<not> accountable_mapping vmflags"
  proof
    assume "accountable_mapping vmflags"
    then have "(vmflags AND (VM_NORESERVE OR VM_SHARED OR VM_WRITE)) AND VM_SHARED = VM_WRITE AND VM_SHARED"
      by (simp add: accountable_mapping_def)
    then have "vmflags AND VM_SHARED = 0"
      by (simp add: and.assoc VM_NORESERVE_def VM_SHARED_def VM_WRITE_def)
    then show False using f(3) by simp
  qed
  have rf: "reserve_flags env flags vmflags = vmflags" using f(4) by (simp add: reserve_flags_def)
  show thesis
  proof (cases "k = 0 \<and> may_expand_vm env (pages len) m1")
    case False
    then have "absys_mmap_region env a len flags vmflags pgoff m = ret (- ENOMEM, m1)"
      using b(1) by (auto simp: absys_mmap_region_def sb_def)
    moreover have "region_mapped a (a + len) vmflags m (- ENOMEM, m1)"
      using b(2,3,5) r(5) by (auto simp: region_mapped_def)
    ultimately show thesis by (rule that)
  next
    case True
    then have un: "unmapped (mm_mmap m1) a (a + len)" using b(4) put_none_unmapped by blast
    obtain q ys where lr: "link_region env a len vmflags pgoff m1 = ret (q, m1\<lparr>mm_mmap := ys\<rparr>)" "vmas_ok ys"
      "q = 0 \<longrightarrow> covered ys a (a + len) \<and> flags_at ys = put_range (flags_at (mm_mmap m1)) a (a + len) (Some (core_flags vmflags))"
      "q \<noteq> 0 \<longrightarrow> q = - ENOMEM \<and> ys = mm_mmap m1"
      by (rule link_region_gap [OF b(2) un r(1,2,3) f(1)])
    note run = absys_mmap_region_def [of env a len flags vmflags pgoff, THEN fun_cong, of m]
    show thesis
    proof (cases "q = 0")
      case z: True
      have "absys_mmap_region env a len flags vmflags pgoff m =
          ret (a, m1\<lparr>mm_mmap := ys, mm_total_vm := mm_total_vm m1 + pages len\<rparr>)"
        unfolding run using b(1) True lr(1) na z by (simp add: sb_def rf account_region_same f(2))
      then show thesis
        by (rule that) (use lr(2,3) b(4) True z space_kept_put [OF b(3) un f(5), of ys] in \<open>simp add: region_mapped_def\<close>)
    next
      case z: False
      then have "absys_mmap_region env a len flags vmflags pgoff m = ret (- ENOMEM, m1)"
        unfolding run using b(1) True lr(1,4) na by (simp add: sb_def rf)
      then show thesis
        by (rule that) (use b(2,3,5) r(5) in \<open>auto simp: region_mapped_def\<close>)
    qed
  qed
qed

lemma propagate_region_maps:
  assumes ok: "vmas_ok (mm_mmap m)" and u: "user_range a len" and un: "unmapped (mm_mmap m) a (a + len)"
    and f: "vmflags AND VM_AB_CONTROL \<noteq> 0" "vmflags AND VM_LOCKED = 0" "flags AND MAP_NORESERVE = 0"
      "plain_flags vmflags m"
  obtains r m' where "propagate_region env a len flags vmflags pgoff m = ret (r, m')"
    "region_mapped a (a + len) vmflags m (r, m')" "r \<noteq> a \<longrightarrow> m' = m"
proof -
  note ur = user_rangeD [OF u]
  obtain pre rest where fp: "find_vma_prev (mm_mmap m) a = (pre, rest)" by (cases "find_vma_prev (mm_mmap m) a")
  have "\<forall>w \<in> set rest. a + len \<le> vm_start w" by (rule gap_rest [OF ok fp un ur(1)])
  then have gd: "rest = [] \<or> \<not> vm_start (hd rest) < a + len" by (cases rest) auto
  have rf: "reserve_flags env flags vmflags = vmflags" using f(3) by (simp add: reserve_flags_def)
  obtain q ys where lr: "link_region env a len vmflags pgoff m = ret (q, m\<lparr>mm_mmap := ys\<rparr>)" "vmas_ok ys"
    "q = 0 \<longrightarrow> covered ys a (a + len) \<and> flags_at ys = put_range (flags_at (mm_mmap m)) a (a + len) (Some (core_flags vmflags))"
    "q \<noteq> 0 \<longrightarrow> q = - ENOMEM \<and> ys = mm_mmap m"
    by (rule link_region_gap [OF ok un ur(1,2,3) f(1)])
  note run = propagate_region_def [of env a len flags vmflags pgoff, THEN fun_cong, of m]
  show thesis
  proof (cases "may_expand_vm env (pages len) m \<and> q = 0")
    case True
    then have "propagate_region env a len flags vmflags pgoff m =
        ret (a, m\<lparr>mm_mmap := ys, mm_total_vm := mm_total_vm m + pages len\<rparr>)"
      unfolding run using fp gd lr(1) by (simp add: sb_def rf account_region_same f(2))
    then show thesis
      by (rule that) (use lr(2,3) True space_kept_put [OF space_kept_refl un f(4), of ys] in \<open>simp_all add: region_mapped_def\<close>)
  next
    case False
    then have "propagate_region env a len flags vmflags pgoff m = ret (- ENOMEM, m)"
      unfolding run using fp gd lr(1,4) by (auto simp: sb_def rf)
    then show thesis
      by (rule that) (use ok ur(5) in \<open>auto simp: region_mapped_def\<close>)
  qed
qed

subsection \<open>The call of the monitor\<close>

text \<open>The flags the monitor maps with (\<^verbatim>\<open>AB_MMAP\<close> in \<^verbatim>\<open>monitor/ablib_malloc.h\<close>).\<close>

definition AB_MAP_FLAGS :: word32 where
  "AB_MAP_FLAGS = MAP_PRIVATE OR MAP_ANONYMOUS OR MAP_FIXED"

lemma ab_map_bits:
  "AB_MAP_FLAGS AND MAP_FIXED \<noteq> 0" "AB_MAP_FLAGS AND MAP_HUGETLB = 0" "AB_MAP_FLAGS AND MAP_LOCKED = 0"
  "AB_MAP_FLAGS AND MAP_NORESERVE = 0" "AB_MAP_FLAGS AND MAP_TYPE = MAP_PRIVATE" "MAP_PRIVATE \<noteq> MAP_SHARED"
  "AB_MAP_FLAGS AND MAP_ANONYMOUS \<noteq> 0" "AB_MAP_FLAGS AND NOT (MAP_EXECUTABLE OR MAP_DENYWRITE) = AB_MAP_FLAGS"
  "calc_vm_flag_bits AB_MAP_FLAGS = 0"
  by (simp_all add: AB_MAP_FLAGS_def MAP_PRIVATE_def MAP_ANONYMOUS_def MAP_FIXED_def MAP_HUGETLB_def MAP_LOCKED_def
      MAP_NORESERVE_def MAP_TYPE_def MAP_SHARED_def MAP_EXECUTABLE_def MAP_DENYWRITE_def MAP_GROWSDOWN_def
      calc_vm_flag_bits_def calc_vm_trans_def VM_GROWSDOWN_def VM_DENYWRITE_def VM_EXECUTABLE_def VM_LOCKED_def)

definition plain_def_flags :: "mm \<Rightarrow> bool" where
  "plain_def_flags m \<longleftrightarrow> mm_def_flags m AND (VM_LOCKED OR VM_RWX) = 0"

lemma plain_def_bits:
  assumes "plain_def_flags m"
  shows "mm_def_flags m AND VM_LOCKED = 0" "mm_def_flags m AND VM_RWX = 0"
proof -
  have d: "mm_def_flags m AND (VM_LOCKED OR VM_RWX) = 0" using assms by (simp add: plain_def_flags_def)
  have "(mm_def_flags m AND (VM_LOCKED OR VM_RWX)) AND VM_LOCKED = mm_def_flags m AND VM_LOCKED"
    by (simp add: and.assoc VM_LOCKED_def VM_RWX_7)
  then show "mm_def_flags m AND VM_LOCKED = 0" unfolding d by simp
  have "(mm_def_flags m AND (VM_LOCKED OR VM_RWX)) AND VM_RWX = mm_def_flags m AND VM_RWX"
    by (simp add: and.assoc VM_LOCKED_def VM_RWX_7)
  then show "mm_def_flags m AND VM_RWX = 0" unfolding d by simp
qed

lemma prot_bits_other:
  "calc_vm_prot_bits prot AND VM_LOCKED = 0" "calc_vm_prot_bits prot AND VM_AB_CONTROL = 0"
  "calc_vm_prot_bits prot AND VM_HUGETLB = 0"
  by (simp_all add: calc_vm_prot_bits_and and.assoc VM_RWX_7 VM_LOCKED_def VM_AB_CONTROL_def VM_SAO_def VM_HUGETLB_def)

definition sibling_flags :: "word32 \<Rightarrow> word32 \<Rightarrow> mm \<Rightarrow> word32" where
  "sibling_flags personality prot m = ab_map_flags (implied_exec personality prot) AB_MAP_FLAGS m AND 0xFFFFFFF0"

lemma or_nonzero: "b AND k \<noteq> 0 \<Longrightarrow> (a OR b) AND k \<noteq> (0::word32)"
proof
  assume b: "b AND k \<noteq> 0" and z: "(a OR b) AND k = 0"
  have "b AND k = (b AND k) AND ((a OR b) AND k)" by (rule bit_word_eqI) (auto simp: bit_simps)
  then show False using b z by simp
qed

lemma target_bits:
  assumes "plain_def_flags m"
  shows "ab_map_flags prot AB_MAP_FLAGS m AND VM_LOCKED = 0" "ab_map_flags prot AB_MAP_FLAGS m AND VM_AB_CONTROL \<noteq> 0"
    "ab_map_flags prot AB_MAP_FLAGS m AND VM_SHARED \<noteq> 0" "ab_map_flags prot AB_MAP_FLAGS m AND VM_RWX = calc_vm_prot_bits prot"
    "plain_flags (ab_map_flags prot AB_MAP_FLAGS m) m"
proof -
  define k where "k = VM_MAYREAD OR VM_MAYWRITE OR VM_MAYEXEC OR VM_AB_CONTROL OR VM_SHARED"
  have kn: "k = 0x20000078"
    by (simp add: k_def VM_MAYREAD_def VM_MAYWRITE_def VM_MAYEXEC_def VM_AB_CONTROL_def VM_SAO_def VM_SHARED_def)
  have f: "ab_map_flags prot AB_MAP_FLAGS m = (calc_vm_prot_bits prot OR mm_def_flags m) OR k"
    by (simp add: ab_map_flags_def ab_map_bits k_def or.assoc)
  show "ab_map_flags prot AB_MAP_FLAGS m AND VM_LOCKED = 0"
    unfolding f bit.conj_disj_distrib2 plain_def_bits [OF assms] prot_bits_other by (simp add: kn VM_LOCKED_def)
  show "ab_map_flags prot AB_MAP_FLAGS m AND VM_AB_CONTROL \<noteq> 0"
    unfolding f by (rule or_nonzero) (simp add: kn VM_AB_CONTROL_def VM_SAO_def)
  show "ab_map_flags prot AB_MAP_FLAGS m AND VM_SHARED \<noteq> 0"
    unfolding f by (rule or_nonzero) (simp add: kn VM_SHARED_def)
  show "ab_map_flags prot AB_MAP_FLAGS m AND VM_RWX = calc_vm_prot_bits prot"
    unfolding f bit.conj_disj_distrib2 plain_def_bits [OF assms] prot_bits_rwx by (simp add: kn VM_RWX_7)
  show "plain_flags (ab_map_flags prot AB_MAP_FLAGS m) m"
    unfolding plain_flags_def f bit.conj_disj_distrib2 prot_bits_other by (simp add: kn VM_HUGETLB_def)
qed

lemma sibling_bits:
  assumes "plain_def_flags m"
  shows "sibling_flags personality prot m AND VM_LOCKED = 0" "sibling_flags personality prot m AND VM_AB_CONTROL \<noteq> 0"
    "sibling_flags personality prot m AND VM_RWX = 0" "plain_flags (sibling_flags personality prot m) m"
proof -
  note t = target_bits [OF assms, of "implied_exec personality prot"]
  have "sibling_flags personality prot m AND VM_LOCKED = ab_map_flags (implied_exec personality prot) AB_MAP_FLAGS m AND VM_LOCKED"
    by (simp add: sibling_flags_def and.assoc VM_LOCKED_def)
  then show "sibling_flags personality prot m AND VM_LOCKED = 0" using t(1) by simp
  have "sibling_flags personality prot m AND VM_AB_CONTROL = ab_map_flags (implied_exec personality prot) AB_MAP_FLAGS m AND VM_AB_CONTROL"
    by (simp add: sibling_flags_def and.assoc VM_AB_CONTROL_def VM_SAO_def)
  then show "sibling_flags personality prot m AND VM_AB_CONTROL \<noteq> 0" using t(2) by simp
  show "sibling_flags personality prot m AND VM_RWX = 0" by (simp add: sibling_flags_def and.assoc VM_RWX_7)
  have "sibling_flags personality prot m AND VM_HUGETLB = ab_map_flags (implied_exec personality prot) AB_MAP_FLAGS m AND VM_HUGETLB"
    by (simp add: sibling_flags_def and.assoc VM_HUGETLB_def)
  then show "plain_flags (sibling_flags personality prot m) m" using t(5) by (simp add: plain_flags_def)
qed

lemma region_refused:
  "vmas_ok (mm_mmap m) \<Longrightarrow> errno_val r \<Longrightarrow> \<not> errno_val a \<Longrightarrow> region_mapped a e f m (r, m)"
  by (auto simp: region_mapped_def)

lemma user_range_len:
  assumes "user_range a len"
  shows "len \<noteq> 0" "\<not> len > TASK_SIZE" "\<not> a > TASK_SIZE - len" "PAGE_ALIGN len = len"
proof -
  have a: "a < a + len" "a + len \<le> TASK_SIZE" using assms by (auto simp: user_range_def)
  show "len \<noteq> 0" using a by auto
  have "unat len < 4294967296" using unsigned_less [of len] by simp
  then have e: "unat (a + len) = unat a + unat len"
    using a(1) by (simp add: unat_plus_if' word_less_nat_alt split: if_splits)
  then have "unat len \<le> unat TASK_SIZE" using a(2) by (simp add: word_le_nat_alt)
  then show l: "\<not> len > TASK_SIZE" by (simp add: word_less_nat_alt)
  then have "unat (TASK_SIZE - len) = unat TASK_SIZE - unat len" by (simp add: unat_sub not_less)
  then show "\<not> a > TASK_SIZE - len" using a(2) e by (simp add: word_less_nat_alt word_le_nat_alt)
  show "PAGE_ALIGN len = len" using user_rangeD(4) [OF assms] by (rule PAGE_ALIGN_id)
qed

text \<open>With \<^verbatim>\<open>MAP_FIXED\<close> the search for an area returns the address it is given.\<close>

definition fixed_area :: "kenv \<Rightarrow> bool" where
  "fixed_area env \<longleftrightarrow> (\<forall>a len pgoff. ke_get_area env a len pgoff AB_MAP_FLAGS = a)"

lemma mmap_target:
  assumes ok: "vmas_ok (mm_mmap m)" and u: "user_range a len" and env: "hooks_ok env" "fixed_area env" and d: "plain_def_flags m"
  obtains r m' where "do_absys_mmap_pgoff env personality a len prot AB_MAP_FLAGS pgoff m = ret (r, m')"
    "region_mapped a (a + len) (ab_map_flags (implied_exec personality prot) AB_MAP_FLAGS m) m (r, m')"
proof -
  note ur = user_rangeD [OF u] and ul = user_range_len [OF u] and t = target_bits [OF d, of "implied_exec personality prot"]
  define err where "err = ke_file_mmap env prot (implied_exec personality prot) AB_MAP_FLAGS a False"
  have area: "k_get_unmapped_area env a len pgoff AB_MAP_FLAGS = a"
    using env(2) ul(3) ur(2,6)
    by (simp add: k_get_unmapped_area_def fixed_area_def Let_def errno_val_def page_aligned_def)
  have run: "do_absys_mmap_pgoff env personality a len prot AB_MAP_FLAGS pgoff m =
     (if pgoff + pages len < pgoff then ret (- EOVERFLOW, m)
      else if length (mm_mmap m) > ke_max_map_count env then ret (- ENOMEM, m)
      else if err \<noteq> 0 then ret (err, m)
      else absys_mmap_region env a len AB_MAP_FLAGS (ab_map_flags (implied_exec personality prot) AB_MAP_FLAGS m) (pages a) m)"
    unfolding do_absys_mmap_pgoff_def Let_def
    using ul ur(2) t(1) by (simp add: ab_map_bits area anon_map_type_def err_def page_aligned_def)
  note fin = that
  consider (stop) r where "do_absys_mmap_pgoff env personality a len prot AB_MAP_FLAGS pgoff m = ret (r, m)" "errno_val r"
    | (go) "do_absys_mmap_pgoff env personality a len prot AB_MAP_FLAGS pgoff m =
        absys_mmap_region env a len AB_MAP_FLAGS (ab_map_flags (implied_exec personality prot) AB_MAP_FLAGS m) (pages a) m"
    using run env(1) [unfolded hooks_ok_def, rule_format, of prot "implied_exec personality prot" AB_MAP_FLAGS a False, folded err_def]
    by (auto split: if_splits)
  then show thesis
  proof cases
    case (stop r)
    then show thesis by (rule fin [OF _ region_refused [OF ok _ ur(6)]])
  next
    case go
    obtain r m' where "absys_mmap_region env a len AB_MAP_FLAGS (ab_map_flags (implied_exec personality prot) AB_MAP_FLAGS m) (pages a) m = ret (r, m')"
      "region_mapped a (a + len) (ab_map_flags (implied_exec personality prot) AB_MAP_FLAGS m) m (r, m')"
      by (rule absys_mmap_region_maps [OF ok u t(2,1,3) ab_map_bits(4) t(5)])
    then show thesis using fin go by simp
  qed
qed

subsection \<open>The siblings\<close>

text \<open>What a sibling gets: nothing, or the range without access.\<close>

definition reserved :: "addr \<Rightarrow> word32 \<Rightarrow> mm \<Rightarrow> mm \<Rightarrow> bool" where
  "reserved a len m m' \<longleftrightarrow> vmas_ok (mm_mmap m') \<and> space_kept m m' \<and>
     (flags_at (mm_mmap m') = flags_at (mm_mmap m) \<or>
      (\<exists>f. f AND VM_RWX = 0 \<and> f AND VM_AB_CONTROL \<noteq> 0 \<and>
        flags_at (mm_mmap m') = put_range (flags_at (mm_mmap m)) a (a + len) (Some f)))"

lemma reserved_refl: "vmas_ok (mm_mmap m) \<Longrightarrow> reserved a len m m"
  by (simp add: reserved_def)

lemma rwx_core_all: "core_flags f AND VM_RWX = f AND VM_RWX"
  by (simp add: core_flags_def VM_RWX_7 VM_CAN_NONLINEAR_def and.assoc)

lemma sibling_gap:
  assumes ok: "vmas_ok (mm_mmap m)" and u: "user_range a len" and un: "unmapped (mm_mmap m) a (a + len)" and d: "plain_def_flags m"
  shows "\<exists>r m'. do_absys_vma_propagate env personality a len prot AB_MAP_FLAGS pgoff m = ret (r, m') \<and> reserved a len m m'"
proof -
  note ur = user_rangeD [OF u] and ul = user_range_len [OF u] and t = sibling_bits [OF d, of personality prot]
  obtain r m' where pr: "propagate_region env a len AB_MAP_FLAGS (sibling_flags personality prot m) (pages a) m = ret (r, m')"
    "region_mapped a (a + len) (sibling_flags personality prot m) m (r, m')" "r \<noteq> a \<longrightarrow> m' = m"
    by (rule propagate_region_maps [OF ok u un t(2,1) ab_map_bits(4) t(4)])
  have loop: "propagate_loop env a len AB_MAP_FLAGS (sibling_flags personality prot m) (pages a) a m = ret (a, m)"
    by (subst propagate_loop.simps) (simp add: unmapped_intersection [OF ok un ur(1)])
  have "do_absys_vma_propagate env personality a len prot AB_MAP_FLAGS pgoff m = ret (r, m') \<or>
      (\<exists>e. do_absys_vma_propagate env personality a len prot AB_MAP_FLAGS pgoff m = ret (e, m))"
    unfolding do_absys_vma_propagate_def Let_def sibling_flags_def [symmetric]
    using ul(1) t(1) ur(1) loop pr(1) by (simp add: ab_map_bits anon_map_type_def leD)
  moreover have "reserved a len m m'"
  proof (cases "r = a")
    case True
    let ?f = "core_flags (sibling_flags personality prot m)"
    have "?f AND VM_RWX = 0" "?f AND VM_AB_CONTROL \<noteq> 0" using t(2,3) by (simp_all add: rwx_core_all controlled_core)
    then show ?thesis using pr(2) True unfolding region_mapped_def reserved_def by auto
  next
    case False
    then show ?thesis using pr(3) reserved_refl [OF ok] by simp
  qed
  ultimately show ?thesis using reserved_refl [OF ok] by metis
qed

text \<open>Siblings are also asked to map at an error number; a whole page there wraps around and nothing happens.\<close>

lemma errno_wrap:
  assumes a: "errno_val a" and len: "page_aligned len" "len \<noteq> 0"
  shows "a + len \<le> a"
proof -
  have ua: "4294963201 \<le> unat a" "unat a < 4294967296" using a unsigned_less [of a] by (simp_all add: errno_val_def word_le_nat_alt)
  have "0 < unat len" using len(2) by (simp add: unat_gt_0)
  moreover have "4096 dvd unat len" using len(1) by (simp add: page_aligned_iff)
  ultimately have "4096 \<le> unat len" by (rule dvd_imp_le [rotated])
  moreover have "unat len < 4294967296" using unsigned_less [of len] by simp
  ultimately show ?thesis using ua by (simp add: word_le_nat_alt unat_plus_if')
qed

lemma sibling_error:
  assumes ok: "vmas_ok (mm_mmap m)" and a: "errno_val a" and len: "page_aligned len" "len \<noteq> 0" and d: "plain_def_flags m"
  shows "\<exists>r. do_absys_vma_propagate env personality a len prot AB_MAP_FLAGS pgoff m = ret (r, m)"
proof -
  have ua: "4294963201 \<le> unat a" using a by (simp add: errno_val_def word_le_nat_alt)
  note wrap = errno_wrap [OF a len]
  have none: "find_vma (mm_mmap m) a = None"
  proof -
    have "vm_end w \<le> a" if "w \<in> set (mm_mmap m)" for w
    proof -
      have "page_aligned (vm_end w)" using ok that by (auto dest: vmas_ok_member simp: vma_ok_def)
      then have "4096 dvd unat (vm_end w)" by (simp add: page_aligned_iff)
      then obtain k where "unat (vm_end w) = 4096 * k" by blast
      moreover have "unat (vm_end w) < 4294967296" using unsigned_less [of "vm_end w"] by simp
      ultimately show ?thesis using ua by (simp add: word_le_nat_alt)
    qed
    then show ?thesis unfolding find_vma_def by (rule find_vma_none)
  qed
  have "propagate_loop env a len AB_MAP_FLAGS f pg a m = ret (a, m)" for f pg
    by (subst propagate_loop.simps) (simp add: find_vma_intersection_def none)
  then show ?thesis
    unfolding do_absys_vma_propagate_def Let_def
    using wrap sibling_bits(1) [OF d, of personality prot, unfolded sibling_flags_def] len(2)
    by (simp add: ab_map_bits anon_map_type_def)
qed

definition sibling_ready :: "pid \<Rightarrow> pid \<Rightarrow> addr \<Rightarrow> word32 \<Rightarrow> pid \<Rightarrow> mm \<Rightarrow> bool" where
  "sibling_ready arb c a len p m \<longleftrightarrow> vmas_ok (mm_mmap m) \<and>
     (p = arb \<or> p = c \<or> plain_def_flags m \<and>
       (user_range a len \<and> unmapped (mm_mmap m) a (a + len) \<or> errno_val a \<and> page_aligned len \<and> len \<noteq> 0))"

lemma mm_of_task: "mm_of s p = Some m \<Longrightarrow> \<exists>t. tasks s p = Some t"
  by (cases "tasks s p") (auto simp: mm_of_def)

interpretation ms: space_loop "mmap_other env arb c a len prot AB_MAP_FLAGS pgoff" "sibling_ready arb c a len"
    "\<lambda>p _ m m'. if p = arb \<or> p = c then m' = m else reserved a len m m'"
proof
  fix s p m assume m: "mm_of s p = Some m" and r: "sibling_ready arb c a len p m"
  have ok: "vmas_ok (mm_mmap m)" using r by (simp add: sibling_ready_def)
  show "\<exists>x m'. mmap_other env arb c a len prot AB_MAP_FLAGS pgoff p s =
      ret (x, s\<lparr>mms := (mms s)(mm_id s p \<mapsto> m')\<rparr>) \<and> (if p = arb \<or> p = c then m' = m else reserved a len m m')"
  proof (cases "p = arb \<or> p = c")
    case True
    then show ?thesis
      using m by (intro exI [of _ None] exI [of _ m]) (simp add: mmap_other_def)
  next
    case False
    obtain t where t: "tasks s p = Some t" using mm_of_task [OF m] by blast
    have "\<exists>k m'. do_absys_vma_propagate env (tk_personality t) a len prot AB_MAP_FLAGS pgoff m = ret (k, m') \<and> reserved a len m m'"
      using r False sibling_gap [OF ok] sibling_error [OF ok] reserved_refl [OF ok]
      unfolding sibling_ready_def by metis
    then obtain k m' where k: "do_absys_vma_propagate env (tk_personality t) a len prot AB_MAP_FLAGS pgoff m = ret (k, m')"
      "reserved a len m m'" by blast
    then show ?thesis
      using False t by (intro exI [of _ None] exI [of _ m']) (simp add: mmap_other_def sb_def on_mm_run [OF m])
  qed
next
  fix p s x s' assume "mmap_other env arb c a len prot AB_MAP_FLAGS pgoff p s = ret (x, s')"
  then show "tasks s' = tasks s"
    by (auto simp: mmap_other_def sb_eq_ret get_task_def bnd_eq_ret split: if_splits dest!: on_mm_tasks)
qed

text \<open>The tasks of a group from the point of view of one of them.\<close>

lemma group_spaces_from:
  assumes "group_spaces s arb cs" "c \<in> set (arb # cs)"
  obtains xs where "ring (tasks s) c xs" "set (c # xs) = set (arb # cs)" "distinct (map (mm_id s) (c # xs))"
proof -
  note d = group_spacesD [OF assms(1)]
  obtain xs where xs: "ring (tasks s) c xs" "set (c # xs) = set (arb # cs)"
    by (rule ring_at [OF d(2) assms(2)])
  have "inj_on (mm_id s) (set (arb # cs))"
    using assms(1) unfolding group_spaces_def ready_def distinct_map by blast
  then have "distinct (map (mm_id s) (c # xs))"
    using xs unfolding distinct_map by (simp add: ring_def)
  then show thesis using that xs by blast
qed

lemma group_spaces_keeps:
  assumes g: "group_spaces s arb cs" and o: "only_spaces s s' qs"
    and ok: "\<forall>p \<in> set (arb # cs). \<exists>m. mm_of s' p = Some m \<and> vmas_ok (mm_mmap m)"
  shows "group_spaces s' arb cs"
proof -
  have "tasks s' = tasks s" "mm_id s' = mm_id s" using o only_spaces_id [OF o] by (simp_all add: only_spaces_def)
  then show ?thesis using g ok unfolding group_spaces_def ready_def by simp
qed

lemma only_spaces_trans:
  "only_spaces s s1 ps \<Longrightarrow> only_spaces s1 s2 qs \<Longrightarrow> set ps \<union> set qs \<subseteq> set rs \<Longrightarrow> only_spaces s s2 rs"
  using only_spaces_id [of s s1 ps] unfolding only_spaces_def by (auto simp: subset_iff image_iff)

lemma only_spaces_mono: "only_spaces s s' ps \<Longrightarrow> set ps \<subseteq> set qs \<Longrightarrow> only_spaces s s' qs"
  unfolding only_spaces_def using image_mono [of "set ps" "set qs" "mm_id s"] by blast

lemma only_spaces_upd: "p \<in> set qs \<Longrightarrow> only_spaces s (s\<lparr>mms := (mms s)(mm_id s p \<mapsto> m)\<rparr>) qs"
  by (auto simp: only_spaces_def)

lemma reserved_errno:
  assumes "errno_val r" "page_aligned len" "len \<noteq> 0" "reserved r len m m'"
  shows "reserved a len m m'"
proof -
  have "put_range f r (r + len) y = f" for f y
    using errno_wrap [OF assms(1-3)] by (auto simp: put_range_def intro!: ext)
  then show ?thesis using assms(4) by (auto simp: reserved_def)
qed

lemma region_mapped_range:
  assumes "region_mapped a e f m (a, m')" "a \<le> x" "x < e"
  shows "flags_at (mm_mmap m') x = Some (core_flags f)"
  using assms by (simp add: region_mapped_def put_range_def)

lemma group_spaces_mm:
  assumes "group_spaces s arb cs" "p \<in> set (arb # cs)"
  obtains m where "mm_of s p = Some m" "vmas_ok (mm_mmap m)"
  using assms unfolding group_spaces_def ready_def by blast

lemma group_spaces_inj:
  assumes "group_spaces s arb cs" "p \<in> set (arb # cs)" "q \<in> set (arb # cs)"
  shows "mm_id s p = mm_id s q \<longleftrightarrow> p = q"
proof -
  have "inj_on (mm_id s) (set (arb # cs))"
    using assms(1) unfolding group_spaces_def ready_def distinct_map by blast
  then show ?thesis using assms(2,3) by (meson inj_on_eq_iff)
qed

lemma group_spaces_upd:
  assumes g: "group_spaces s arb cs" "c \<in> set (arb # cs)" and ok: "vmas_ok (mm_mmap m)"
  shows "group_spaces (s\<lparr>mms := (mms s)(mm_id s c \<mapsto> m)\<rparr>) arb cs"
proof (rule group_spaces_keeps [OF g(1) only_spaces_upd [of c "[c]"]])
  show "\<forall>p \<in> set (arb # cs). \<exists>n. mm_of (s\<lparr>mms := (mms s)(mm_id s c \<mapsto> m)\<rparr>) p = Some n \<and> vmas_ok (mm_mmap n)"
  proof
    fix p assume p: "p \<in> set (arb # cs)"
    obtain n where "mm_of s p = Some n" "vmas_ok (mm_mmap n)" by (rule group_spaces_mm [OF g(1) p])
    then show "\<exists>n. mm_of (s\<lparr>mms := (mms s)(mm_id s c \<mapsto> m)\<rparr>) p = Some n \<and> vmas_ok (mm_mmap n)"
      using mm_of_upd [of s p n] ok by auto
  qed
qed simp

lemma only_spaces_shrink:
  assumes o: "only_spaces s s' (p # qs)" and m: "mm_of s' p = mm_of s p" "mm_of s p \<noteq> None"
  shows "only_spaces s s' qs"
proof -
  have t: "tasks s' = tasks s" using o by (simp add: only_spaces_def)
  have a: "mms s' (mm_id s p) = mms s (mm_id s p)" using m t by (cases "tasks s p") (auto simp: mm_of_def mm_id_def)
  have "mms s' i = mms s i" if "i \<notin> mm_id s ` set qs" for i
    using o a that by (cases "i = mm_id s p") (auto simp: only_spaces_def)
  then show ?thesis using o by (simp add: only_spaces_def)
qed

text \<open>The loop of \<^verbatim>\<open>sys_absys_mmap\<close> over the siblings of the target.\<close>

lemma mmap_others:
  assumes g: "group_spaces s arb cs" "c \<in> set cs"
    and a: "user_range a len \<or> errno_val a \<and> page_aligned len \<and> len \<noteq> 0"
    and free: "\<forall>p \<in> set cs - {c}. \<forall>m. mm_of s p = Some m \<longrightarrow> plain_def_flags m \<and> (user_range a len \<longrightarrow> unmapped (mm_mmap m) a (a + len))"
  obtains x s' where "for_ab_tasks c (mmap_other env arb c a len prot AB_MAP_FLAGS pgoff) s = ret (x, s')"
    "group_spaces s' arb cs" "only_spaces s s' cs" "mm_of s' c = mm_of s c"
    "\<forall>p \<in> set cs - {c}. \<exists>m m'. mm_of s p = Some m \<and> mm_of s' p = Some m' \<and> reserved a len m m'"
proof -
  have ac: "arb \<noteq> c" "arb \<notin> set cs" using group_spacesD(3) [OF g(1)] g(2) by auto
  obtain xs where xs: "ring (tasks s) c xs" "set (c # xs) = set (arb # cs)" "distinct (map (mm_id s) (c # xs))"
    using group_spaces_from [OF g(1), of c] g(2) by auto
  have "sibling_ready arb c a len p m" if "p \<in> set xs" "mm_of s p = Some m" "vmas_ok (mm_mmap m)" for p m
    using that a free xs(2) unfolding sibling_ready_def by auto
  then have "ready (sibling_ready arb c a len) s xs"
    using xs(2,3) group_spaces_mm [OF g(1)] unfolding ready_def by (metis distinct.simps(2) list.set_intros(2) list.simps(9))
  from ms.foreach_spaces [OF this] obtain y s' where
    l: "foreach (mmap_other env arb c a len prot AB_MAP_FLAGS pgoff) xs s = ret (y, s')" and o: "only_spaces s s' xs"
    and v: "\<forall>p \<in> set xs. visited (\<lambda>_ m m'. if p = arb \<or> p = c then m' = m else reserved a len m m') s s' y p" by blast
  have mc: "mm_of s' c = mm_of s c" using only_spaces_other [OF o, of c] xs(3) by simp
  have sib: "\<exists>m m'. mm_of s p = Some m \<and> mm_of s' p = Some m' \<and> (if p = arb then m' = m else reserved a len m m')"
    if p: "p \<in> set (arb # cs)" "p \<noteq> c" for p
  proof -
    obtain m where m: "mm_of s p = Some m" "vmas_ok (mm_mmap m)" by (rule group_spaces_mm [OF g(1) p(1)])
    have "p \<in> set xs" using p xs(2) by auto
    then show ?thesis using bspec [OF v, of p] m reserved_refl [OF m(2)] p(2) by (auto simp: visited_def split: if_splits)
  qed
  have o2: "only_spaces s s' cs"
  proof (rule only_spaces_shrink)
    show "only_spaces s s' (arb # cs)" by (rule only_spaces_mono [OF o]) (use xs(2) in auto)
  qed (use sib [of arb] ac in auto)
  have "\<exists>m. mm_of s' p = Some m \<and> vmas_ok (mm_mmap m)" if p: "p \<in> set (arb # cs)" for p
  proof -
    obtain m where "mm_of s p = Some m" "vmas_ok (mm_mmap m)" by (rule group_spaces_mm [OF g(1) p])
    then show ?thesis using sib [OF p] mc by (cases "p = c"; cases "p = arb") (auto simp: reserved_def)
  qed
  then have "group_spaces s' arb cs" using group_spaces_keeps [OF g(1) o2] by blast
  moreover have "\<forall>p \<in> set cs - {c}. \<exists>m m'. mm_of s p = Some m \<and> mm_of s' p = Some m' \<and> reserved a len m m'"
    using sib ac(2) by (metis Diff_iff insertCI list.set_intros(2) singletonI)
  ultimately show thesis
    using that l for_ab_tasks_ring [OF xs(1) ms.next_kept] o2 mc by simp
qed

text \<open>What the call needs: the range is free in the address spaces of the siblings.\<close>

definition mmap_ready :: "kern \<Rightarrow> pid list \<Rightarrow> pid \<Rightarrow> addr \<Rightarrow> word32 \<Rightarrow> bool" where
  "mmap_ready s cs c a len \<longleftrightarrow> user_range a len \<and>
     (\<forall>p \<in> set cs. \<forall>m. mm_of s p = Some m \<longrightarrow> plain_def_flags m \<and> (p = c \<or> unmapped (mm_mmap m) a (a + len)))"

lemma absys_mmap_run:
  assumes g: "group_spaces s arb cs" "c \<in> set cs" and t: "tasks s c = Some t"
    and u: "mmap_ready s cs c a len" and env: "hooks_ok env" "fixed_area env"
  obtains r s' m m' where "sys_absys_mmap env arb c a len prot AB_MAP_FLAGS pgoff s = ret (r, s')"
    "group_spaces s' arb cs" "only_spaces s s' cs" "mm_of s c = Some m" "plain_def_flags m" "mm_of s' c = Some m'"
    "region_mapped a (a + len) (ab_map_flags (implied_exec (tk_personality t) prot) AB_MAP_FLAGS m) m (r, m')"
    "\<forall>p \<in> set cs - {c}. \<exists>m m'. mm_of s p = Some m \<and> mm_of s' p = Some m' \<and> reserved a len m m'"
proof -
  have free: "\<forall>p \<in> set cs. \<forall>m. mm_of s p = Some m \<longrightarrow> plain_def_flags m \<and> (p = c \<or> unmapped (mm_mmap m) a (a + len))" and u: "user_range a len"
    using u by (simp_all add: mmap_ready_def)
  note d = group_spacesD [OF g(1)] and ul = user_range_len [OF u] and ur = user_rangeD [OF u]
  obtain m where m: "mm_of s c = Some m" "vmas_ok (mm_mmap m)" using group_spaces_mm [OF g(1), of c] g(2) by auto
  have df: "plain_def_flags m" using free g(2) m(1) by blast
  obtain r m1 where run: "do_absys_mmap_pgoff env (tk_personality t) a len prot AB_MAP_FLAGS pgoff m = ret (r, m1)"
    and rm: "region_mapped a (a + len) (ab_map_flags (implied_exec (tk_personality t) prot) AB_MAP_FLAGS m) m (r, m1)"
    by (rule mmap_target [OF m(2) u env df])
  define s1 where "s1 = s\<lparr>mms := (mms s)(mm_id s c \<mapsto> m1)\<rparr>"
  have r: "r = a \<or> errno_val r" using rm by (simp add: region_mapped_def split: if_splits)
  have o1: "only_spaces s s1 [c]" by (simp add: s1_def only_spaces_upd)
  have c1: "mm_of s1 c = Some m1" using mm_of_upd [OF m(1)] by (simp add: s1_def)
  have other: "mm_of s1 p = mm_of s p" if "p \<in> set (arb # cs)" "p \<noteq> c" for p
    by (rule only_spaces_other [OF o1]) (use group_spaces_inj [OF g(1) that(1), of c] that g(2) in auto)
  have g1: "group_spaces s1 arb cs"
    unfolding s1_def by (rule group_spaces_upd [OF g(1)]) (use g(2) rm in \<open>simp_all add: region_mapped_def\<close>)
  have ra: "user_range r len \<or> errno_val r \<and> page_aligned len \<and> len \<noteq> 0" using r u ur(4) ul(1) by auto
  have "plain_def_flags n \<and> (user_range r len \<longrightarrow> unmapped (mm_mmap n) r (r + len))"
    if "p \<in> set cs - {c}" "mm_of s1 p = Some n" for p n
    using free r that other [of p] user_rangeD(6) [of r len] by auto
  then obtain x s' where s': "for_ab_tasks c (mmap_other env arb c r len prot AB_MAP_FLAGS pgoff) s1 = ret (x, s')"
    "group_spaces s' arb cs" "only_spaces s1 s' cs" "mm_of s' c = mm_of s1 c"
    "\<forall>p \<in> set cs - {c}. \<exists>m m'. mm_of s1 p = Some m \<and> mm_of s' p = Some m' \<and> reserved r len m m'"
    using mmap_others [OF g1 g(2) ra, of env prot pgoff] by blast
  have "sys_absys_mmap env arb c a len prot AB_MAP_FLAGS pgoff s = ret (r, s')"
    unfolding sys_absys_mmap_def Let_def ab_map_bits(8)
    using controls_arbiter [OF d(1) g(2)] t run s'(1)
    by (simp add: ab_map_bits(7) sb_def on_mm_run [OF m(1)] s1_def)
  moreover have "only_spaces s s' cs" by (rule only_spaces_trans [OF o1 s'(3)]) (use g(2) in auto)
  moreover have "\<exists>m m'. mm_of s p = Some m \<and> mm_of s' p = Some m' \<and> reserved a len m m'" if p: "p \<in> set cs - {c}" for p
  proof -
    obtain n n' where n: "mm_of s1 p = Some n" "mm_of s' p = Some n'" "reserved r len n n'" using bspec [OF s'(5) p] by blast
    have "reserved a len n n'"
    proof (cases "r = a")
      case False
      then show ?thesis using r reserved_errno [OF _ ur(4) ul(1) n(3)] by blast
    qed (use n(3) in simp)
    moreover have "mm_of s p = Some n" using n(1) other [of p] p by simp
    ultimately show ?thesis using n(2) by blast
  qed
  ultimately show thesis using that [OF _ s'(2) _ m(1) df _ rm] s'(4) c1 by auto
qed



subsection \<open>A hole behind a VMA\<close>

lemma sibling_hole:
  assumes ok: "vmas_ok (mm_mmap m)" and u: "user_range a len" and d: "plain_def_flags m"
    and v: "v \<in> set (mm_mmap m)" "vm_start v \<le> a" "a < vm_end v" "vm_end v < a + len"
    and hole: "unmapped (mm_mmap m) (vm_end v) (a + len)" and hk: "\<forall>q p f. ke_file_mmap env q p f a False = 0"
  shows "do_absys_vma_propagate env personality a len prot AB_MAP_FLAGS pgoff m = fail Assert_failed"
proof -
  note ul = user_range_len [OF u] and t = sibling_bits [OF d, of personality prot]
  have fv: "find_vma (mm_mmap m) a = Some v" by (rule find_vma_covering [OF ok v(1-3)])
  then have i1: "find_vma_intersection (mm_mmap m) a (a + len) = Some v"
    using v by (simp add: find_vma_intersection_def)
  have i2: "find_vma_intersection (mm_mmap m) (vm_end v) (a + len) = None"
    by (rule unmapped_intersection [OF ok hole v(4)])
  let ?f = "sibling_flags personality prot m"
  have l2: "propagate_loop env a len AB_MAP_FLAGS ?f (pages a) (vm_end v) m = ret (vm_end v, m)"
    by (subst propagate_loop.simps) (simp add: i2)
  have l1: "propagate_loop env a len AB_MAP_FLAGS ?f (pages a) a m = ret (vm_end v, m)"
    by (subst propagate_loop.simps) (use i1 v l2 in \<open>simp add: leD Let_def\<close>)
  obtain pre rest where fp: "find_vma_prev (mm_mmap m) a = (pre, rest)" by (cases "find_vma_prev (mm_mmap m) a")
  then obtain post where "rest = v # post" using fv by (cases rest) (simp_all add: find_vma_prev_find)
  moreover have "vm_start v < a + len" using v(2,4) v(3) by (meson le_less_trans less_trans)
  ultimately have "propagate_region env a len AB_MAP_FLAGS ?f (pages a) m = fail Assert_failed"
    using fp by (simp add: propagate_region_def sb_def)
  then show ?thesis
    unfolding do_absys_vma_propagate_def Let_def sibling_flags_def [symmetric]
    using ul(1) t(1) hk l1 v(4) by (simp add: ab_map_bits anon_map_type_def leD)
qed

text \<open>
  Property C39.  When the next sibling in the ring has a VMA that covers the start of the range and
  nothing behind it, \<^verbatim>\<open>absys_mmap\<close> ends in the assertion of \<^verbatim>\<open>propagate_region\<close> that is marked as
  never reached: the loop over the VMAs stops at the hole, and the whole range is mapped
  again from its start.
\<close>

theorem absys_mmap_hole_bug:
  assumes g: "group_spaces s arb (xs @ c # q # ys)" and u: "user_range a len" and d: "plain_def_flags m"
    and c: "tasks s c = Some t" "mm_of s c = Some mc" "do_absys_mmap_pgoff env (tk_personality t) a len prot AB_MAP_FLAGS pgoff mc = ret (a, mc')"
    and m: "mm_of s q = Some m" "v \<in> set (mm_mmap m)" "vm_start v \<le> a" "a < vm_end v" "vm_end v < a + len"
    and hole: "unmapped (mm_mmap m) (vm_end v) (a + len)" and hk: "\<forall>q p f. ke_file_mmap env q p f a False = 0"
  shows "sys_absys_mmap env arb c a len prot AB_MAP_FLAGS pgoff s = fail Assert_failed"
proof -
  note dd = group_spacesD [OF g(1)]
  have ok: "vmas_ok (mm_mmap m)" using group_spaces_mm [OF g(1), of q] m(1) by auto
  have ne: "q \<noteq> c" "q \<noteq> arb" using dd(2) by (auto simp: ring_def)
  define s1 where "s1 = s\<lparr>mms := (mms s)(mm_id s c \<mapsto> mc')\<rparr>"
  have q1: "mm_of s1 q = Some m"
    using mm_of_upd [OF m(1), of "mm_id s c" mc'] group_spaces_inj [OF g(1), of q c] ne m(1) by (simp add: s1_def)
  obtain tq where tq: "tasks s1 q = Some tq" using mm_of_task [OF q1] by blast
  have "ring (tasks s1) c ((q # ys) @ arb # xs)" using ring_rotate [OF dd(2)] by (simp add: s1_def)
  then have "for_ab_tasks c (mmap_other env arb c a len prot AB_MAP_FLAGS pgoff) s1 =
      foreach (mmap_other env arb c a len prot AB_MAP_FLAGS pgoff) ((q # ys) @ arb # xs) s1"
    by (rule for_ab_tasks_ring [OF _ ms.next_kept])
  also have "\<dots> = fail Assert_failed"
    using ne tq sibling_hole [OF ok u d m(2-5) hole hk, of "tk_personality tq" prot pgoff]
    by (simp add: mmap_other_def sb_def on_mm_run [OF q1])
  finally show ?thesis
    unfolding sys_absys_mmap_def Let_def ab_map_bits(8)
    using controls_arbiter [OF dd(1), of c] c
    by (simp add: ab_map_bits(7) sb_def on_mm_run [OF c(2)] s1_def)
qed

lemma mmap_example:
  "\<exists>m'. do_absys_mmap_pgoff env_example 0 0x90000000 0x8000 3 AB_MAP_FLAGS 0 (mm_example []) = ret (0x90000000, m')"
proof -
  have mb: "munmap_back env_example 0x90000000 0x8000 (mm_example []) = ret (0, mm_example [])"
    by (rule munmap_back_gap) (simp_all add: mm_example_def unmapped_def)
  have al: "PAGE_ALIGN 0x8000 = 0x8000" "pages 0x8000 = 8" by (simp_all add: PAGE_ALIGN_def PAGE_SIZE_def PAGE_MASK_def pages_def)
  have pr: "implied_exec 0 3 = 3" by (simp add: implied_exec_def READ_IMPLIES_EXEC_def)
  have ar: "k_get_unmapped_area env_example 0x90000000 0x8000 0 AB_MAP_FLAGS = 0x90000000"
    by (simp add: k_get_unmapped_area_def env_example_def TASK_SIZE_def PAGE_MASK_def)
  have fl: "ab_map_flags 3 AB_MAP_FLAGS (mm_example []) = 0x2000007B"
    by (simp add: ab_map_flags_def ab_map_bits mm_example_def calc_vm_prot_bits_def calc_vm_trans_def PROT_EXEC_def VM_READ_def
        VM_WRITE_def VM_EXEC_def VM_MAYREAD_def VM_MAYWRITE_def VM_MAYEXEC_def VM_AB_CONTROL_def VM_SAO_def VM_SHARED_def)
  have "\<exists>m'. absys_mmap_region env_example 0x90000000 0x8000 AB_MAP_FLAGS 0x2000007B 0x90000 (mm_example []) = ret (0x90000000, m')"
    unfolding absys_mmap_region_def
    by (simp add: sb_def mb al may_expand_vm_def link_region_def reserve_flags_def ab_map_bits accountable_mapping_def account_region_def
       find_vma_prev_def vma_merge_def merge_nexts_def joins_next_def Let_def pages_def mask_eq_exp_minus_1
       VM_NORESERVE_def VM_SHARED_def VM_WRITE_def VM_LOCKED_def VM_AB_CONTROL_def VM_SAO_def)
  then show ?thesis
    unfolding do_absys_mmap_pgoff_def Let_def al pr ar fl
    by (simp add: ab_map_bits ar anon_map_type_def VM_LOCKED_def TASK_SIZE_def PAGE_MASK_def pages_def)
qed

theorem absys_mmap_hole_bug_witness:
  "sys_absys_mmap env_example 1 8 0x90000000 0x8000 3 AB_MAP_FLAGS 0
     (group_example\<lparr>mms := (mms group_example)(0x20 \<mapsto> mm_example [])\<rparr>) = fail Assert_failed"
proof -
  let ?s = "group_example\<lparr>mms := (mms group_example)(mm_id group_example 8 \<mapsto> mm_example [])\<rparr>"
  have id: "mm_id group_example 8 = 0x20" by (simp add: mm_id_def group_example_facts task_example_def)
  have g: "group_spaces ?s 1 ([] @ 8 # 7 # [])" using group_spaces_upd [OF group_example_spaces, of 8 "mm_example []"] by simp
  have u: "user_range 0x90000000 0x8000" by (simp add: user_range_def page_aligned_def PAGE_MASK_def TASK_SIZE_def)
  have d: "plain_def_flags (mm_example [vma_example])" by (simp add: plain_def_flags_def)
  obtain m' where c: "do_absys_mmap_pgoff env_example (tk_personality (task_example 7 2 0x20)) 0x90000000 0x8000 3 AB_MAP_FLAGS 0
      (mm_example []) = ret (0x90000000, m')"
    using mmap_example by (auto simp: task_example_def)
  have m: "tasks ?s 8 = Some (task_example 7 2 0x20)" "mm_of ?s 8 = Some (mm_example [])" "mm_of ?s 7 = Some (mm_example [vma_example])"
    using mm_of_upd [OF group_example_facts(6)] mm_of_upd [OF group_example_facts(7)]
    by (simp_all add: group_example_facts id) (simp add: mm_id_def group_example_facts task_example_def)
  show ?thesis
    unfolding id [symmetric]
    by (rule absys_mmap_hole_bug [OF g u d m(1,2) c m(3), of vma_example])
      (simp_all add: vma_example_def unmapped_def leD)
qed

end
