(* ===== verification/Kernel_Safety.thy ===== *)
theory Kernel_Safety
  imports Kernel_Mapping
begin

text \<open>
  The calls of the kernel interface on a well-formed group: they return, without a fault of
  the kernel, and leave the group well-formed.  The locale \<open>safe_loop\<close> is the contract of a
  loop over the ring whose body keeps every address space sorted.
\<close>

subsection \<open>Every call keeps the group well-formed\<close>

text \<open>
  A call is safe when it returns, keeps the address spaces of the group sorted and touches no other;
  and where the page tables agree with the areas they still do.
\<close>

definition kept :: "mm \<Rightarrow> mm \<Rightarrow> bool" where
  "kept m m' \<longleftrightarrow> vmas_ok (mm_mmap m') \<and> (space_ok m \<longrightarrow> space_ok m')"

definition tables_ok :: "kern \<Rightarrow> pid \<Rightarrow> pid list \<Rightarrow> bool" where
  "tables_ok s arb cs \<longleftrightarrow> (\<forall>p \<in> set (arb # cs). \<forall>m. mm_of s p = Some m \<longrightarrow> space_ok m)"

definition safe_call :: "pid \<Rightarrow> pid list \<Rightarrow> 'a kcall \<Rightarrow> bool" where
  "safe_call arb cs f \<longleftrightarrow> (\<forall>s. group_spaces s arb cs \<longrightarrow> (\<exists>r s'. f s = ret (r, s') \<and> group_spaces s' arb cs \<and>
     (tables_ok s arb cs \<longrightarrow> tables_ok s' arb cs) \<and> only_spaces s s' (arb # cs)))"

lemma kept_refl: "vmas_ok (mm_mmap m) \<Longrightarrow> kept m m"
  by (simp add: kept_def)

lemma kept_trans: "kept m m1 \<Longrightarrow> kept m1 m2 \<Longrightarrow> kept m m2"
  by (simp add: kept_def)

lemma space_kept_kept: "space_kept m m' \<Longrightarrow> vmas_ok (mm_mmap m') \<Longrightarrow> kept m m'"
  by (simp add: kept_def space_ok_kept)

lemma do_munmap_kept: "vmas_ok (mm_mmap m) \<Longrightarrow> do_munmap env a len m = (r, m') \<Longrightarrow> kept m m'"
  using space_kept_kept [OF do_munmap_space_kept do_munmap_keeps(1)] by blast

lemma tables_ok_keeps:
  assumes "tables_ok s arb cs" "\<forall>p \<in> set (arb # cs). \<exists>m m'. mm_of s p = Some m \<and> mm_of s' p = Some m' \<and> kept m m'"
  shows "tables_ok s' arb cs"
  using assms unfolding tables_ok_def kept_def by fastforce

text \<open>A freed VMA still holds the end it had.\<close>

definition stale_ends :: "kenv \<Rightarrow> bool" where
  "stale_ends env \<longleftrightarrow> (\<forall>v. ke_freed_vm_end env v = vm_end v)"

lemma intersection_end: "find_vma_intersection xs tmp e = Some v \<Longrightarrow> tmp < vm_end v"
  by (auto simp: find_vma_intersection_def find_vma_def find_Some_iff split: option.splits if_splits)

lemma munmap_sibling_total:
  assumes "stale_ends env"
  shows "vmas_ok (mm_mmap m) \<Longrightarrow> \<exists>r m'. munmap_sibling env a len tmp m = ret (r, m') \<and> kept m m'"
proof (induction "4294967296 - unat tmp" arbitrary: tmp m rule: less_induct)
  case less
  show ?case
  proof (cases "find_vma_intersection (mm_mmap m) tmp (a + len)")
    case None
    then show ?thesis using kept_refl [OF less.prems] by (subst munmap_sibling.simps) auto
  next
    case (Some v)
    have lt: "tmp < vm_end v" by (rule intersection_end [OF Some])
    define gone where "gone \<longleftrightarrow> vm_start v < a + len \<and> is_abt_vma v"
    obtain r m' where d: "(if gone then do_munmap env (vm_start v) (vm_end v - vm_start v) m else (0, m)) = (r, m')"
      by (cases "if gone then do_munmap env (vm_start v) (vm_end v - vm_start v) m else (0, m)")
    have k: "kept m m'" using d less.prems kept_refl do_munmap_kept by (auto split: if_splits)
    then have ok: "vmas_ok (mm_mmap m')" by (simp add: kept_def)
    have run: "munmap_sibling env a len tmp m =
        (if vm_end v \<ge> a + len then ret (r, m') else munmap_sibling env a len (vm_end v) m')"
      by (subst munmap_sibling.simps) (use Some d assms in \<open>simp add: gone_def [symmetric] stale_ends_def\<close>)
    have "unat (vm_end v) < 4294967296" using unsigned_less [of "vm_end v"] by simp
    then have "4294967296 - unat (vm_end v) < 4294967296 - unat tmp" using lt by (simp add: word_less_nat_alt)
    from less.hyps [OF this ok] show ?thesis using run k kept_trans [OF k] by auto
  qed
qed

lemma link_region_ok:
  assumes "vmas_ok (mm_mmap m)" "unmapped (mm_mmap m) a (a + len)" "user_range a len" "vmflags AND VM_AB_CONTROL \<noteq> 0"
    "plain_flags vmflags m"
  obtains r ys where "link_region env a len vmflags pgoff m = ret (r, m\<lparr>mm_mmap := ys\<rparr>)" "vmas_ok ys"
    "\<And>n. space_kept m (m\<lparr>mm_mmap := ys, mm_total_vm := n\<rparr>)"
proof -
  obtain r ys where l: "link_region env a len vmflags pgoff m = ret (r, m\<lparr>mm_mmap := ys\<rparr>)" "vmas_ok ys"
    "r = 0 \<longrightarrow> covered ys a (a + len) \<and> flags_at ys = put_range (flags_at (mm_mmap m)) a (a + len) (Some (core_flags vmflags))"
    "r \<noteq> 0 \<longrightarrow> r = - ENOMEM \<and> ys = mm_mmap m"
    by (rule link_region_gap [OF assms(1,2) user_rangeD(1,2,3) [OF assms(3)] assms(4)])
  have "space_kept m (m\<lparr>mm_mmap := ys, mm_total_vm := n\<rparr>)" for n
    using l(3,4) space_kept_put [OF space_kept_refl assms(2,5)] by (cases "r = 0") (auto simp: space_kept_def)
  then show thesis using that l(1,2) by blast
qed

lemma brk_region_total:
  assumes ok: "vmas_ok (mm_mmap m)" and a: "page_aligned a" and f: "flags_of m AND VM_AB_CONTROL \<noteq> 0" "plain_flags (flags_of m) m"
  shows "\<exists>r m'. brk_region env flags_of a len m = ret (r, m') \<and> kept m m'"
proof (cases "PAGE_ALIGN len = 0 \<or> a + PAGE_ALIGN len > TASK_SIZE \<or> a + PAGE_ALIGN len < a \<or>
    ke_file_mmap env 0 0 0 a True \<noteq> 0 \<or> mm_def_flags m AND VM_LOCKED \<noteq> 0 \<and> mlock_refused env (PAGE_ALIGN len) m")
  case True
  then show ?thesis using kept_refl [OF ok] by (auto simp: brk_region_def Let_def)
next
  case False
  let ?l = "PAGE_ALIGN len"
  have "a \<noteq> a + ?l" "\<not> a + ?l < a" using False by simp_all
  then have "a < a + ?l" by (meson not_less_iff_gr_or_eq)
  then have u: "user_range a ?l" using False a by (simp add: user_range_def not_less)
  obtain r m1 where b: "munmap_back env a ?l m = ret (r, m1)" "vmas_ok (mm_mmap m1)" "space_kept m m1"
    "r = 0 \<longrightarrow> flags_at (mm_mmap m1) = put_range (flags_at (mm_mmap m)) a (a + ?l) None"
    by (rule munmap_back_maps [OF ok u])
  have k1: "kept m m1" by (rule space_kept_kept [OF b(3,2)])
  show ?thesis
  proof (cases "r = 0")
    case z: True
    have "plain_flags (flags_of m) m1" using f(2) b(3) by (simp add: plain_flags_def space_kept_def)
    then obtain q ys where l: "link_region env a ?l (flags_of m) (pages a) m1 = ret (q, m1\<lparr>mm_mmap := ys\<rparr>)" "vmas_ok ys"
      and k: "\<And>n. space_kept m1 (m1\<lparr>mm_mmap := ys, mm_total_vm := n\<rparr>)"
      by (rule link_region_ok [OF b(2) put_none_unmapped u f(1), rotated]) (use b(4) z in auto)
    have "kept m (m1\<lparr>mm_mmap := ys\<rparr>)" "kept m (m1\<lparr>mm_mmap := ys, mm_total_vm := n\<rparr>)"
      "kept m (m1\<lparr>mm_mmap := ys, mm_total_vm := n, mm_locked_vm := n'\<rparr>)" for n n'
      using space_kept_trans [OF b(3) k] l(2) by (auto intro!: space_kept_kept simp: space_kept_def)
    then show ?thesis
      using False b(1) z l(1) k1 unfolding brk_region_def Let_def by (auto simp: sb_def swhen_def)
  next
    case z: False
    then show ?thesis using False b(1) k1 unfolding brk_region_def Let_def by (auto simp: sb_def)
  qed
qed

lemma safe_on_mm:
  assumes "c \<in> set (arb # cs)" "\<And>m. vmas_ok (mm_mmap m) \<Longrightarrow> \<exists>r m'. f m = ret (r, m') \<and> kept m m'"
  shows "safe_call arb cs (on_mm c f)"
  unfolding safe_call_def
proof (intro allI impI)
  fix s assume g: "group_spaces s arb cs"
  obtain m where m: "mm_of s c = Some m" "vmas_ok (mm_mmap m)" by (rule group_spaces_mm [OF g assms(1)])
  then obtain r m' where f: "f m = ret (r, m')" "kept m m'" using assms(2) by blast
  let ?s = "s\<lparr>mms := (mms s)(mm_id s c \<mapsto> m')\<rparr>"
  have "group_spaces ?s arb cs" by (rule group_spaces_upd [OF g assms(1)]) (use f(2) in \<open>simp add: kept_def\<close>)
  moreover have "tables_ok ?s arb cs" if t: "tables_ok s arb cs"
    unfolding tables_ok_def
  proof (intro ballI allI impI)
    fix p n assume p: "p \<in> set (arb # cs)" "mm_of ?s p = Some n"
    obtain k where "mm_of s p = Some k" by (rule group_spaces_mm [OF g p(1)])
    then show "space_ok n"
      using p mm_of_upd [of s p k "mm_id s c" m'] t assms(1) m(1) f(2) by (auto simp: tables_ok_def kept_def split: if_splits)
  qed
  ultimately show "\<exists>r s'. on_mm c f s = ret (r, s') \<and> group_spaces s' arb cs \<and> (tables_ok s arb cs \<longrightarrow> tables_ok s' arb cs) \<and> only_spaces s s' (arb # cs)"
    using f(1) only_spaces_upd [OF assms(1), of s m'] by (simp add: on_mm_run [OF m(1)])
qed

lemma safe_sb:
  assumes "safe_call arb cs f" "\<And>x. safe_call arb cs (g x)"
  shows "safe_call arb cs (sb f g)"
  unfolding safe_call_def
proof (intro allI impI)
  fix s assume "group_spaces s arb cs"
  then obtain x s1 where x: "f s = ret (x, s1)" "group_spaces s1 arb cs" "tables_ok s arb cs \<longrightarrow> tables_ok s1 arb cs" "only_spaces s s1 (arb # cs)"
    using assms(1) unfolding safe_call_def by blast
  then obtain r s' where "g x s1 = ret (r, s')" "group_spaces s' arb cs" "tables_ok s1 arb cs \<longrightarrow> tables_ok s' arb cs" "only_spaces s1 s' (arb # cs)"
    using assms(2) unfolding safe_call_def by blast
  then show "\<exists>r s'. sb f g s = ret (r, s') \<and> group_spaces s' arb cs \<and> (tables_ok s arb cs \<longrightarrow> tables_ok s' arb cs) \<and> only_spaces s s' (arb # cs)"
    using x only_spaces_trans [of s s1 "arb # cs" s' "arb # cs" "arb # cs"] by (simp add: sb_def)
qed

lemma only_spaces_refl [simp]: "only_spaces s s qs"
  by (simp add: only_spaces_def)

lemma safe_sret [simp]: "safe_call arb cs (sret x)"
  by (simp add: safe_call_def)

lemma safe_get_task:
  assumes "c \<in> set (arb # cs)" shows "safe_call arb cs (get_task c)"
  unfolding safe_call_def
proof (intro allI impI)
  fix s assume g: "group_spaces s arb cs"
  then obtain t where "tasks s c = Some t" using ring_alive [OF group_spacesD(2) assms] by blast
  then show "\<exists>r s'. get_task c s = ret (r, s') \<and> group_spaces s' arb cs \<and> (tables_ok s arb cs \<longrightarrow> tables_ok s' arb cs) \<and> only_spaces s s' (arb # cs)"
    using g by simp
qed

lemma safe_controls:
  assumes "c \<in> set cs" shows "safe_call arb cs (controls arb c)"
  using controls_arbiter [OF group_spacesD(1) assms] unfolding safe_call_def by (metis only_spaces_refl)

lemma safe_if: "safe_call arb cs f \<Longrightarrow> safe_call arb cs g \<Longrightarrow> safe_call arb cs (if b then f else g)"
  by simp

lemma mprotect_mm_total:
  assumes "vmas_ok (mm_mmap m)"
  shows "\<exists>r m'. mprotect_mm env refuse personality start len prot m = ret (r, m') \<and> kept m m'"
proof -
  have "mprotect_outcome (\<lambda>_. True) m (mprotect_mm env refuse personality start len prot m)"
    by (rule mprotect_mm_keeps [OF assms]) simp_all
  then show ?thesis using assms unfolding mprotect_outcome_def reprotected_def kept_def space_ok_def by fastforce
qed

text \<open>A loop that needs no more of an address space than its order and keeps it runs to its end.\<close>

locale safe_loop = space_loop +
  assumes well: "vmas_ok (mm_mmap m) \<Longrightarrow> ok p m"
    and keeps: "vmas_ok (mm_mmap m) \<Longrightarrow> post p x m m' \<Longrightarrow> kept m m'"
begin

lemma safe:
  assumes h: "h \<in> set (arb # cs)"
  shows "safe_call arb cs (for_ab_tasks h body)"
  unfolding safe_call_def
proof (intro allI impI)
  fix s assume g: "group_spaces s arb cs"
  obtain xs where xs: "ring (tasks s) h xs" "set (h # xs) = set (arb # cs)" "distinct (map (mm_id s) (h # xs))"
    by (rule group_spaces_from [OF g h])
  have mm: "\<exists>m. mm_of s p = Some m \<and> vmas_ok (mm_mmap m)" if "p \<in> set (h # xs)" for p
    using group_spaces_mm [OF g, of p] that unfolding xs(2) by blast
  have "ready ok s xs"
    using xs(3) mm well unfolding ready_def by (metis distinct.simps(2) list.set_intros(2) list.simps(9))
  from foreach_spaces [OF this] obtain x s' where
    l: "foreach body xs s = ret (x, s')" "only_spaces s s' xs" "\<forall>p \<in> set xs. visited (post p) s s' x p" by blast
  have k: "\<exists>m m'. mm_of s p = Some m \<and> mm_of s' p = Some m' \<and> kept m m'" if p: "p \<in> set (arb # cs)" for p
  proof (cases "p = h")
    case True
    have "mm_of s' h = mm_of s h" using only_spaces_other [OF l(2), of h] xs(3) by simp
    then show ?thesis using True mm [of h] kept_refl by auto
  next
    case False
    then have "p \<in> set xs" using p unfolding xs(2) [symmetric] by simp
    then show ?thesis using bspec [OF l(3), of p] mm [of p] keeps kept_refl unfolding visited_def by fastforce
  qed
  then have "group_spaces s' arb cs" using group_spaces_keeps [OF g l(2)] unfolding kept_def by blast
  moreover have "only_spaces s s' (arb # cs)" by (rule only_spaces_mono [OF l(2)]) (use xs(2) in auto)
  ultimately show "\<exists>r s'. for_ab_tasks h body s = ret (r, s') \<and> group_spaces s' arb cs \<and> (tables_ok s arb cs \<longrightarrow> tables_ok s' arb cs) \<and> only_spaces s s' (arb # cs)"
    using for_ab_tasks_ring [OF xs(1) next_kept] l(1) tables_ok_keeps [of s arb cs s'] k by simp
qed

end

lemma brk_blocked_tasks: "brk_blocked arb old new p s = ret (x, s') \<Longrightarrow> tasks s' = tasks s"
  by (auto simp: brk_blocked_def sb_eq_ret split: if_splits dest!: on_mm_tasks)

interpretation sbb: safe_loop "brk_blocked arb old new" "\<lambda>_ m. vmas_ok (mm_mmap m)" "\<lambda>_ _ m m'. m' = m"
  by unfold_locales (auto simp: brk_blocked_one kept_refl dest: brk_blocked_tasks)

interpretation sbg: safe_loop "brk_grow env personality arb (PAGE_ALIGN b) new" "\<lambda>_ m. vmas_ok (mm_mmap m)"
    "\<lambda>_ _. kept"
proof
  fix s p m assume m: "mm_of s p = Some m" and ok: "vmas_ok (mm_mmap m)"
  have same: "\<exists>x m'. ret (y, s) = ret (x, s\<lparr>mms := (mms s)(mm_id s p \<mapsto> m')\<rparr>) \<and> kept m m'" for y :: "unit option"
    using m kept_refl [OF ok] by (intro exI [of _ y] exI [of _ m]) simp
  obtain r m' where b: "do_absys_brk env personality (PAGE_ALIGN b) (new - PAGE_ALIGN b) m = ret (r, m')" "kept m m'"
    using brk_region_total [OF ok, of "PAGE_ALIGN b" "brk_flags personality" env] brk_flags_controlled [of personality m] brk_flags_plain [of personality m]
    unfolding do_absys_brk_region by (meson page_aligned_PAGE_ALIGN)
  show "\<exists>x m'. brk_grow env personality arb (PAGE_ALIGN b) new p s = ret (x, s\<lparr>mms := (mms s)(mm_id s p \<mapsto> m')\<rparr>) \<and> kept m m'"
  proof (cases "p = arb \<or> find_vma_intersection (mm_mmap m) (PAGE_ALIGN b) (new + PAGE_SIZE) \<noteq> None")
    case True
    have "\<exists>y. brk_grow env personality arb (PAGE_ALIGN b) new p s = ret (y, s)"
      using True by (cases "p = arb") (simp_all add: brk_grow_def sb_def on_mm_gets [OF m])
    then show ?thesis using same by metis
  next
    case False
    have "brk_grow env personality arb (PAGE_ALIGN b) new p s =
        ret (if r \<noteq> PAGE_ALIGN b then Some () else None, s\<lparr>mms := (mms s)(mm_id s p \<mapsto> m')\<rparr>)"
      using False b(1) unfolding brk_grow_def by (simp add: sb_def on_mm_run [OF m] mm_of_same [OF m])
    then show ?thesis using b(2) by blast
  qed
qed (auto dest: brk_grow_tasks)

lemma munmap_other_tasks: "munmap_other env arb c a len p s = ret (x, s') \<Longrightarrow> tasks s' = tasks s"
  by (auto simp: munmap_other_def sb_eq_ret split: if_splits dest!: on_mm_tasks)

interpretation smu: safe_loop "munmap_other (env\<lparr>ke_freed_vm_end := vm_end\<rparr>) arb c a len" "\<lambda>_ m. vmas_ok (mm_mmap m)"
    "\<lambda>_ _. kept"
proof
  fix s p m assume m: "mm_of s p = Some m" and ok: "vmas_ok (mm_mmap m)"
  have "stale_ends (env\<lparr>ke_freed_vm_end := vm_end\<rparr>)" by (simp add: stale_ends_def)
  then obtain r m' where b: "munmap_sibling (env\<lparr>ke_freed_vm_end := vm_end\<rparr>) a len a m = ret (r, m')" "kept m m'"
    using munmap_sibling_total ok by blast
  show "\<exists>x m'. munmap_other (env\<lparr>ke_freed_vm_end := vm_end\<rparr>) arb c a len p s = ret (x, s\<lparr>mms := (mms s)(mm_id s p \<mapsto> m')\<rparr>) \<and> kept m m'"
  proof (cases "p = arb \<or> p = c")
    case True
    then show ?thesis using m kept_refl [OF ok] by (intro exI [of _ None] exI [of _ m]) (simp add: munmap_other_def)
  next
    case False
    then show ?thesis using b by (auto simp: munmap_other_def sb_def on_mm_run [OF m])
  qed
qed (auto dest: munmap_other_tasks)

lemma safe_mprotect: "c \<in> set cs \<Longrightarrow> safe_call arb cs (sys_absys_mprotect env arb c start len prot)"
  unfolding sys_absys_mprotect_def
  by (intro safe_sb safe_controls safe_if safe_sret safe_get_task safe_on_mm mprotect_mm_total) auto

lemma safe_user_mprotect: "p \<in> set (arb # cs) \<Longrightarrow> safe_call arb cs (sys_mprotect env p start len prot)"
  unfolding sys_mprotect_def by (intro safe_sb safe_get_task safe_on_mm mprotect_mm_total)

lemma safe_user_munmap: "p \<in> set (arb # cs) \<Longrightarrow> safe_call arb cs (sys_munmap env p a len)"
  unfolding sys_munmap_def using do_munmap_kept by (intro safe_on_mm) (metis surj_pair)+

lemma safe_brk: "c \<in> set cs \<Longrightarrow> safe_call arb cs (sys_absys_brk env arb c b)"
  unfolding sys_absys_brk_def Let_def
  by (intro safe_sb safe_controls safe_if safe_sret safe_get_task safe_on_mm sbb.safe sbg.safe)
    (auto simp: kept_def space_ok_def)

lemma safe_munmap:
  assumes "c \<in> set cs" "stale_ends env"
  shows "safe_call arb cs (sys_absys_munmap env arb c a len)"
proof -
  have env: "env\<lparr>ke_freed_vm_end := vm_end\<rparr> = env"
    using assms(2) by (simp add: stale_ends_def fun_eq_iff [symmetric])
  have loop: "safe_call arb cs (for_ab_tasks c (munmap_other env arb c a len))"
    using smu.safe [of c arb cs env] assms(1) unfolding env by simp
  have mu: "\<exists>r m'. ret (do_munmap env a len m) = ret (r, m') \<and> kept m m'" if "vmas_ok (mm_mmap m)" for m
    using do_munmap_kept [OF that] by (cases "do_munmap env a len m") auto
  show ?thesis
    unfolding sys_absys_munmap_def
    by (intro safe_sb safe_controls safe_if safe_sret safe_on_mm loop mu) (use assms(1) in auto)
qed


lemma group_example_tables: "tables_ok group_example 1 [8, 7]"
  by (auto simp: tables_ok_def group_example_facts mm_example_ok)


end
