(* ===== verification/Kernel_Machine.thy ===== *)
theory Kernel_Machine
  imports Kernel_Safety
begin

text \<open>
  A group as a state machine: the steps are the calls of the arbiter and what its threads do
  themselves, in any order.  The invariant is that the page tables of the members agree with
  their areas; and what the threads do leaves the access to controlled memory alone.
\<close>

section \<open>The steps\<close>

text \<open>What a thread can do by itself; the calls of the arbiter are refused when it makes them.\<close>

inductive thread_step :: "kenv \<Rightarrow> pid list \<Rightarrow> kern \<Rightarrow> kern \<Rightarrow> bool" for env cs where
  access: "c \<in> set cs \<Longrightarrow> user_access env c wrt x s = ret (r, s') \<Longrightarrow> thread_step env cs s s'"
| protect: "c \<in> set cs \<Longrightarrow> sys_mprotect env c a len prot s = ret (q, s') \<Longrightarrow> thread_step env cs s s'"
| unmap: "c \<in> set cs \<Longrightarrow> sys_munmap env c a len s = ret (q, s') \<Longrightarrow> thread_step env cs s s'"
| ab_mmap: "c \<in> set cs \<Longrightarrow> sys_absys_mmap env c p a len prot flags pgoff s = ret (q, s') \<Longrightarrow> thread_step env cs s s'"
| ab_brk: "c \<in> set cs \<Longrightarrow> sys_absys_brk env c p a s = ret (q, s') \<Longrightarrow> thread_step env cs s s'"
| ab_munmap: "c \<in> set cs \<Longrightarrow> sys_absys_munmap env c p a len s = ret (q, s') \<Longrightarrow> thread_step env cs s s'"
| ab_mprotect: "c \<in> set cs \<Longrightarrow> sys_absys_mprotect env c p a len prot s = ret (q, s') \<Longrightarrow> thread_step env cs s s'"

inductive kernel_step :: "kenv \<Rightarrow> pid \<Rightarrow> pid list \<Rightarrow> kern \<Rightarrow> kern \<Rightarrow> bool" for env arb cs where
  thread: "thread_step env cs s s' \<Longrightarrow> kernel_step env arb cs s s'"
| grant: "c \<in> set cs \<Longrightarrow> mmap_ready s cs c a len \<Longrightarrow> sys_absys_mmap env arb c a len prot AB_MAP_FLAGS pgoff s = ret (q, s') \<Longrightarrow>
    kernel_step env arb cs s s'"
| grow: "c \<in> set cs \<Longrightarrow> sys_absys_brk env arb c a s = ret (q, s') \<Longrightarrow> kernel_step env arb cs s s'"
| revoke: "c \<in> set cs \<Longrightarrow> sys_absys_munmap env arb c a len s = ret (q, s') \<Longrightarrow> kernel_step env arb cs s s'"
| change: "c \<in> set cs \<Longrightarrow> sys_absys_mprotect env arb c a len prot s = ret (q, s') \<Longrightarrow> kernel_step env arb cs s s'"

inductive_cases thread_stepE: "thread_step env cs s s'"
inductive_cases kernel_stepE: "kernel_step env arb cs s s'"

definition machine_ok :: "pid \<Rightarrow> pid list \<Rightarrow> kern \<Rightarrow> bool" where
  "machine_ok arb cs s \<longleftrightarrow> group_spaces s arb cs \<and> tables_ok s arb cs \<and>
     (\<forall>c \<in> set cs. \<exists>t. tasks s c = Some t \<and> is_special t) \<and> 0 \<notin> mm_id s ` set (arb # cs)"

lemma machine_member:
  assumes "machine_ok arb cs s" "c \<in> set cs"
  obtains t m ta where "tasks s c = Some t" "is_special t" "mm_of s c = Some m" "space_ok m" "tasks s arb = Some ta" "tk_mm ta \<noteq> 0"
proof -
  have g: "group_spaces s arb cs" and t: "tables_ok s arb cs" and a: "mm_id s arb \<noteq> 0" using assms(1) by (auto simp: machine_ok_def)
  obtain m where m: "mm_of s c = Some m" using group_spaces_mm [OF g, of c] assms(2) by auto
  obtain ma where "mm_of s arb = Some ma" using group_spaces_mm [OF g, of arb] by auto
  then obtain ta where "tasks s arb = Some ta" using mm_of_task by blast
  then show thesis using that m t a assms unfolding machine_ok_def tables_ok_def mm_id_def by auto
qed

text \<open>Changes of one address space.\<close>

definition members_still :: "pid list \<Rightarrow> kern \<Rightarrow> kern \<Rightarrow> bool" where
  "members_still cs s s' \<longleftrightarrow> (\<forall>c \<in> set cs. \<exists>m m'. mm_of s c = Some m \<and> mm_of s' c = Some m' \<and> still (mm_mmap m) (mm_mmap m'))"

lemma members_still_trans: "members_still cs s s1 \<Longrightarrow> members_still cs s1 s2 \<Longrightarrow> members_still cs s s2"
  unfolding members_still_def using still_trans by fastforce

lemma machine_refl: "machine_ok arb cs s \<Longrightarrow> members_still cs s s"
  unfolding members_still_def using still_refl by (metis machine_member)

lemma machine_member_upd:
  assumes ok: "machine_ok arb cs s" and c: "c \<in> set (arb # cs)" and m: "mm_of s c = Some m"
    and m': "space_ok m'" "still (mm_mmap m) (mm_mmap m')"
  defines "s' \<equiv> s\<lparr>mms := (mms s)(mm_id s c \<mapsto> m')\<rparr>"
  shows "machine_ok arb cs s' \<and> members_still cs s s' \<and> only_spaces s s' (arb # cs)"
proof -
  have g: "group_spaces s arb cs" and t: "tables_ok s arb cs" using ok by (simp_all add: machine_ok_def)
  have at: "\<exists>n n'. mm_of s p = Some n \<and> mm_of s' p = Some n' \<and> (n' = n \<and> space_ok n \<or> n = m \<and> n' = m')" if p: "p \<in> set (arb # cs)" for p
  proof -
    obtain n where n: "mm_of s p = Some n" by (rule group_spaces_mm [OF g p])
    moreover have "space_ok n" using t p n by (auto simp: tables_ok_def)
    ultimately show ?thesis
      using mm_of_upd [OF n, of "mm_id s c" m'] group_spaces_inj [OF g p, of c] c m by (auto simp: s'_def)
  qed
  have "group_spaces s' arb cs"
    unfolding s'_def by (rule group_spaces_upd [OF g]) (use c m'(1) in \<open>simp_all add: space_ok_def\<close>)
  moreover have "tables_ok s' arb cs" unfolding tables_ok_def using at m'(1) by fastforce
  moreover have "members_still cs s s'" unfolding members_still_def using at m'(2) still_refl by fastforce
  moreover have "only_spaces s s' (arb # cs)" unfolding s'_def by (rule only_spaces_upd [OF c])
  ultimately show ?thesis using ok by (simp add: machine_ok_def s'_def)
qed

lemma machine_upd:
  assumes "machine_ok arb cs s" "c \<in> set cs" "mm_of s c = Some m" "space_ok m'" "still (mm_mmap m) (mm_mmap m')"
  shows "machine_ok arb cs (s\<lparr>mms := (mms s)(mm_id s c \<mapsto> m')\<rparr>) \<and> members_still cs s (s\<lparr>mms := (mms s)(mm_id s c \<mapsto> m')\<rparr>) \<and>
    only_spaces s (s\<lparr>mms := (mms s)(mm_id s c \<mapsto> m')\<rparr>) (arb # cs)"
  using assms(2) by (intro machine_member_upd [OF assms(1) _ assms(3-5)]) simp

section \<open>Accesses\<close>

text \<open>
  What an access gives at any address: where nothing is mapped there is no page, and on a
  controlled page the flags decide.
\<close>

definition access_verdict :: "mm \<Rightarrow> addr \<Rightarrow> bool \<Rightarrow> fault option \<Rightarrow> bool" where
  "access_verdict m x wrt r \<longleftrightarrow> (case flags_at (mm_mmap m) x of
       None \<Rightarrow> r = Some Bad_area \<or> r = Some Fault_stock
     | Some f \<Rightarrow> f AND VM_AB_CONTROL \<noteq> 0 \<longrightarrow>
         (r = Some Bad_access \<longleftrightarrow> \<not> access_allowed f wrt) \<and> r \<noteq> Some Bad_area \<and> r \<noteq> Some Fault_stock \<and>
         (r = None \<longrightarrow> access_allowed f wrt))"

lemma find_vma_none_at:
  assumes "vmas_ok xs" "flags_at xs x = None" "find_vma xs x = Some v"
  shows "\<not> vm_start v \<le> x"
proof
  assume "vm_start v \<le> x"
  moreover have "v \<in> set xs" "x < vm_end v" using assms(3) by (auto simp: find_vma_def find_Some_iff)
  ultimately show False using flags_at_member [OF assms(1)] assms(2) by simp
qed

lemma user_access_run:
  assumes ok: "machine_ok arb cs s" and c: "c \<in> set cs" and m: "mm_of s c = Some m"
  obtains r m' where "user_access env c wrt x s = ret (r, s\<lparr>mms := (mms s)(mm_id s c \<mapsto> m')\<rparr>)"
    "space_ok m'" "mm_mmap m' = mm_mmap m" "access_verdict m x wrt r"
proof -
  note fin = that
  obtain t n ta where t: "tasks s c = Some t" "is_special t" "mm_of s c = Some n" "space_ok n" "tasks s arb = Some ta" "tk_mm ta \<noteq> 0"
    by (rule machine_member [OF ok c])
  have sp: "space_ok m" and vs: "vmas_ok (mm_mmap m)" using t(3,4) m by (auto simp: space_ok_def)
  have same: thesis if "user_access env c wrt x s = ret (r, s)" "access_verdict m x wrt r" for r
    using fin [of r m] that sp m by simp
  define e where "e = mm_pgd m (x AND PAGE_MASK)"
  have at: "pte_at c x s = ret (e, s)" using on_mm_gets [OF m] by (simp add: pte_at_def e_def)
  have fault: "do_page_fault env c b wrt x s = (case find_vma (mm_mmap m) x of
        None \<Rightarrow> ret (Bad_area, s)
      | Some v \<Rightarrow> if is_abt_vma v \<and> vm_start v \<le> x then handle_abt_vmfault env c v b wrt x s else ret (Fault_stock, s))" for b
    by (simp add: do_page_fault_def sb_def on_mm_gets [OF m] split: option.splits)
  show thesis
  proof (cases "flags_at (mm_mmap m) x")
    case None
    have "e = 0"
      using sp flags_at_page [OF vs, of x] None page_mask_aligned [of x] pages_okD(1) [OF vs]
      by (auto simp: e_def space_ok_def table_ok_def)
    then have "user_access env c wrt x s = ret (Some (if find_vma (mm_mmap m) x = None then Bad_area else Fault_stock), s)"
      using at fault find_vma_none_at [OF vs None]
      by (auto simp: user_access_def sb_def hw_access_def split: option.splits)
    then show thesis by (rule same) (simp add: access_verdict_def None)
  next
    case (Some f)
    show thesis
    proof (cases "f AND VM_AB_CONTROL = 0")
      case True
      obtain u where u: "find_vma (mm_mmap m) x = Some u" "core_flags (vm_flags u) = f" by (rule find_vma_at [OF vs Some])
      have "\<not> is_abt_vma u" using True u(2) controlled_core [of "vm_flags u"] by (simp add: is_abt_vma_def)
      then have "user_access env c wrt x s = ret (if hw_access e wrt then None else Some Fault_stock, s)"
        using at fault u(1) by (simp add: user_access_def sb_def)
      then show thesis by (rule same) (simp add: access_verdict_def Some True)
    next
      case False
      have g: "group (tasks s) arb cs" using ok group_spacesD(1) by (auto simp: machine_ok_def)
      obtain r m' where r: "user_access env c wrt x s = ret (r, s\<lparr>mms := (mms s)(mm_id s c \<mapsto> m')\<rparr>)"
        "access_outcome env (tk_mm ta) x f wrt m r m'"
        using user_access_outcome [OF g c t(1,2) m t(5,6) sp Some False] by blast
      have "access_verdict m x wrt r" "mm_mmap m' = mm_mmap m"
        using r(2) False
        by (auto simp: access_verdict_def Some access_outcome_def fault_outcome_def faulted_def split: option.splits fault.splits)
      then show thesis using fin [OF r(1)] r(2) by (simp add: access_outcome_def)
    qed
  qed
qed

section \<open>The invariant\<close>

lemma still_same: "flags_at ys = flags_at xs \<Longrightarrow> still xs ys"
proof -
  assume "flags_at ys = flags_at xs"
  then have "view_at ys = view_at xs" by (simp add: fun_eq_iff view_at_def)
  then show ?thesis unfolding still_def by (auto split: option.split)
qed

lemma still_unmapped: "flags_at ys = put_range (flags_at xs) a e None \<Longrightarrow> still xs ys"
  using still_refl [of xs] by (auto simp: still_def view_at_def put_range_def split: option.splits)

lemma thread_step_keeps:
  assumes ok: "machine_ok arb cs s" and st: "thread_step env cs s s'"
  shows "machine_ok arb cs s' \<and> members_still cs s s' \<and> only_spaces s s' (arb # cs)"
proof -
  have dead: "machine_ok arb cs s \<and> members_still cs s s \<and> only_spaces s s (arb # cs)" using ok machine_refl [OF ok] by simp
  have no: "\<exists>t. tasks s c = Some t \<and> \<not> is_arbiter t" if "c \<in> set cs" for c
    using ok that by (auto simp: machine_ok_def is_special_def)
  show ?thesis
    using st
  proof cases
    case (access c wrt x r)
    obtain t m where m: "mm_of s c = Some m" by (rule machine_member [OF ok access(1)])
    obtain q m' where "user_access env c wrt x s = ret (q, s\<lparr>mms := (mms s)(mm_id s c \<mapsto> m')\<rparr>)" "space_ok m'" "mm_mmap m' = mm_mmap m"
      by (rule user_access_run [OF ok access(1) m])
    then show ?thesis using machine_upd [OF ok access(1) m, of m'] still_refl access(2) by simp
  next
    case (protect c a len prot q)
    obtain t m where m: "tasks s c = Some t" "mm_of s c = Some m" "space_ok m" by (rule machine_member [OF ok protect(1)])
    have vs: "vmas_ok (mm_mmap m)" using m(3) by (simp add: space_ok_def)
    obtain err ys pt where r: "sys_mprotect env c a len prot s =
        ret (err, s\<lparr>mms := (mms s)(mm_id s c \<mapsto> m\<lparr>mm_mmap := ys, mm_pgd := pt\<rparr>)\<rparr>)" "vmas_ok ys"
      "table_ok (mm_mmap m) (mm_pgd m) \<longrightarrow> table_ok ys pt" "still (mm_mmap m) ys"
      by (rule user_mprotect_run [OF m(1,2) vs])
    have "space_ok (m\<lparr>mm_mmap := ys, mm_pgd := pt\<rparr>)" using m(3) r(2,3) by (simp add: space_ok_def)
    then show ?thesis using machine_upd [OF ok protect(1) m(2), of "m\<lparr>mm_mmap := ys, mm_pgd := pt\<rparr>"] r(1,4) protect(2) by simp
  next
    case (unmap c a len q)
    obtain t m where m: "tasks s c = Some t" "mm_of s c = Some m" "space_ok m" by (rule machine_member [OF ok unmap(1)])
    have vs: "vmas_ok (mm_mmap m)" using m(3) by (simp add: space_ok_def)
    obtain r m' where d: "do_munmap env a len m = (r, m')" by (cases "do_munmap env a len m")
    have "space_ok m'" using do_munmap_kept [OF vs d] m(3) by (simp add: kept_def)
    moreover have "still (mm_mmap m) (mm_mmap m')"
      using do_munmap_keeps(2) [OF vs d] by (cases "r = 0") (auto intro: still_same still_unmapped)
    moreover have "s' = s\<lparr>mms := (mms s)(mm_id s c \<mapsto> m')\<rparr>" using unmap(2) d by (simp add: sys_munmap_def on_mm_run [OF m(2)])
    ultimately show ?thesis using machine_upd [OF ok unmap(1) m(2), of m'] by simp
  next
    case (ab_mmap c p a len prot flags pgoff q)
    then show ?thesis using no [OF ab_mmap(1)] calls_denied [of s c] dead by force
  next
    case (ab_brk c p a q)
    then show ?thesis using no [OF ab_brk(1)] calls_denied [of s c] dead by force
  next
    case (ab_munmap c p a len q)
    then show ?thesis using no [OF ab_munmap(1)] calls_denied [of s c] dead by force
  next
    case (ab_mprotect c p a len prot q)
    then show ?thesis using no [OF ab_mprotect(1)] calls_denied [of s c] dead by force
  qed
qed

lemma machine_safe:
  assumes "machine_ok arb cs s" "safe_call arb cs f" "f s = ret (q, s')"
  shows "machine_ok arb cs s' \<and> only_spaces s s' (arb # cs)"
proof -
  have "group_spaces s arb cs" "tables_ok s arb cs" using assms(1) by (simp_all add: machine_ok_def)
  then have "group_spaces s' arb cs" "tables_ok s' arb cs" "only_spaces s s' (arb # cs)" using assms(2,3) unfolding safe_call_def by fastforce+
  then show ?thesis using assms(1) only_spaces_id [of s s' "arb # cs"] by (simp add: machine_ok_def) (simp add: only_spaces_def)
qed

lemma grant_keeps:
  assumes ok: "machine_ok arb cs s" and c: "c \<in> set cs" and r: "mmap_ready s cs c a len"
    and env: "hooks_ok env" "fixed_area env" and run: "sys_absys_mmap env arb c a len prot AB_MAP_FLAGS pgoff s = ret (q, s')"
  shows "machine_ok arb cs s' \<and> only_spaces s s' (arb # cs)"
proof -
  have g: "group_spaces s arb cs" and t: "tables_ok s arb cs" using ok by (simp_all add: machine_ok_def)
  obtain tc where tc: "tasks s c = Some tc" by (rule machine_member [OF ok c])
  obtain u s1 m m' where k: "sys_absys_mmap env arb c a len prot AB_MAP_FLAGS pgoff s = ret (u, s1)"
    "group_spaces s1 arb cs" "only_spaces s s1 cs" "mm_of s c = Some m" "mm_of s1 c = Some m'"
    "region_mapped a (a + len) (ab_map_flags (implied_exec (tk_personality tc) prot) AB_MAP_FLAGS m) m (u, m')"
    "\<forall>p \<in> set cs - {c}. \<exists>m m'. mm_of s p = Some m \<and> mm_of s1 p = Some m' \<and> reserved a len m m'"
    by (rule absys_mmap_run [OF g c tc r env])
  have s1: "s1 = s'" using k(1) run by simp
  have "mm_of s1 arb = mm_of s arb" using only_spaces_other [OF k(3), of arb] group_spacesD(5) [OF g] by simp
  then have "tables_ok s1 arb cs"
    using t k(4-7) c unfolding tables_ok_def region_mapped_def reserved_def
    by (metis (no_types, lifting) DiffI case_prodD insertE list.simps(15) option.inject singletonD space_ok_kept)
  moreover have "tasks s1 = tasks s" using k(3) by (simp add: only_spaces_def)
  moreover have "only_spaces s s1 (arb # cs)" by (rule only_spaces_mono [OF k(3)]) auto
  ultimately show ?thesis using ok k(2) unfolding s1 by (simp add: machine_ok_def mm_id_def)
qed

lemma kernel_step_keeps:
  assumes ok: "machine_ok arb cs s" and env: "stale_ends env" "hooks_ok env" "fixed_area env" and st: "kernel_step env arb cs s s'"
  shows "machine_ok arb cs s' \<and> only_spaces s s' (arb # cs)"
  using st
proof cases
  case thread
  then show ?thesis using thread_step_keeps [OF ok] by simp
next
  case (grant c a len prot pgoff q)
  then show ?thesis using grant_keeps [OF ok _ _ env(2,3)] by blast
next
  case (grow c a q)
  then show ?thesis using machine_safe [OF ok safe_brk] by blast
next
  case (revoke c a len q)
  then show ?thesis using machine_safe [OF ok safe_munmap [OF _ env(1)]] by blast
next
  case (change c a len prot q)
  then show ?thesis using machine_safe [OF ok safe_mprotect] by blast
qed

text \<open>An entry of a page table that agrees with the areas permits no more than the area does.\<close>

lemma space_ok_access:
  assumes sp: "space_ok m" and hw: "hw_access (mm_pgd m (x AND PAGE_MASK)) wrt"
  shows "\<exists>f. flags_at (mm_mmap m) x = Some f \<and> access_allowed f wrt"
proof -
  have vs: "vmas_ok (mm_mmap m)" "pages_ok (mm_mmap m) (mm_pgd m)" using sp by (simp_all add: space_ok_def table_ok_def)
  show ?thesis
  proof (cases "flags_at (mm_mmap m) x")
    case None
    then have "mm_pgd m (x AND PAGE_MASK) = 0" using pages_okD(1) [OF vs page_mask_aligned] flags_at_page [OF vs(1)] by simp
    then show ?thesis using hw by (simp add: hw_access_def)
  next
    case (Some f)
    then show ?thesis using hw_allowed [OF space_ok_entry [OF sp Some] hw] by simp
  qed
qed

lemma access_vis: "access_allowed (vis f) wrt = access_allowed f wrt"
  by (simp add: access_allowed_def vis_def VM_ACCOUNT_def VM_CAN_NONLINEAR_def VM_READ_def VM_WRITE_def VM_EXEC_def and.assoc)

lemma threads_keep:
  assumes ok: "machine_ok arb cs s" and run: "(thread_step env cs)\<^sup>*\<^sup>* s s'"
  shows "machine_ok arb cs s' \<and> members_still cs s s'"
  using run
proof (induction rule: rtranclp_induct)
  case base
  then show ?case using ok machine_refl by blast
next
  case (step s1 s2)
  then show ?case using thread_step_keeps [of arb cs s1 env s2] members_still_trans by blast
qed

lemma threads_access:
  assumes ok: "machine_ok arb cs s" and run: "(thread_step env cs)\<^sup>*\<^sup>* s s'"
    and c: "c \<in> set cs" "mm_of s c = Some m" and x: "view_at (mm_mmap m) x = Some f" "f AND VM_AB_CONTROL \<noteq> 0"
  shows "\<exists>m' r s''. mm_of s' c = Some m' \<and> user_access env c wrt x s' = ret (r, s'') \<and>
    (case view_at (mm_mmap m') x of
       None \<Rightarrow> r = Some Bad_area \<or> r = Some Fault_stock
     | Some g \<Rightarrow> g = f \<and> (r = Some Bad_access \<longleftrightarrow> \<not> access_allowed f wrt) \<and> r \<noteq> Some Bad_area \<and> r \<noteq> Some Fault_stock)"
proof -
  have k: "machine_ok arb cs s'" "members_still cs s s'" using threads_keep [OF ok run] by simp_all
  obtain m' where m': "mm_of s' c = Some m'" "still (mm_mmap m) (mm_mmap m')"
    using k(2) c unfolding members_still_def by fastforce
  obtain r m2 where r: "user_access env c wrt x s' = ret (r, s'\<lparr>mms := (mms s')(mm_id s' c \<mapsto> m2)\<rparr>)" "access_verdict m' x wrt r"
    by (rule user_access_run [OF k(1) c(1) m'(1)])
  have "case view_at (mm_mmap m') x of
       None \<Rightarrow> r = Some Bad_area \<or> r = Some Fault_stock
     | Some g \<Rightarrow> g = f \<and> (r = Some Bad_access \<longleftrightarrow> \<not> access_allowed f wrt) \<and> r \<noteq> Some Bad_area \<and> r \<noteq> Some Fault_stock"
  proof (cases "view_at (mm_mmap m') x")
    case None
    then show ?thesis using r(2) by (simp add: access_verdict_def view_at_def)
  next
    case (Some g)
    then obtain h where h: "flags_at (mm_mmap m') x = Some h" "g = vis h" by (auto simp: view_at_Some)
    have "g = f" using m'(2) [unfolded still_def, rule_format, of x] x Some by simp
    then show ?thesis
      using r(2) h x(2) Some controlled_vis [of h] access_vis [of h wrt] by (simp add: access_verdict_def)
  qed
  then show ?thesis using m'(1) r(1) by blast
qed

text \<open>
  Property C3.  The threads of a group cannot take more than the arbiter gave.  After any sequence of accesses,
  \<^verbatim>\<open>mprotect\<close> and \<^verbatim>\<open>munmap\<close> calls and attempts at the arbiter's calls by the threads, an access of a
  thread to a page that was controlled by the arbiter is an access error exactly when the flags
  the arbiter had put there forbid it, unless the thread has unmapped the page, and then it
  finds no page there.
\<close>

theorem threads_confined:
  assumes ok: "machine_ok arb cs s" and run: "(thread_step env cs)\<^sup>*\<^sup>* s s'"
    and c: "c \<in> set cs" "mm_of s c = Some m" and x: "view_at (mm_mmap m) x = Some f" "f AND VM_AB_CONTROL \<noteq> 0"
  shows "\<exists>m' r s''. mm_of s' c = Some m' \<and> user_access env c wrt x s' = ret (r, s'') \<and>
    (case view_at (mm_mmap m') x of
       None \<Rightarrow> r = Some Bad_area \<or> r = Some Fault_stock
     | Some g \<Rightarrow> g = f \<and> (r = Some Bad_access \<longleftrightarrow> \<not> access_allowed f wrt) \<and> r \<noteq> Some Bad_area \<and> r \<noteq> Some Fault_stock)"
  by (rule threads_access [OF assms])

section \<open>Examples\<close>

lemma group_example_machine: "machine_ok 1 [8, 7] group_example"
  using group_example_spaces group_example_tables group_example_facts roles_example
  by (simp add: machine_ok_def mm_id_def) (simp add: task_example_def)

lemma env_example_ok: "stale_ends env_example" "hooks_ok env_example" "fixed_area env_example"
  by (simp_all add: stale_ends_def hooks_ok_def fixed_area_def env_example_def)

lemma view_example: "view_at (mm_mmap (mm_example [vma_example])) 0x90001234 = Some 0x20000073"
  by (simp add: view_at_def vma_example_def core_flags_def vis_def VM_ACCOUNT_def VM_CAN_NONLINEAR_def)

lemma thread_step_example: "\<exists>s'. thread_step env_example [8, 7] group_example s'"
proof -
  have "vmas_ok (mm_mmap (mm_example [vma_example]))" using vma_example_ok by simp
  then obtain q ys pt where "sys_mprotect env_example 7 0x90001000 0x1000 7 group_example =
      ret (q, group_example\<lparr>mms := (mms group_example)(mm_id group_example 7 \<mapsto> (mm_example [vma_example])\<lparr>mm_mmap := ys, mm_pgd := pt\<rparr>)\<rparr>)"
    by (rule user_mprotect_run [OF group_example_facts(3,7)])
  then show ?thesis using thread_step.protect [of 7 "[8, 7]"] by (metis list.set_intros)
qed

theorem threads_confined_witness:
  "\<exists>s' m' r s''. thread_step env_example [8, 7] group_example s' \<and> mm_of s' 7 = Some m' \<and>
    user_access env_example 7 True 0x90001234 s' = ret (r, s'') \<and>
    (case view_at (mm_mmap m') 0x90001234 of
       None \<Rightarrow> r = Some Bad_area \<or> r = Some Fault_stock
     | Some g \<Rightarrow> g = 0x20000073 \<and> r \<noteq> Some Bad_access)"
proof -
  obtain s' where s': "thread_step env_example [8, 7] group_example s'" using thread_step_example by blast
  have "access_allowed 0x20000073 True" by (simp add: access_allowed_def VM_WRITE_def)
  moreover have "0x20000073 AND VM_AB_CONTROL \<noteq> 0" by (simp add: VM_AB_CONTROL_def VM_SAO_def)
  moreover have "(thread_step env_example [8, 7])\<^sup>*\<^sup>* group_example s'" using s' by (rule r_into_rtranclp)
  ultimately show ?thesis
    using threads_confined [OF group_example_machine _ _ group_example_facts(7) view_example, of env_example s' True] s'
    by (fastforce split: option.splits)
qed

end
