(* ===== verification/Page_Tables.thy ===== *)
theory Page_Tables
  imports Kernel_Machine
begin

text \<open>
  A page across several events: the arbiter changes its protection and the thread then accesses
  it.  An access that is taken away is taken away at once; one that is given back comes with a
  copy of the page.
\<close>

section \<open>Protection changed\<close>

lemma rwx_access: "access_allowed (f AND VM_RWX) wrt = access_allowed f wrt"
  by (simp add: access_allowed_def VM_RWX_7 VM_READ_def VM_WRITE_def VM_EXEC_def and.assoc)

lemma reprot_access:
  assumes "bits AND VM_RWX = bits"
  shows "access_allowed (reprot bits f) wrt = access_allowed bits wrt"
proof -
  have "reprot bits f AND VM_RWX = bits" using assms by (simp add: reprot_def bit.conj_disj_distrib2 and.assoc)
  then show ?thesis using rwx_access [of "reprot bits f" wrt] by simp
qed


lemma revoke_example: "\<exists>s'. sys_absys_mprotect env_example 1 7 0x90001000 0x1000 1 group_example = ret (0, s')"
proof -
  let ?m = "mm_example [vma_example]"
  have al: "PAGE_ALIGN 0x1000 = 0x1000" "page_aligned 0x90001000"
    by (simp_all add: PAGE_ALIGN_def PAGE_SIZE_def PAGE_MASK_def page_aligned_def)
  have f: "flags_at (mm_mmap ?m) 0x90001000 = Some 0x20000073"
    by (simp add: vma_example_def core_flags_def VM_CAN_NONLINEAR_def)
  have "covered (mm_mmap ?m) 0x90001000 (0x90001000 + PAGE_ALIGN 0x1000)" by (simp add: covered_def al vma_example_def)
  moreover have "mprotect_room env_example ?m" by (simp add: mprotect_room_def)
  ultimately obtain m' where "mprotect_mm env_example (\<lambda>_. 0) 0 0x90001000 0x1000 1 ?m = ret (0, m')"
    using mprotect_mm_succeeds [of ?m 1 "0x90001000" "0x1000" env_example "0x20000073" 0] vma_example_ok al f
    by (auto simp: VM_HUGETLB_def VM_MAYREAD_def VM_MAYWRITE_def VM_MAYEXEC_def)
  then show ?thesis
    using controls_arbiter [OF group_example_group, of 7] group_example_facts(3)
    by (simp add: sys_absys_mprotect_def sb_def on_mm_run [OF group_example_facts(7)]) (simp add: task_example_def)
qed


section \<open>Write permission given back\<close>

lemma shared_core: "core_flags f AND VM_SHARED = f AND VM_SHARED"
  by (simp add: core_flags_def VM_SHARED_def VM_CAN_NONLINEAR_def and.assoc)

lemma private_copied:
  assumes "vm_flags v AND VM_SHARED = 0" "vm_normal_page env e = Some pfn" "\<not> ke_page_anon env pfn"
    and "ke_anon_vma_prepare env v" "ke_alloc_page env x = Some n" "ke_cgroup_charge env n"
  shows "\<exists>e'. do_wp_page env v x e = Fault_pte e' \<and> pte_pfn e' = take_bit 20 n"
proof -
  have "(vm_flags v AND (VM_WRITE OR VM_SHARED)) AND VM_SHARED = 0" using assms(1) by (simp add: and.assoc VM_WRITE_def VM_SHARED_def)
  then have "vm_flags v AND (VM_WRITE OR VM_SHARED) \<noteq> VM_WRITE OR VM_SHARED" by (auto simp: VM_WRITE_def VM_SHARED_def)
  then have "\<not> wp_reuse env v e" using assms(2,3) by (simp add: wp_reuse_def)
  then show ?thesis
    using assms(4-6) new_pte_pfn [of env n "vm_flags v"]
    by (simp add: do_wp_page_def maybe_mkwrite_def vm_page_prot_def pte_pfn_def pte_mkwrite_def pte_mkdirty_def pfn_or pte_bits)
qed

text \<open>
  Property C40.  A thread that had a controlled page of the arbiter mapped for reading and is given write
  permission writes to a copy: the area is not \<^verbatim>\<open>VM_SHARED\<close> and the frame, from the arbiter's shared
  mapping, is not anonymous, so the write fault maps a new frame, and neither the arbiter nor the
  other threads see what is written.
\<close>

theorem regranted_page_copied:
  assumes ok: "machine_ok arb cs s" and c: "c \<in> set cs" "mm_of s c = Some m"
    and v: "flags_at (mm_mmap m) x = Some f" "f AND VM_AB_CONTROL \<noteq> 0" "f AND VM_SHARED = 0" "access_allowed f True"
    and e: "e = mm_pgd m (x AND PAGE_MASK)" "pte_present e" "\<not> hw_access e True"
    and p: "vm_normal_page env e = Some pfn" "\<not> ke_page_anon env pfn"
    and k: "\<And>u. ke_anon_vma_prepare env u" "ke_alloc_page env x = Some n" "ke_cgroup_charge env n" "ke_pte_alloc env x"
  shows "\<exists>e' s'. user_access env c True x s = ret (Some (Fault_pte e'), s') \<and> pte_pfn e' = take_bit 20 n"
proof -
  let ?p = "e AND PAGE_PRESENT \<noteq> 0"
  have g: "group (tasks s) arb cs" using ok group_spacesD(1) by (auto simp: machine_ok_def)
  obtain t m1 ta where t: "tasks s c = Some t" "is_special t" "mm_of s c = Some m1" "space_ok m1" "tasks s arb = Some ta" "tk_mm ta \<noteq> 0"
    by (rule machine_member [OF ok c(1)])
  have sp: "space_ok m" "vmas_ok (mm_mmap m)" using t(3,4) c(2) by (simp_all add: space_ok_def)
  have nh: "f AND VM_HUGETLB = 0" using sp(1) v(1) by (auto simp: space_ok_def table_ok_def no_huge_def)
  obtain u where u: "core_flags (vm_flags u) = f" and r: "do_page_fault env c ?p True x s = install_pte c x
        (if access_error ?p True u then Bad_access
         else if \<not> ke_pte_alloc env x then Fault_oom
         else if pte_present e then if True then do_wp_page env u x e else Fault_pte (pte_mkyoung e)
         else if \<not> pte_none e then Fault_swap
         else if \<not> ke_anon_vma_prepare env u then Fault_oom
         else case ke_get_user_pages env (tk_mm ta) x of
                None \<Rightarrow> Fault_oom
              | Some pfn \<Rightarrow> if ke_cgroup_charge env pfn then Fault_pte (first_pte env pfn u) else Fault_oom) s"
    by (rule page_fault_run [OF g c(1) t(1,2) c(2) t(5,6) sp(2) v(1,2) nh e(1)])
  have "agrees (vm_flags u) e" using space_ok_entry [OF sp(1) v(1)] agrees_core [of "vm_flags u"] u e(1) by simp
  from fault_denied [OF this e(3)] have d: "\<not> access_error ?p True u"
    using v(4) access_core [of "vm_flags u"] u by simp
  have "vm_flags u AND VM_SHARED = 0" using v(3) shared_core [of "vm_flags u"] u by simp
  from private_copied [OF this p k(1-3)] obtain e' where e': "do_wp_page env u x e = Fault_pte e'" "pte_pfn e' = take_bit 20 n" by blast
  have at: "pte_at c x s = ret (e, s)" using on_mm_gets [OF c(2)] by (simp add: pte_at_def e(1))
  show ?thesis
    using r d e(2,3) e' at k(4) by (simp add: user_access_def sb_def install_pte_run [OF c(2)])
qed

definition read_example :: mm where
  "read_example = (mm_example [vma_example])\<lparr>mm_pgd := (\<lambda>_. 0)(0x90001000 := 0x90001025)\<rparr>"

definition regrant_example :: kern where
  "regrant_example = group_example\<lparr>mms := (mms group_example)(mm_id group_example 7 \<mapsto> read_example)\<rparr>"

lemma read_example_ok: "space_ok read_example"
proof -
  have "agrees 0x20000073 0x90001025" by code_simp
  then show ?thesis
    using mm_example_ok(1) by (auto simp: read_example_def space_ok_def table_ok_def pages_ok_def)
      (simp_all add: vma_example_def core_flags_def VM_CAN_NONLINEAR_def)
qed

theorem regranted_page_copied_witness:
  "\<exists>e s'. user_access env_example 7 True 0x90001234 regrant_example = ret (Some (Fault_pte e), s') \<and> pte_pfn e = 0x1234"
proof -
  have "still (mm_mmap (mm_example [vma_example])) (mm_mmap read_example)" by (simp add: read_example_def still_refl)
  from machine_upd [OF group_example_machine _ group_example_facts(7) read_example_ok this]
  have ok: "machine_ok 1 [8, 7] regrant_example" by (simp add: regrant_example_def)
  have m: "mm_of regrant_example 7 = Some read_example" using mm_of_upd [OF group_example_facts(7)] by (simp add: regrant_example_def)
  have f: "flags_at (mm_mmap read_example) 0x90001234 = Some 0x20000073"
    by (simp add: read_example_def vma_example_def core_flags_def VM_CAN_NONLINEAR_def)
  have e: "pte_present 0x90001025" "\<not> hw_access 0x90001025 True" "access_allowed 0x20000073 True" by code_simp+
  have "0x90001025 = mm_pgd read_example (0x90001234 AND PAGE_MASK)" by (simp add: read_example_def PAGE_MASK_def)
  moreover have "vm_normal_page env_example 0x90001025 = Some 0x90001"
    by (simp add: vm_normal_page_def pte_special_def pte_pfn_def pte_bits)
  ultimately show ?thesis
    using regranted_page_copied [OF ok _ m f _ _ e(3) _ e(1,2), of env_example "0x90001" "0x1234"]
    by (simp add: VM_AB_CONTROL_def VM_SAO_def VM_SHARED_def take_bit_eq_mod)
qed

end
