(* ===== verification/Enforcement.thy ===== *)
theory Enforcement
  imports Page_Tables Malloc_Correct
begin

text \<open>
  The monitor on top of the kernel: the system calls the monitor records are run by the model
  of the kernel, and what a new unit of the heap is in the address space of every thread of
  the group after the calls for it.
\<close>

section \<open>The calls of the monitor as the kernel runs them\<close>

definition absys_call :: "kenv \<Rightarrow> pid \<Rightarrow> (syscall \<Rightarrow> word32 kcall) \<Rightarrow> syscall \<Rightarrow> word32 kcall" where
  "absys_call env arb stock c =
     (case c of
        Absys_mmap p a n prot \<Rightarrow> sys_absys_mmap env arb p a n prot AB_MAP_FLAGS 0
      | Absys_brk p a \<Rightarrow> sys_absys_brk env arb p a
      | Absys_munmap p a n \<Rightarrow> sys_absys_munmap env arb p a n
      | Absys_mprotect p a n prot \<Rightarrow> sys_absys_mprotect env arb p a n prot
      | _ \<Rightarrow> stock c)"

primrec run_calls :: "(syscall \<Rightarrow> word32 kcall) \<Rightarrow> syscall list \<Rightarrow> kern \<Rightarrow> kern res" where
  "run_calls call [] k = ret k"
| "run_calls call (c # cs) k = bnd (call c k) (\<lambda>(_, k'). run_calls call cs k')"

lemma run_calls_append: "run_calls call (xs @ ys) k = bnd (run_calls call xs k) (run_calls call ys)"
  by (induction xs arbitrary: k) (auto simp: bnd_assoc split_def)

definition kernel_ret :: "(syscall \<Rightarrow> word32 kcall) \<Rightarrow> kern \<Rightarrow> syscall list \<Rightarrow> syscall \<Rightarrow> word32" where
  "kernel_ret call k tr c = (case bnd (run_calls call tr k) (call c) of Some (Inr (r, _)) \<Rightarrow> r | _ \<Rightarrow> - 1)"

section \<open>A unit in the address spaces of a group\<close>

fun mem_allows :: "mem_prot \<Rightarrow> bool \<Rightarrow> bool" where
  "mem_allows PROT_N wrt = False"
| "mem_allows PROT_R wrt = (\<not> wrt)"
| "mem_allows PROT_RW wrt = True"

definition unit_access :: "kern \<Rightarrow> pid \<Rightarrow> addr \<Rightarrow> mem_prot \<Rightarrow> bool" where
  "unit_access k p b v \<longleftrightarrow> (\<exists>m. mm_of k p = Some m \<and> vmas_ok (mm_mmap m) \<and>
     (\<forall>x. b \<le> x \<and> x < b + UNIT_SIZE \<longrightarrow> (\<exists>f. flags_at (mm_mmap m) x = Some f \<and> f AND VM_AB_CONTROL \<noteq> 0 \<and>
        (\<forall>wrt. access_allowed f wrt \<longleftrightarrow> mem_allows v wrt))))"

definition unit_open :: "kenv \<Rightarrow> addr \<Rightarrow> mm \<Rightarrow> bool" where
  "unit_open env b m \<longleftrightarrow> covered (mm_mmap m) b (b + UNIT_SIZE) \<and> mprotect_room env m \<and>
     (\<exists>g. g AND VM_HUGETLB = 0 \<and> g AND VM_AB_CONTROL \<noteq> 0 \<and> g AND (VM_READ OR VM_WRITE) = VM_READ OR VM_WRITE \<and>
        g AND (VM_MAYREAD OR VM_MAYWRITE OR VM_MAYEXEC) = VM_MAYREAD OR VM_MAYWRITE OR VM_MAYEXEC \<and>
        (\<forall>x. b \<le> x \<and> x < b + UNIT_SIZE \<longrightarrow> flags_at (mm_mmap m) x = Some g))"

definition unit_range :: "addr \<Rightarrow> bool" where
  "unit_range b \<longleftrightarrow> page_aligned b \<and> b + UNIT_SIZE \<le> TASK_SIZE \<and> b < b + UNIT_SIZE"

lemma unit_pages: "PAGE_ALIGN 40944 = UNIT_SIZE" "page_aligned UNIT_SIZE"
  by (simp_all add: PAGE_ALIGN_def PAGE_SIZE_def PAGE_MASK_def UNIT_SIZE_def page_aligned_def)

lemma prot_of_small: "prot_of v AND NOT 7 = 0"
  by (cases v) (simp_all add: prot_of_def PROT_NONE_def PROT_READ_def PROT_WRITE_def)

lemma prot_access:
  assumes "f AND VM_RWX = calc_vm_prot_bits (implied_exec personality (prot_of v))"
  shows "access_allowed f wrt \<longleftrightarrow> mem_allows v wrt"
proof -
  let ?b = "calc_vm_prot_bits (implied_exec personality (prot_of v))"
  have r: "f AND (VM_READ OR VM_EXEC OR VM_WRITE) = ?b" using assms by (simp add: VM_RWX_def or.left_commute or.commute)
  have "(f AND VM_RWX) AND VM_WRITE = f AND VM_WRITE" by (simp add: VM_RWX_7 VM_WRITE_def and.assoc)
  then have w: "f AND VM_WRITE = ?b AND VM_WRITE" using assms by simp
  show ?thesis unfolding access_allowed_def r w
    by (cases v) (simp_all add: implied_exec_def prot_of_def PROT_NONE_def PROT_READ_def PROT_WRITE_def PROT_EXEC_def
        calc_vm_prot_bits_def calc_vm_trans_def VM_READ_def VM_WRITE_def VM_EXEC_def)
qed

lemma vis_rwx: "vis f AND VM_RWX = f AND VM_RWX"
  by (simp add: vis_def VM_RWX_7 VM_ACCOUNT_def VM_CAN_NONLINEAR_def and.assoc)

lemma unit_mprotect:
  assumes g: "group_spaces k arb ps" "p \<in> set ps" and b: "unit_range b"
    and m: "mm_of k p = Some m" and op: "unit_open env b m"
  obtains m' where "sys_absys_mprotect env arb p b 40944 (prot_of v) k = ret (0, k\<lparr>mms := (mms k)(mm_id k p \<mapsto> m')\<rparr>)"
    "unit_access (k\<lparr>mms := (mms k)(mm_id k p \<mapsto> m')\<rparr>) p b v"
proof -
  note d = group_spacesD [OF g(1)]
  have ok: "vmas_ok (mm_mmap m)" using d(4) g(2) m by (auto simp: ready_def)
  obtain t where t: "tasks k p = Some t" using mm_of_task [OF m] by blast
  have r: "page_aligned b" "b < b + PAGE_ALIGN 40944" using b by (simp_all add: unit_range_def unit_pages)
  obtain h where h: "h AND VM_HUGETLB = 0" "h AND VM_AB_CONTROL \<noteq> 0"
    "h AND (VM_MAYREAD OR VM_MAYWRITE OR VM_MAYEXEC) = VM_MAYREAD OR VM_MAYWRITE OR VM_MAYEXEC"
    "\<forall>x. b \<le> x \<and> x < b + UNIT_SIZE \<longrightarrow> flags_at (mm_mmap m) x = Some h"
    using op unfolding unit_open_def by blast
  have c: "covered (mm_mmap m) b (b + PAGE_ALIGN 40944)" "mprotect_room env m" "flags_at (mm_mmap m) b = Some h"
    using op h(4) r(2) unfolding unit_open_def unit_pages by simp_all
  let ?bits = "calc_vm_prot_bits (implied_exec (tk_personality t) (prot_of v))"
  obtain err ys pt where e: "mprotect_mm env (\<lambda>_. 0) (tk_personality t) b 40944 (prot_of v) m = ret (err, m\<lparr>mm_mmap := ys, mm_pgd := pt\<rparr>)"
    "reprotected (\<lambda>_. True) ?bits b (b + PAGE_ALIGN 40944) (mm_mmap m) err ys"
    by (rule mprotect_mm_exact [OF ok prot_of_small r, of "\<lambda>_. 0" "\<lambda>_. True"]) auto
  have "err = 0" using mprotect_mm_succeeds [OF ok prot_of_small r c(1,2,3) h(1,3), of "tk_personality t" v] e(1) by auto
  then have y: "vmas_ok ys" "view_at ys = reprot_range ?bits b (b + UNIT_SIZE) (view_at (mm_mmap m))"
    using e(2) unfolding reprotected_def unit_pages by auto
  let ?k = "k\<lparr>mms := (mms k)(mm_id k p \<mapsto> m\<lparr>mm_mmap := ys, mm_pgd := pt\<rparr>)\<rparr>"
  have "\<exists>f. flags_at ys x = Some f \<and> f AND VM_AB_CONTROL \<noteq> 0 \<and> (\<forall>wrt. access_allowed f wrt \<longleftrightarrow> mem_allows v wrt)"
    if x: "b \<le> x" "x < b + UNIT_SIZE" for x
  proof -
    have "view_at ys x = Some (reprot ?bits (vis h))" using x h(4) unfolding y(2) by (simp add: reprot_range_def view_at_def)
    then obtain f where f: "flags_at ys x = Some f" "vis f = reprot ?bits (vis h)" by (auto simp: view_at_def)
    have "f AND VM_AB_CONTROL \<noteq> 0"
      using arg_cong [OF f(2), of "\<lambda>f. f AND VM_AB_CONTROL"] h(2) by (simp add: controlled_vis controlled_reprot)
    moreover have "f AND VM_RWX = ?bits"
      using arg_cong [OF f(2), of "\<lambda>f. f AND VM_RWX"] unfolding vis_rwx reprot_def bit.conj_disj_distrib2 prot_bits_rwx and.assoc by simp
    ultimately show ?thesis using f(1) prot_access by blast
  qed
  then have "unit_access ?k p b v" using mm_of_upd [OF m, of "mm_id k p"] y(1) by (simp add: unit_access_def)
  moreover have "sys_absys_mprotect env arb p b 40944 (prot_of v) k = ret (0, ?k)"
    using controls_arbiter [OF d(1) g(2)] t e(1) \<open>err = 0\<close> by (simp add: sys_absys_mprotect_def sb_def on_mm_run [OF m])
  ultimately show thesis using that by simp
qed

lemma unit_access_upd:
  assumes g: "group_spaces k arb ps" and p: "p \<in> set ps" "q \<in> set ps" "q \<noteq> p"
  shows "mm_of (k\<lparr>mms := (mms k)(mm_id k p \<mapsto> m')\<rparr>) q = mm_of k q"
proof -
  obtain n where "mm_of k q = Some n" using group_spaces_mm [OF g, of q] p(2) by auto
  then show ?thesis using mm_of_upd [of k q n "mm_id k p" m'] group_spaces_inj [OF g, of q p] p by simp
qed

definition unit_calls :: "addr \<Rightarrow> (pid \<times> mem_prot) list \<Rightarrow> syscall list" where
  "unit_calls b qs = map (\<lambda>(p, v). Absys_mprotect p b 40944 (prot_of v)) qs"

lemma unit_mprotects:
  assumes "machine_ok arb ps k" "unit_range b" "distinct (map fst qs)" "fst ` set qs \<subseteq> set ps"
    "\<forall>p \<in> fst ` set qs. \<exists>m. mm_of k p = Some m \<and> unit_open env b m"
  shows "\<exists>k'. run_calls (absys_call env arb stock) (unit_calls b qs) k = ret k' \<and> machine_ok arb ps k' \<and>
     tasks k' = tasks k \<and> (\<forall>(p, v) \<in> set qs. unit_access k' p b v) \<and>
     (\<forall>p \<in> set ps - fst ` set qs. mm_of k' p = mm_of k p)"
  using assms
proof (induction qs arbitrary: k)
  case Nil
  then show ?case by (simp add: unit_calls_def)
next
  case (Cons q qs)
  obtain p v where q: "q = (p, v)" by (cases q)
  have p: "p \<in> set ps" "p \<notin> fst ` set qs" using Cons.prems(3,4) q by auto
  have g: "group_spaces k arb ps" using Cons.prems(1) by (simp add: machine_ok_def)
  obtain m where m: "mm_of k p = Some m" "unit_open env b m" using Cons.prems(5) q by auto
  obtain m' where m': "sys_absys_mprotect env arb p b 40944 (prot_of v) k = ret (0, k\<lparr>mms := (mms k)(mm_id k p \<mapsto> m')\<rparr>)"
    "unit_access (k\<lparr>mms := (mms k)(mm_id k p \<mapsto> m')\<rparr>) p b v"
    by (rule unit_mprotect [OF g p(1) Cons.prems(2) m])
  define k1 where "k1 = k\<lparr>mms := (mms k)(mm_id k p \<mapsto> m')\<rparr>"
  have g1: "machine_ok arb ps k1"
    unfolding k1_def using machine_safe [OF Cons.prems(1) safe_mprotect [OF p(1)] m'(1)] by blast
  have same: "mm_of k1 r = mm_of k r" if "r \<in> set ps" "r \<noteq> p" for r
    unfolding k1_def by (rule unit_access_upd [OF g p(1) that])
  have "\<forall>r \<in> fst ` set qs. \<exists>m. mm_of k1 r = Some m \<and> unit_open env b m"
    using Cons.prems(4,5) same p(2) by (metis (no_types, lifting) image_insert insertCI list.simps(15) subset_iff)
  from Cons.IH [OF g1 Cons.prems(2) _ _ this] obtain k' where k': "run_calls (absys_call env arb stock) (unit_calls b qs) k1 = ret k'"
    "machine_ok arb ps k'" "tasks k' = tasks k1" "\<forall>(p, v) \<in> set qs. unit_access k' p b v"
    "\<forall>p \<in> set ps - fst ` set qs. mm_of k' p = mm_of k1 p"
    using Cons.prems(3,4) by auto
  have "mm_of k' p = mm_of k1 p" using k'(5) p by blast
  then have "unit_access k' p b v" using m'(2) unfolding k1_def [symmetric] unit_access_def by simp
  moreover have "run_calls (absys_call env arb stock) (unit_calls b (q # qs)) k = ret k'"
    using m'(1) k'(1) q by (simp add: unit_calls_def absys_call_def k1_def)
  moreover have "\<forall>r \<in> set ps - fst ` set (q # qs). mm_of k' r = mm_of k r" using k'(5) same q by auto
  ultimately show ?case using k'(2-4) q by (auto simp: k1_def)
qed

section \<open>The break of the group\<close>

definition unit_room :: "kenv \<Rightarrow> kern \<Rightarrow> pid list \<Rightarrow> bool" where
  "unit_room env k ps \<longleftrightarrow>
     (\<forall>p \<in> set ps. \<forall>m. mm_of k p = Some m \<longrightarrow> length (mm_mmap m) + 2 < ke_max_map_count env \<and> mm_def_flags m AND VM_HUGETLB = 0) \<and>
     (\<forall>xs. ke_vma_alloc env xs) \<and> (\<forall>n. ke_enough_memory env n) \<and> (\<forall>v p q. ke_file_mprotect env v p q = 0)"

lemma brk_flags_bits:
  fixes personality :: word32
  assumes "mm_def_flags m AND VM_HUGETLB = 0"
  defines "g \<equiv> core_flags (brk_flags personality m)"
  shows "g AND VM_HUGETLB = 0" "g AND VM_AB_CONTROL \<noteq> 0" "g AND (VM_READ OR VM_WRITE) = VM_READ OR VM_WRITE"
    "g AND (VM_MAYREAD OR VM_MAYWRITE OR VM_MAYEXEC) = VM_MAYREAD OR VM_MAYWRITE OR VM_MAYEXEC"
proof -
  define e where "e = (if personality AND READ_IMPLIES_EXEC \<noteq> 0 then VM_EXEC else 0)"
  have b: "brk_flags personality m = e OR mm_def_flags m OR (0x20100073 :: word32)"
    unfolding brk_flags_def VM_DATA_DEFAULT_FLAGS_def e_def [symmetric]
    by (simp add: VM_READ_def VM_WRITE_def VM_MAYREAD_def VM_MAYWRITE_def VM_MAYEXEC_def VM_ACCOUNT_def VM_AB_CONTROL_def VM_SAO_def
        or.assoc or.left_commute or.commute)
  have c: "core_flags f AND x = f AND x" if "x AND NOT VM_CAN_NONLINEAR = x" for f x :: word32
    using that by (simp add: core_flags_def and.assoc and.left_commute and.commute)
  have "e AND VM_HUGETLB = 0" by (simp add: e_def VM_EXEC_def VM_HUGETLB_def)
  then show "g AND VM_HUGETLB = 0"
    unfolding g_def b using assms(1)
    by (subst c) (simp_all add: bit.conj_disj_distrib2 VM_HUGETLB_def VM_CAN_NONLINEAR_def)
  show "g AND VM_AB_CONTROL \<noteq> 0" using brk_flags_controlled controlled_core by (simp add: g_def)
  have k: "(e OR d OR (0x20100073 :: word32)) AND x = x" if "0x20100073 AND x = x" for d x
  proof -
    have "(e OR d OR 0x20100073) AND x = ((e OR d) AND x) OR (0x20100073 AND x)" by (simp add: bit.conj_disj_distrib2 or.assoc)
    then show ?thesis unfolding that by (auto intro!: bit_word_eqI simp: bit_simps)
  qed
  show "g AND (VM_READ OR VM_WRITE) = VM_READ OR VM_WRITE"
    "g AND (VM_MAYREAD OR VM_MAYWRITE OR VM_MAYEXEC) = VM_MAYREAD OR VM_MAYWRITE OR VM_MAYEXEC"
    unfolding g_def b by (subst c; simp add: k VM_READ_def VM_WRITE_def VM_MAYREAD_def VM_MAYWRITE_def VM_MAYEXEC_def VM_CAN_NONLINEAR_def)+
qed

lemma unit_open_access:
  assumes "mm_of k p = Some m" "vmas_ok (mm_mmap m)" "unit_open env b m"
  shows "unit_access k p b PROT_RW"
proof -
  obtain g where g: "g AND VM_AB_CONTROL \<noteq> 0" "g AND (VM_READ OR VM_WRITE) = VM_READ OR VM_WRITE"
    "\<forall>x. b \<le> x \<and> x < b + UNIT_SIZE \<longrightarrow> flags_at (mm_mmap m) x = Some g"
    using assms(3) unfolding unit_open_def by blast
  have "(g AND (VM_READ OR VM_WRITE)) AND VM_WRITE = g AND VM_WRITE"
    by (simp add: VM_READ_def VM_WRITE_def and.assoc)
  then have w: "g AND VM_WRITE = VM_WRITE" unfolding g(2) by (simp add: VM_READ_def VM_WRITE_def)
  have "(g AND (VM_READ OR VM_EXEC OR VM_WRITE)) AND VM_WRITE = g AND VM_WRITE"
    by (simp add: VM_READ_def VM_WRITE_def VM_EXEC_def and.assoc)
  then have "g AND (VM_READ OR VM_EXEC OR VM_WRITE) \<noteq> 0" using w by (auto simp: VM_WRITE_def)
  then have "access_allowed g wrt" for wrt using w by (simp add: access_allowed_def VM_WRITE_def)
  then show ?thesis using assms(1,2) g(1,3) by (auto simp: unit_access_def)
qed

text \<open>What a new unit needs of the kernel: the group, its break, and resources for the calls.\<close>

definition kernel_ready :: "kenv \<Rightarrow> kern \<Rightarrow> pid \<Rightarrow> pid list \<Rightarrow> addr \<Rightarrow> bool" where
  "kernel_ready env k arb ps b \<longleftrightarrow> machine_ok arb ps k \<and> hooks_ok env \<and> unit_room env k ps \<and>
     (\<exists>ma. mm_of k arb = Some ma \<and> mm_ab_brk ma = b \<and> mm_start_ab_brk ma \<le> b) \<and> page_aligned b"

lemma unit_brk:
  assumes k: "kernel_ready env k arb ps b" and p: "p \<in> set ps" and b: "unit_range b"
    and run: "sys_absys_brk env arb p (b + UNIT_SIZE) k = ret (b + UNIT_SIZE, k')"
  shows "machine_ok arb ps k' \<and> tasks k' = tasks k \<and> (\<forall>q \<in> set ps. \<exists>m. mm_of k' q = Some m \<and> vmas_ok (mm_mmap m) \<and> unit_open env b m)"
proof -
  obtain ma where ma: "mm_of k arb = Some ma" "mm_ab_brk ma = b" "mm_start_ab_brk ma \<le> b"
    using k by (auto simp: kernel_ready_def)
  have g: "group_spaces k arb ps" "hooks_ok env" and room: "unit_room env k ps" and al: "page_aligned b"
    and mk: "machine_ok arb ps k" using k by (auto simp: kernel_ready_def machine_ok_def)
  obtain t where t: "tasks k arb = Some t" using mm_of_task [OF ma(1)] by blast
  have a: "PAGE_ALIGN (mm_ab_brk ma) = b" "PAGE_ALIGN (b + UNIT_SIZE) = b + UNIT_SIZE"
    using ma(2) al by (simp_all add: PAGE_ALIGN_id page_aligned_add unit_pages)
  have r: "break_range (PAGE_ALIGN (mm_ab_brk ma)) (PAGE_ALIGN (b + UNIT_SIZE))" "mm_start_ab_brk ma \<le> b + UNIT_SIZE"
    using b al ma(3) by (auto simp: a break_range_def unit_range_def page_aligned_add unit_pages)
  obtain all s' where s: "sys_absys_brk env arb p (b + UNIT_SIZE) k = ret (if all then b + UNIT_SIZE else mm_ab_brk ma, s')"
    "only_spaces k s' (arb # ps)" "mm_of s' arb = Some (if all then ma\<lparr>mm_ab_brk := b + UNIT_SIZE\<rparr> else ma)"
    "brk_done (tk_personality t) (PAGE_ALIGN (mm_ab_brk ma)) (PAGE_ALIGN (b + UNIT_SIZE)) all ps k s'"
    by (rule sys_absys_brk_grows [OF g(1) p g(2) t ma(1) r])
  have "b + UNIT_SIZE \<noteq> b" using b by (auto simp: unit_range_def)
  then have all: "all" "s' = k'" using s(1) run ma(2) by (auto split: if_splits)
  have each: "\<exists>m. mm_of k' q = Some m \<and> vmas_ok (mm_mmap m) \<and> unit_open env b m" if q: "q \<in> set ps" for q
  proof -
    obtain m m' where m: "mm_of k q = Some m" "mm_of k' q = Some m'" "grown (tk_personality t) b (b + UNIT_SIZE) True m m'"
      using bspec [OF s(4) [unfolded brk_done_def a all(2)] q] all(1) by auto
    have rm: "length (mm_mmap m) + 2 < ke_max_map_count env" "mm_def_flags m AND VM_HUGETLB = 0"
      using room q m(1) unfolding unit_room_def by blast+
    have "mprotect_room env m'" using m(3) rm(1) room by (auto simp: grown_def mprotect_room_def unit_room_def)
    then have "unit_open env b m'"
      using m(3) brk_flags_bits [OF rm(2), of "tk_personality t"] unfolding unit_open_def grown_def put_range_def by auto
    then show ?thesis using m(2,3) by (auto simp: grown_def)
  qed
  have "machine_ok arb ps k'" using machine_safe [OF mk safe_brk [OF p] run] by blast
  then show ?thesis using each s(2) all(2) by (simp add: only_spaces_def)
qed

text \<open>
  Accesses to the pages of the unit from now on, whatever the threads of the group do in the
  meantime: an access error exactly when the label forbids the access, unless the thread has
  unmapped the page.
\<close>

definition unit_faults :: "kenv \<Rightarrow> kern \<Rightarrow> pid list \<Rightarrow> pid \<Rightarrow> addr \<Rightarrow> mem_prot \<Rightarrow> bool" where
  "unit_faults env k ps p b v \<longleftrightarrow> (\<forall>k' x wrt. (thread_step env ps)\<^sup>*\<^sup>* k k' \<and> b \<le> x \<and> x < b + UNIT_SIZE \<longrightarrow>
     (\<exists>m r k''. mm_of k' p = Some m \<and> user_access env p wrt x k' = ret (r, k'') \<and>
        (if view_at (mm_mmap m) x = None then r = Some Bad_area \<or> r = Some Fault_stock
         else r = Some Bad_access \<longleftrightarrow> \<not> mem_allows v wrt)))"

lemma unit_access_faults:
  assumes g: "machine_ok arb ps k" "p \<in> set ps" and u: "unit_access k p b v"
  shows "unit_faults env k ps p b v"
  unfolding unit_faults_def
proof (intro allI impI, elim conjE)
  fix k' x wrt assume run: "(thread_step env ps)\<^sup>*\<^sup>* k k'" and x: "b \<le> x" "x < b + UNIT_SIZE"
  obtain m f where m: "mm_of k p = Some m" "flags_at (mm_mmap m) x = Some f" "f AND VM_AB_CONTROL \<noteq> 0"
    "\<And>w. access_allowed f w \<longleftrightarrow> mem_allows v w"
    using u x unfolding unit_access_def by blast
  have view: "view_at (mm_mmap m) x = Some (vis f)" "vis f AND VM_AB_CONTROL \<noteq> 0"
    using m(2,3) by (simp_all add: view_at_def controlled_vis)
  obtain n r k'' where n: "mm_of k' p = Some n" "user_access env p wrt x k' = ret (r, k'')"
    "case view_at (mm_mmap n) x of
       None \<Rightarrow> r = Some Bad_area \<or> r = Some Fault_stock
     | Some g \<Rightarrow> g = vis f \<and> (r = Some Bad_access \<longleftrightarrow> \<not> access_allowed (vis f) wrt) \<and> r \<noteq> Some Bad_area \<and> r \<noteq> Some Fault_stock"
    using threads_access [OF g(1) run g(2) m(1) view, of wrt] by blast
  then show "\<exists>m r k''. mm_of k' p = Some m \<and> user_access env p wrt x k' = ret (r, k'') \<and>
        (if view_at (mm_mmap m) x = None then r = Some Bad_area \<or> r = Some Fault_stock
         else r = Some Bad_access \<longleftrightarrow> \<not> mem_allows v wrt)"
    using m(4) access_vis [of f wrt] by (intro exI [of _ n] exI [of _ r] exI [of _ k'']) (auto split: option.splits)
qed

lemma kernel_ret_answer:
  assumes "run_calls call tr k0 = ret k" "kernel_ret call k0 tr c = r" "r \<noteq> - 1"
  obtains k' where "call c k = ret (r, k')"
  using assms by (auto simp: kernel_ret_def ret_def split: option.splits sum.splits)

lemma fresh_unit_range:
  assumes "fresh_unit_env s pid av b u" "kernel_ready env k arb ps b"
  shows "unit_range b" "b + UNIT_SIZE \<noteq> - 1"
proof -
  have b: "0x80000000 \<le> unat b" "unat b + 40960 \<le> 0xA0000000" using assms(1) by (auto simp: fresh_unit_env_def)
  then have u: "unat (b + UNIT_SIZE) = unat b + 40960" by (simp add: UNIT_SIZE_def unat_add_le)
  show r: "unit_range b" using assms(2) b u by (simp add: unit_range_def kernel_ready_def TASK_SIZE_def word_le_nat_alt word_less_nat_alt)
  show "b + UNIT_SIZE \<noteq> - 1"
  proof
    assume "b + UNIT_SIZE = - 1"
    then have "(- 1 :: word32) \<le> TASK_SIZE" using r unfolding unit_range_def by metis
    then show False by (simp add: TASK_SIZE_def word_order.extremum_unique)
  qed
qed

lemma unit_granted:
  assumes env: "fresh_unit_env s pid av b u" and k: "kernel_ready env k arb ps b" "pid \<in> set ps"
    and sys: "sys_ret s = kernel_ret (absys_call env arb stock) k0" "run_calls (absys_call env arb stock) (sys_trace s) k0 = ret k"
  obtains k1 where "absys_call env arb stock (Absys_brk pid (b + UNIT_SIZE)) k = ret (b + UNIT_SIZE, k1)"
    "machine_ok arb ps k1" "tasks k1 = tasks k"
    "\<forall>q \<in> set ps. \<exists>m. mm_of k1 q = Some m \<and> vmas_ok (mm_mmap m) \<and> unit_open env b m"
proof -
  note r = fresh_unit_range [OF env k(1)]
  have "kernel_ret (absys_call env arb stock) k0 (sys_trace s) (Absys_brk pid (b + UNIT_SIZE)) = b + UNIT_SIZE"
    using env by (simp add: fresh_unit_env_def sys(1) [symmetric])
  from kernel_ret_answer [OF sys(2) this r(2)] obtain k1 where
    k1: "absys_call env arb stock (Absys_brk pid (b + UNIT_SIZE)) k = ret (b + UNIT_SIZE, k1)" by blast
  then have "sys_absys_brk env arb pid (b + UNIT_SIZE) k = ret (b + UNIT_SIZE, k1)" by (simp add: absys_call_def)
  from unit_brk [OF k r(1) this] show thesis using that k1 by blast
qed

lemma prot_calls_unit:
  "prot_calls pid b 40944 L cs = unit_calls b (map (\<lambda>c. (cd_pid c, check_mem_prot (label_of_u64 (cd_label c))
     (label_of_u64 (cd_ownership c)) L)) (filter (\<lambda>c. cd_pid c \<noteq> pid) cs))"
  by (simp add: prot_calls_def unit_calls_def)

end
