(* ===== verification/Kernel_Fork.thy ===== *)
theory Kernel_Fork
  imports Page_Tables
begin

text \<open>
  The page tables of parent and child after a fork: which pages stay shared, which become
  copy-on-write, and that both tables agree with the areas.
\<close>

section \<open>Fork\<close>

text \<open>
  The pages a fork shares as they are, instead of making them copy-on-write: those of mappings
  that are shared, never writable or arbiter-controlled, and for a thread of a group its data
  segment.
\<close>

definition fork_shares :: "bool \<Rightarrow> mm \<Rightarrow> word32 \<Rightarrow> addr \<Rightarrow> bool" where
  "fork_shares special m f a \<longleftrightarrow> f AND VM_SHARED \<noteq> 0 \<or> f AND VM_MAYWRITE = 0 \<or> f AND VM_AB_CONTROL \<noteq> 0 \<or>
     special \<and> mm_start_data m \<le> a \<and> a < mm_start_brk m"

lemma and_exp_cases: "(f :: word32) AND 2 ^ n = 0 \<or> f AND 2 ^ n = 2 ^ n"
proof (cases "bit f n")
  case True
  then have "f AND 2 ^ n = 2 ^ n" by (intro bit_word_eqI) (auto simp: bit_simps)
  then show ?thesis ..
qed (simp add: and_exp_eq_0_iff_not_bit)

lemma is_cow_mapping_flags:
  "is_cow_mapping f \<longleftrightarrow> f AND VM_SHARED = 0 \<and> f AND VM_MAYWRITE \<noteq> 0 \<and> f AND VM_AB_CONTROL = 0"
proof -
  have c: "VM_SHARED = 2 ^ 3" "VM_MAYWRITE = 2 ^ 5" "VM_AB_CONTROL = 2 ^ 29"
    by (simp_all add: VM_SHARED_def VM_MAYWRITE_def VM_AB_CONTROL_def VM_SAO_def)
  show ?thesis
    using and_exp_cases [of f 3] and_exp_cases [of f 5] and_exp_cases [of f 29]
    unfolding is_cow_mapping_def c bit.conj_disj_distrib by auto
qed

definition copied :: "bool \<Rightarrow> mm \<Rightarrow> word32 \<Rightarrow> addr \<Rightarrow> pte \<Rightarrow> pte \<Rightarrow> pte \<Rightarrow> bool" where
  "copied special m f a e s d \<longleftrightarrow>
     s = (if pte_present e \<and> \<not> fork_shares special m f a then pte_wrprotect e else e) \<and>
     pte_pfn d = pte_pfn s \<and> pte_present d = pte_present s \<and> (\<forall>wrt. hw_access d wrt = hw_access s wrt)"

definition untouched :: "pte \<Rightarrow> pte \<Rightarrow> pte \<Rightarrow> bool" where
  "untouched e s d \<longleftrightarrow> s = e \<and> d = 0"

lemma mark_pfn: "pte_pfn (pte_mkold e) = pte_pfn e" "pte_pfn (pte_mkclean e) = pte_pfn e"
  by (simp_all add: pte_pfn_def pte_mkold_def pte_mkclean_def pte_bits and.assoc)

lemma copy_one_pte_copied:
  assumes "special \<longrightarrow> owner"
  obtains d s where "copy_one_pte special owner m f a e = ret (d, s)" "copied special m f a e s d"
proof (cases "pte_present e")
  case False
  then show thesis by (intro that [of e e]) (simp_all add: copy_one_pte_def copied_def)
next
  case True
  let ?s = "if fork_shares special m f a then e else pte_wrprotect e"
  let ?d = "pte_mkold (if f AND VM_SHARED \<noteq> 0 then pte_mkclean ?s else ?s)"
  have b: "?d AND 0x107 = ?s AND 0x107" by simp
  have "copy_one_pte special owner m f a e = ret (?d, ?s)"
    using True assms by (auto simp: copy_one_pte_def fork_shares_def is_cow_mapping_flags Let_def)
  moreover have "copied special m f a e ?s ?d"
    using True access_bits(1,2) [OF b] unfolding copied_def by (simp add: mark_pfn)
  ultimately show thesis by (rule that)
qed

lemma copied_none [simp]: "copied special m f a 0 0 0"
  by (simp add: copied_def pte_present_def)

text \<open>The two tables after a copy of the pages from \<open>a\<close> to \<open>e\<close> that stopped with \<open>r\<close>.\<close>

definition range_copied :: "bool \<Rightarrow> mm \<Rightarrow> word32 \<Rightarrow> addr \<Rightarrow> addr \<Rightarrow> word32 \<Rightarrow> ptab \<Rightarrow> ptab \<Rightarrow> ptab \<Rightarrow> ptab \<Rightarrow> bool" where
  "range_copied special m f a e r src dst src' dst' \<longleftrightarrow>
     (\<forall>x. if page_aligned x \<and> a \<le> x \<and> x < e
          then copied special m f x (src x) (src' x) (dst' x) \<or> r \<noteq> 0 \<and> untouched (src x) (src' x) (dst' x)
          else src' x = src x \<and> dst' x = dst x)"

definition empty_range :: "addr \<Rightarrow> addr \<Rightarrow> ptab \<Rightarrow> bool" where
  "empty_range a e pt \<longleftrightarrow> (\<forall>x. page_aligned x \<and> a \<le> x \<and> x < e \<longrightarrow> pt x = 0)"

lemma range_copied_first:
  assumes "page_aligned a" "page_aligned e" "a < e" "copied special m f a (src a) s d"
  shows "a + PAGE_SIZE = e \<Longrightarrow> range_copied special m f a e 0 src dst (src(a := s)) (dst(a := d))"
    "range_copied special m f (a + PAGE_SIZE) e r (src(a := s)) (dst(a := d)) src' dst' \<Longrightarrow>
     range_copied special m f a e r src dst src' dst'"
proof -
  note n = aligned_next [OF assms(1-3)]
  show "range_copied special m f a e 0 src dst (src(a := s)) (dst(a := d))" if "a + PAGE_SIZE = e"
    unfolding range_copied_def
  proof
    fix x
    show "if page_aligned x \<and> a \<le> x \<and> x < e
          then copied special m f x (src x) ((src(a := s)) x) ((dst(a := d)) x) \<or>
            (0 :: word32) \<noteq> 0 \<and> untouched (src x) ((src(a := s)) x) ((dst(a := d)) x)
          else (src(a := s)) x = src x \<and> (dst(a := d)) x = dst x"
      using n(4) [of x] that assms by (cases "x = a") (auto simp: not_le)
  qed
  show "range_copied special m f a e r src dst src' dst'"
    if "range_copied special m f (a + PAGE_SIZE) e r (src(a := s)) (dst(a := d)) src' dst'"
    unfolding range_copied_def
  proof
    fix x
    note p = that [unfolded range_copied_def, rule_format, of x]
    show "if page_aligned x \<and> a \<le> x \<and> x < e
          then copied special m f x (src x) (src' x) (dst' x) \<or> r \<noteq> 0 \<and> untouched (src x) (src' x) (dst' x)
          else src' x = src x \<and> dst' x = dst x"
      using p n(1) n(4) [of x] assms by (cases "x = a") (auto simp: not_le split: if_splits)
  qed
qed

lemma copy_entry:
  assumes "special \<longrightarrow> owner" "dst a = 0"
  obtains d s where "copied special m f a (src a) s d"
    "(if pte_none (src a) then ret (src, dst) else bnd (copy_one_pte special owner m f a (src a)) (\<lambda>(d, s). ret (src(a := s), dst(a := d))))
       = ret (src(a := s), dst(a := d))"
proof (cases "pte_none (src a)")
  case True
  then have "src(a := 0) = src" "dst(a := 0) = dst" using assms(2) by (auto simp: pte_none_def)
  then show thesis using True by (intro that [of 0 0]) (simp_all add: pte_none_def)
next
  case False
  obtain d s where "copy_one_pte special owner m f a (src a) = ret (d, s)" "copied special m f a (src a) s d"
    by (rule copy_one_pte_copied [OF assms(1)])
  then show thesis using False by (intro that [of s d]) simp_all
qed

lemma copy_pte_range_run:
  assumes e: "page_aligned e" and sp: "special \<longrightarrow> owner"
  shows "page_aligned a \<Longrightarrow> a < e \<Longrightarrow> empty_range a e dst \<Longrightarrow>
    \<exists>r src' dst'. copy_pte_range env special owner m f a e src dst = ret (r, src', dst') \<and>
      range_copied special m f a e r src dst src' dst'"
proof (induction "unat e - unat a" arbitrary: a src dst rule: less_induct)
  case less
  note n = aligned_next [OF less.prems(1) e less.prems(2)]
  have a0: "dst a = 0" using less.prems by (simp add: empty_range_def)
  show ?case
  proof (cases "ke_pte_alloc env a")
    case False
    have "copy_pte_range env special owner m f a e src dst = ret (- ENOMEM, src, dst)"
      using False by (subst copy_pte_range.simps) simp
    moreover have "range_copied special m f a e (- ENOMEM) src dst src dst"
      using less.prems(3) by (simp add: range_copied_def empty_range_def untouched_def ENOMEM_def)
    ultimately show ?thesis by blast
  next
    case True
    obtain d s where c: "copied special m f a (src a) s d"
      and run: "(if pte_none (src a) then ret (src, dst)
         else bnd (copy_one_pte special owner m f a (src a)) (\<lambda>(d, s). ret (src(a := s), dst(a := d)))) = ret (src(a := s), dst(a := d))"
      by (rule copy_entry [where dst = dst and a = a, OF sp a0])
    note first = range_copied_first [where src = src, OF less.prems(1) e less.prems(2) c]
    show ?thesis
    proof (cases "a + PAGE_SIZE = e")
      case last: True
      have "copy_pte_range env special owner m f a e src dst = ret (0, src(a := s), dst(a := d))"
        using True run last by (subst copy_pte_range.simps) simp
      then show ?thesis using first(1) [OF last] by blast
    next
      case False
      then have lt: "a + PAGE_SIZE < e" using n(2) by simp
      have m: "unat e - unat (a + PAGE_SIZE) < unat e - unat a"
        using n(1) lt by (simp add: word_less_nat_alt)
      have "empty_range (a + PAGE_SIZE) e (dst(a := d))"
        using less.prems(3) n(1) n(4) unfolding empty_range_def by fastforce
      from less.hyps [OF m n(3) lt this, of "src(a := s)"] obtain r src' dst' where
        r: "copy_pte_range env special owner m f (a + PAGE_SIZE) e (src(a := s)) (dst(a := d)) = ret (r, src', dst')"
        and p: "range_copied special m f (a + PAGE_SIZE) e r (src(a := s)) (dst(a := d)) src' dst'" by blast
      have "copy_pte_range env special owner m f a e src dst = ret (r, src', dst')"
        using True run False r by (subst copy_pte_range.simps) simp
      then show ?thesis using first(2) [OF p] by blast
    qed
  qed
qed


definition copies_pages :: "vma \<Rightarrow> bool" where
  "copies_pages v \<longleftrightarrow> vm_flags v AND VM_DONTCOPY = 0 \<and>
     (vm_flags v AND (VM_HUGETLB OR VM_NONLINEAR OR VM_PFNMAP OR VM_INSERTPAGE) \<noteq> 0 \<or> anon_vma v \<noteq> 0)"

text \<open>The tables after the copy of the page at \<open>x\<close> of the area \<open>v\<close>.\<close>

definition page_forked :: "bool \<Rightarrow> mm \<Rightarrow> vma \<Rightarrow> addr \<Rightarrow> word32 \<Rightarrow> pte \<Rightarrow> pte \<Rightarrow> pte \<Rightarrow> bool" where
  "page_forked special m v x r e s d \<longleftrightarrow>
     (if copies_pages v then copied special m (vm_flags v) x e s d \<or> r \<noteq> 0 \<and> untouched e s d else untouched e s d)"

definition area_forked :: "bool \<Rightarrow> mm \<Rightarrow> vma \<Rightarrow> word32 \<Rightarrow> ptab \<Rightarrow> ptab \<Rightarrow> ptab \<Rightarrow> ptab \<Rightarrow> bool" where
  "area_forked special m v r src dst src' dst' \<longleftrightarrow>
     (\<forall>x. if page_aligned x \<and> vm_start v \<le> x \<and> x < vm_end v then page_forked special m v x r (src x) (src' x) (dst' x)
          else src' x = src x \<and> dst' x = dst x)"

lemma copy_page_range_run:
  assumes v: "vma_ok v" "vm_flags v AND VM_HUGETLB = 0" "vm_flags v AND VM_DONTCOPY = 0"
    and sp: "special \<longrightarrow> owner" and z: "empty_range (vm_start v) (vm_end v) dst"
  obtains r src' dst' where "copy_page_range env special owner m v src dst = ret (r, src', dst')"
    "area_forked special m v r src dst src' dst'"
proof (cases "copies_pages v \<and> \<not> (vm_flags v AND VM_PFNMAP \<noteq> 0 \<and> ke_track_pfn env v \<noteq> 0)")
  case True
  have a: "page_aligned (vm_end v)" "page_aligned (vm_start v)" "vm_start v < vm_end v" using v(1) by (simp_all add: vma_ok_def)
  obtain r src' dst' where "copy_pte_range env special owner m (vm_flags v) (vm_start v) (vm_end v) src dst = ret (r, src', dst')"
    "range_copied special m (vm_flags v) (vm_start v) (vm_end v) r src dst src' dst'"
    using copy_pte_range_run [OF a(1) sp a(2,3) z] by blast
  then show thesis
    using True v by (intro that [of r src' dst']) (auto simp: copy_page_range_def copies_pages_def range_copied_def page_forked_def area_forked_def)
next
  case False
  let ?r = "if copies_pages v then ke_track_pfn env v else 0"
  have "copy_page_range env special owner m v src dst = ret (?r, src, dst)"
    using False v by (auto simp: copy_page_range_def copies_pages_def)
  then show thesis
    using False z by (intro that [of ?r src dst]) (auto simp: page_forked_def untouched_def empty_range_def area_forked_def)
qed

definition unlock :: "vma \<Rightarrow> vma" where
  "unlock v = v\<lparr>vm_flags := vm_flags v AND NOT VM_LOCKED\<rparr>"

text \<open>
  The copy of the areas \<open>vs\<close>: \<open>ws\<close> are those the child has got.
\<close>

definition vmas_forked ::
  "bool \<Rightarrow> mm \<Rightarrow> vma list \<Rightarrow> vma list \<Rightarrow> word32 \<Rightarrow> ptab \<Rightarrow> ptab \<Rightarrow> ptab \<Rightarrow> ptab \<Rightarrow> bool" where
  "vmas_forked special m vs ws r src dst src' dst' \<longleftrightarrow>
     (\<exists>n. ws = filter (\<lambda>v. vm_flags v AND VM_DONTCOPY = 0) (take n vs) \<and> (r = 0 \<longrightarrow> length vs \<le> n)) \<and>
     (\<forall>x. (page_aligned x \<longrightarrow> flags_at vs x = None) \<longrightarrow> src' x = src x \<and> dst' x = dst x) \<and>
     (\<forall>v \<in> set vs. \<forall>x. page_aligned x \<and> vm_start v \<le> x \<and> x < vm_end v \<longrightarrow>
        (if v \<in> set ws then page_forked special m v x r (src x) (src' x) (dst' x) else untouched (src x) (src' x) (dst' x)))"


definition empty_vmas :: "vma list \<Rightarrow> ptab \<Rightarrow> bool" where
  "empty_vmas vs pt \<longleftrightarrow> (\<forall>v \<in> set vs. empty_range (vm_start v) (vm_end v) pt)"

lemma vmas_disjoint:
  assumes "vmas_ok (v # vs)" "vm_start v \<le> x" "x < vm_end v"
  shows "flags_at vs x = None"
  using assms by (intro flags_at_above) fastforce

lemma vmas_forkedI:
  assumes "ws = filter (\<lambda>v. vm_flags v AND VM_DONTCOPY = 0) (take n vs)" "r = 0 \<Longrightarrow> length vs \<le> n"
    and "\<And>x. page_aligned x \<longrightarrow> flags_at vs x = None \<Longrightarrow> src' x = src x \<and> dst' x = dst x"
    and "\<And>u x. u \<in> set vs \<Longrightarrow> page_aligned x \<Longrightarrow> vm_start u \<le> x \<Longrightarrow> x < vm_end u \<Longrightarrow>
       if u \<in> set ws then page_forked special m u x r (src x) (src' x) (dst' x) else untouched (src x) (src' x) (dst' x)"
  shows "vmas_forked special m vs ws r src dst src' dst'"
  using assms unfolding vmas_forked_def by blast

lemma vmas_forkedE:
  assumes "vmas_forked special m vs ws r src dst src' dst'"
  obtains n where "ws = filter (\<lambda>v. vm_flags v AND VM_DONTCOPY = 0) (take n vs)" "r = 0 \<longrightarrow> length vs \<le> n"
    "\<And>x. page_aligned x \<longrightarrow> flags_at vs x = None \<Longrightarrow> src' x = src x \<and> dst' x = dst x"
    "\<And>u x. u \<in> set vs \<Longrightarrow> page_aligned x \<Longrightarrow> vm_start u \<le> x \<Longrightarrow> x < vm_end u \<Longrightarrow>
       if u \<in> set ws then page_forked special m u x r (src x) (src' x) (dst' x) else untouched (src x) (src' x) (dst' x)"
  using assms unfolding vmas_forked_def by blast

lemma vmas_forked_none: "empty_vmas vs dst \<Longrightarrow> r \<noteq> 0 \<Longrightarrow> vmas_forked special m vs [] r src dst src dst"
  by (auto simp: vmas_forked_def empty_vmas_def empty_range_def untouched_def intro: exI [of _ 0])

lemma vmas_forked_skip:
  assumes ok: "vmas_ok (v # vs)" "empty_vmas (v # vs) dst" and v: "vm_flags v AND VM_DONTCOPY \<noteq> 0"
    and f: "vmas_forked special m vs ws r src dst src' dst'"
  shows "vmas_forked special m (v # vs) ws r src dst src' dst'"
proof -
  obtain n where n: "ws = filter (\<lambda>v. vm_flags v AND VM_DONTCOPY = 0) (take n vs)" "r = 0 \<longrightarrow> length vs \<le> n"
    and same: "\<And>x. page_aligned x \<longrightarrow> flags_at vs x = None \<Longrightarrow> src' x = src x \<and> dst' x = dst x"
    and rest: "\<And>u x. u \<in> set vs \<Longrightarrow> page_aligned x \<Longrightarrow> vm_start u \<le> x \<Longrightarrow> x < vm_end u \<Longrightarrow>
       if u \<in> set ws then page_forked special m u x r (src x) (src' x) (dst' x) else untouched (src x) (src' x) (dst' x)"
    by (rule vmas_forkedE [OF f]) blast
  have "v \<notin> set ws" using n(1) v by auto
  moreover have "untouched (src x) (src' x) (dst' x)" if "page_aligned x" "vm_start v \<le> x" "x < vm_end v" for x
    using same [of x] vmas_disjoint [OF ok(1) that(2,3)] ok(2) that
    by (simp add: untouched_def empty_vmas_def empty_range_def)
  ultimately show ?thesis
    using n v same rest by (intro vmas_forkedI [of _ "Suc n"]) (auto split: if_splits)
qed

lemma vmas_forked_copy:
  assumes ok: "vmas_ok (v # vs)" and v: "vm_flags v AND VM_DONTCOPY = 0"
    and area: "area_forked special m v r' src dst src1 dst1"
    and f: "vmas_forked special m vs ws r src1 dst1 src' dst'" and r: "r' \<noteq> 0 \<longrightarrow> r \<noteq> 0"
  shows "vmas_forked special m (v # vs) (v # ws) r src dst src' dst'"
proof -
  obtain n where n: "ws = filter (\<lambda>v. vm_flags v AND VM_DONTCOPY = 0) (take n vs)" "r = 0 \<longrightarrow> length vs \<le> n"
    and same: "\<And>x. page_aligned x \<longrightarrow> flags_at vs x = None \<Longrightarrow> src' x = src1 x \<and> dst' x = dst1 x"
    and rest: "\<And>u x. u \<in> set vs \<Longrightarrow> page_aligned x \<Longrightarrow> vm_start u \<le> x \<Longrightarrow> x < vm_end u \<Longrightarrow>
       if u \<in> set ws then page_forked special m u x r (src1 x) (src' x) (dst' x) else untouched (src1 x) (src' x) (dst' x)"
    by (rule vmas_forkedE [OF f]) blast
  note c = area [unfolded area_forked_def, rule_format]
  have own: "page_forked special m v x r (src x) (src' x) (dst' x)" if "page_aligned x" "vm_start v \<le> x" "x < vm_end v" for x
    using c [of x] same [of x] vmas_disjoint [OF ok that(2,3)] that r by (auto simp: page_forked_def)
  have out: "src1 x = src x \<and> \<not> (vm_start v \<le> x \<and> x < vm_end v)" if "u \<in> set vs" "vm_start u \<le> x" for u x
  proof -
    have "vm_end v \<le> x" using ok that by fastforce
    then show ?thesis using c [of x] by (simp add: leD)
  qed
  show ?thesis
  proof (rule vmas_forkedI [of _ "Suc n"])
    show "if u \<in> set (v # ws) then page_forked special m u x r (src x) (src' x) (dst' x) else untouched (src x) (src' x) (dst' x)"
      if "u \<in> set (v # vs)" "page_aligned x" "vm_start u \<le> x" "x < vm_end u" for u x
      using that own rest [of u x] out [of u x] by (cases "u = v") auto
    show "src' x = src x \<and> dst' x = dst x" if "page_aligned x \<longrightarrow> flags_at (v # vs) x = None" for x
      using that same [of x] c [of x] by (auto split: if_splits)
  qed (use n v in auto)
qed

lemma dup_vmas_run:
  assumes sp: "special \<longrightarrow> owner"
  shows "vmas_ok vs \<Longrightarrow> \<forall>v \<in> set vs. vm_flags v AND VM_HUGETLB = 0 \<Longrightarrow> empty_vmas vs dst \<Longrightarrow>
    \<exists>r m' src' dst' ws. dup_vmas env special owner oldmm vs m src dst = ret (r, m', src', dst') \<and>
      mm_mmap m' = mm_mmap m @ map unlock ws \<and> vmas_forked special oldmm vs ws r src dst src' dst'"
proof (induction vs arbitrary: m src dst)
  case Nil
  then show ?case by (simp add: vmas_forked_def)
next
  case (Cons v vs)
  have ok: "vmas_ok vs" "\<forall>v \<in> set vs. vm_flags v AND VM_HUGETLB = 0" "empty_vmas vs dst" "vma_ok v"
    using Cons.prems by (simp_all add: empty_vmas_def)
  consider (skip) "vm_flags v AND VM_DONTCOPY \<noteq> 0"
    | (none) "vm_flags v AND VM_DONTCOPY = 0"
       "vm_flags v AND VM_ACCOUNT \<noteq> 0 \<and> \<not> ke_enough_memory env (vma_pages v) \<or> \<not> ke_vma_alloc env (mm_mmap m) \<or> ke_mpol_dup env v \<noteq> 0"
    | (copy) "vm_flags v AND VM_DONTCOPY = 0"
       "\<not> (vm_flags v AND VM_ACCOUNT \<noteq> 0 \<and> \<not> ke_enough_memory env (vma_pages v))"
       "\<not> (\<not> ke_vma_alloc env (mm_mmap m) \<or> ke_mpol_dup env v \<noteq> 0)"
    by blast
  then show ?case
  proof cases
    case skip
    then show ?thesis
      using Cons.IH [OF ok(1-3), of "m\<lparr>mm_total_vm := mm_total_vm m - vma_pages v\<rparr>" src]
        vmas_forked_skip [OF Cons.prems(1,3) skip] by simp blast
  next
    case none
    then have "dup_vmas env special owner oldmm (v # vs) m src dst = ret (- ENOMEM, m, src, dst)" by auto
    moreover have "- ENOMEM \<noteq> 0" by (simp add: ENOMEM_def)
    note vmas_forked_none [OF Cons.prems(3) this]
    ultimately show ?thesis by fastforce
  next
    case copy
    have z: "vm_flags v AND VM_HUGETLB = 0" "empty_range (vm_start v) (vm_end v) dst" using Cons.prems(2,3) by (simp_all add: empty_vmas_def)
    obtain r1 src1 dst1 where p: "copy_page_range env special owner oldmm v src dst = ret (r1, src1, dst1)"
      and c: "area_forked special oldmm v r1 src dst src1 dst1"
      by (rule copy_page_range_run [OF ok(4) z(1) copy(1) sp z(2), where env = env and m = oldmm and src = src])
    have e1: "empty_vmas vs dst1" unfolding empty_vmas_def empty_range_def
    proof (intro ballI allI impI)
      fix u x assume u: "u \<in> set vs" "page_aligned x \<and> vm_start u \<le> x \<and> x < vm_end u"
      then have "vm_end v \<le> x" using Cons.prems(1) by fastforce
      then have "dst1 x = dst x" using c [unfolded area_forked_def, rule_format, of x] by (simp add: leD)
      then show "dst1 x = 0" using ok(3) u by (simp add: empty_vmas_def empty_range_def)
    qed
    let ?m = "m\<lparr>mm_mmap := mm_mmap m @ [unlock v]\<rparr>"
    have d: "dup_vmas env special owner oldmm (v # vs) m src dst =
        (if r1 \<noteq> 0 then ret (r1, ?m, src1, dst1) else dup_vmas env special owner oldmm vs ?m src1 dst1)"
      using copy p by (auto simp: unlock_def Let_def)
    show ?thesis
    proof (cases "r1 = 0")
      case True
      obtain r m' src' dst' ws where i: "dup_vmas env special owner oldmm vs ?m src1 dst1 = ret (r, m', src', dst')"
        "mm_mmap m' = mm_mmap ?m @ map unlock ws" "vmas_forked special oldmm vs ws r src1 dst1 src' dst'"
        using Cons.IH [OF ok(1,2) e1, of ?m src1] by blast
      have "vmas_forked special oldmm (v # vs) (v # ws) r src dst src' dst'"
        by (rule vmas_forked_copy [OF Cons.prems(1) copy(1) c i(3)]) (use True in auto)
      moreover have "mm_mmap m' = mm_mmap m @ map unlock (v # ws)" using i(2) by simp
      ultimately show ?thesis using i(1) True unfolding d by (intro exI [of _ r] exI [of _ m'] exI [of _ src'] exI [of _ dst'] exI [of _ "v # ws"]) simp
    next
      case False
      have "vmas_forked special oldmm (v # vs) [v] r1 src dst src1 dst1"
        by (rule vmas_forked_copy [OF Cons.prems(1) copy(1) c vmas_forked_none [OF e1 False]]) (use False in auto)
      then show ?thesis using False unfolding d by (intro exI [of _ r1] exI [of _ ?m] exI [of _ src1] exI [of _ dst1] exI [of _ "[v]"]) simp
    qed
  qed
qed


lemma agrees_unlock: "agrees (core_flags (vm_flags (unlock v))) e = agrees (vm_flags v) e"
  by (simp add: agrees_core) (simp add: agrees_def access_allowed_def unlock_def VM_LOCKED_def VM_READ_def VM_WRITE_def VM_EXEC_def and.assoc)

lemma wrprotect_agrees: "agrees f e \<Longrightarrow> agrees f (pte_wrprotect e)"
  by (auto simp: agrees_def hw_access_def pte_present_def pte_wrprotect_def pte_bits and.assoc)

lemma page_forked_agrees:
  assumes "agrees (vm_flags v) e" "page_forked special m v x r e s d"
  shows "agrees (vm_flags v) s" "agrees (vm_flags v) d"
proof -
  have "copied special m (vm_flags v) x e s d \<or> untouched e s d" using assms(2) by (auto simp: page_forked_def split: if_splits)
  moreover have s: "agrees (vm_flags v) s" if "copied special m (vm_flags v) x e s d"
    using that assms(1) wrprotect_agrees by (auto simp: copied_def)
  moreover have "agrees (vm_flags v) d" if "copied special m (vm_flags v) x e s d"
    using s [OF that] that by (simp add: agrees_def copied_def)
  ultimately show "agrees (vm_flags v) s" "agrees (vm_flags v) d" using assms(1) by (auto simp: untouched_def)
qed

lemma unlock_simps [simp]: "vm_start (unlock v) = vm_start v" "vm_end (unlock v) = vm_end v"
  by (simp_all add: unlock_def)

lemma vmas_ok_filtered: "vmas_ok xs \<Longrightarrow> vmas_ok (map unlock (filter P (take n xs)))"
  by (auto simp: vmas_ok_def list_all_iff sorted_wrt_map vma_ok_def dest: in_set_takeD intro!: sorted_wrt_filter sorted_wrt_take)

lemma unlock_huge: "vm_flags (unlock v) AND VM_HUGETLB = vm_flags v AND VM_HUGETLB"
  by (simp add: unlock_def VM_LOCKED_def VM_HUGETLB_def and.assoc)

lemma vmas_forked_pages:
  assumes ok: "vmas_ok (mm_mmap m)" "pages_ok (mm_mmap m) pt" and f: "vmas_forked special m (mm_mmap m) ws r pt (\<lambda>_. 0) src dst"
  shows "pages_ok (mm_mmap m) src" "pages_ok (map unlock ws) dst"
proof -
  obtain n where n: "ws = filter (\<lambda>v. vm_flags v AND VM_DONTCOPY = 0) (take n (mm_mmap m))"
    and same: "\<And>x. page_aligned x \<longrightarrow> flags_at (mm_mmap m) x = None \<Longrightarrow> src x = pt x \<and> dst x = 0"
    and each: "\<And>u x. u \<in> set (mm_mmap m) \<Longrightarrow> page_aligned x \<Longrightarrow> vm_start u \<le> x \<Longrightarrow> x < vm_end u \<Longrightarrow>
       if u \<in> set ws then page_forked special m u x r (pt x) (src x) (dst x) else untouched (pt x) (src x) (dst x)"
    by (rule vmas_forkedE [OF f]) blast
  have ws: "set ws \<subseteq> set (mm_mmap m)" using n by (auto dest: in_set_takeD)
  note pt = pages_okD [OF ok]
  have both: "agrees (vm_flags v) (src x) \<and> agrees (vm_flags v) (dst x)"
    if "v \<in> set (mm_mmap m)" "page_aligned x" "vm_start v \<le> x" "x < vm_end v" for v x
    using each [OF that] pt(2) [OF that(2,1,3,4)] page_forked_agrees [of v "pt x" special m x r "src x" "dst x"]
    by (auto simp: untouched_def split: if_splits)
  show "pages_ok (mm_mmap m) src"
    using same both pt(1) by (intro pages_okI) (auto simp: agrees_core)
  show "pages_ok (map unlock ws) dst"
  proof (rule pages_okI)
    fix x assume x: "page_aligned x" "flags_at (map unlock ws) x = None"
    then have out: "v \<notin> set ws" if "vm_start v \<le> x" "x < vm_end v" for v using that by (auto simp: flags_at_None)
    show "dst x = 0"
    proof (cases "flags_at (mm_mmap m) x")
      case (Some f)
      then obtain v where v: "v \<in> set (mm_mmap m)" "vm_start v \<le> x" "x < vm_end v" using flags_at_Some by blast
      then show ?thesis using each [OF v(1) x(1) v(2,3)] out by (simp add: untouched_def)
    qed (simp add: same)
  next
    fix x v assume "page_aligned x" "v \<in> set (map unlock ws)" "vm_start v \<le> x" "x < vm_end v"
    then show "agrees (core_flags (vm_flags v)) (dst x)" using both ws by (auto simp: agrees_unlock)
  qed
qed

lemma dup_vmas_def_flags:
  "dup_vmas env special owner oldmm vs m src dst = ret (r, m', src', dst') \<Longrightarrow> mm_def_flags m' = mm_def_flags m"
proof (induction vs arbitrary: m src dst)
  case (Cons v vs)
  from Cons.prems show ?case
    by (auto simp: Let_def bnd_eq_ret split: if_splits prod.splits dest!: Cons.IH)
qed simp

lemma unlock_no_huge: "vmas_ok xs \<Longrightarrow> no_huge xs \<Longrightarrow> no_huge (map unlock (filter P (take n xs)))"
  using vmas_ok_filtered [of xs P n] by (auto simp: no_huge_iff unlock_huge dest: in_set_takeD)

lemma dup_mmap_shares:
  assumes ok: "space_ok m" and sp: "special \<longrightarrow> owner"
  shows "\<exists>r m' src. dup_mmap env special owner m = ret (r, m', m\<lparr>mm_pgd := src\<rparr>) \<and> space_ok (m\<lparr>mm_pgd := src\<rparr>) \<and> space_ok m' \<and>
    (r = 0 \<longrightarrow> mm_mmap m' = map unlock (filter (\<lambda>v. vm_flags v AND VM_DONTCOPY = 0) (mm_mmap m)) \<and>
       (\<forall>v \<in> set (mm_mmap m). \<forall>x. page_aligned x \<and> vm_start v \<le> x \<and> x < vm_end v \<longrightarrow>
          (if copies_pages v then copied special m (vm_flags v) x (mm_pgd m x) (src x) (mm_pgd m' x)
           else untouched (mm_pgd m x) (src x) (mm_pgd m' x))))"
proof (cases "ke_ksm_fork env = 0")
  case False
  then show ?thesis
    using ok by (intro exI [of _ "ke_ksm_fork env"] exI [of _ "m\<lparr>mm_mmap := [], mm_locked_vm := 0, mm_pgd := \<lambda>_. 0\<rparr>"] exI [of _ "mm_pgd m"])
      (simp add: dup_mmap_def Let_def space_ok_def table_ok_def no_huge_def pages_ok_def pte_none_def)
next
  case True
  let ?m = "m\<lparr>mm_mmap := [], mm_locked_vm := 0, mm_pgd := \<lambda>_. 0\<rparr>"
  let ?pt = "mm_pgd m"
  have vs: "vmas_ok (mm_mmap m)" "no_huge (mm_mmap m)" "pages_ok (mm_mmap m) ?pt" "mm_def_flags m AND VM_HUGETLB = 0"
    using ok by (simp_all add: space_ok_def table_ok_def)
  have h: "\<forall>v \<in> set (mm_mmap m). vm_flags v AND VM_HUGETLB = 0" using vs no_huge_iff by blast
  have e: "empty_vmas (mm_mmap m) (\<lambda>_. 0)" by (simp add: empty_vmas_def empty_range_def)
  obtain r m' src dst ws where d: "dup_vmas env special owner m (mm_mmap m) ?m ?pt (\<lambda>_. 0) = ret (r, m', src, dst)"
    "mm_mmap m' = mm_mmap ?m @ map unlock ws" "vmas_forked special m (mm_mmap m) ws r ?pt (\<lambda>_. 0) src dst"
    using dup_vmas_run [OF sp vs(1) h e, of env m ?m ?pt] by blast
  have m': "mm_mmap m' = map unlock ws" "mm_def_flags m' = mm_def_flags m" using d(2) dup_vmas_def_flags [OF d(1)] by simp_all
  obtain n where n: "ws = filter (\<lambda>v. vm_flags v AND VM_DONTCOPY = 0) (take n (mm_mmap m))" "r = 0 \<longrightarrow> length (mm_mmap m) \<le> n"
    and each: "\<And>u x. u \<in> set (mm_mmap m) \<Longrightarrow> page_aligned x \<Longrightarrow> vm_start u \<le> x \<Longrightarrow> x < vm_end u \<Longrightarrow>
       if u \<in> set ws then page_forked special m u x r (?pt x) (src x) (dst x) else untouched (?pt x) (src x) (dst x)"
    by (rule vmas_forkedE [OF d(3)]) blast
  note p = vmas_forked_pages [OF vs(1,3) d(3)]
  have "space_ok (m'\<lparr>mm_pgd := dst\<rparr>)"
    using p(2) vmas_ok_filtered [OF vs(1)] unlock_no_huge [OF vs(1,2)] vs(4) by (simp add: space_ok_def table_ok_def m' n(1))
  moreover have "space_ok (m\<lparr>mm_pgd := src\<rparr>)" using p(1) vs by (simp add: space_ok_def table_ok_def)
  moreover have "if copies_pages v then copied special m (vm_flags v) x (?pt x) (src x) (dst x) else untouched (?pt x) (src x) (dst x)"
    if "r = 0" "v \<in> set (mm_mmap m)" "page_aligned x" "vm_start v \<le> x" "x < vm_end v" for v x
    using each [OF that(2-5)] n that(1,2) by (auto simp: page_forked_def copies_pages_def split: if_splits)
  moreover have "dup_mmap env special owner m = ret (r, m'\<lparr>mm_pgd := dst\<rparr>, m\<lparr>mm_pgd := src\<rparr>)"
    using d(1) True by (simp add: dup_mmap_def Let_def)
  ultimately show ?thesis using n by (intro exI [of _ r] exI [of _ "m'\<lparr>mm_pgd := dst\<rparr>"] exI [of _ src]) (simp add: m')
qed

text \<open>
  Property C10.  A fork of an address space whose page table agrees with its areas returns, and leaves a
  table that agrees in the parent and in the child.  When it succeeds, the child has every area
  but the \<^verbatim>\<open>VM_DONTCOPY\<close> ones, and each copied page maps the same frame with the same access as the
  parent keeps: write access stays for shared and arbiter-controlled pages and for the data
  segment of a thread of a group, and is taken from both for any other page.
\<close>

theorem fork_pages_shared:
  assumes ok: "space_ok m" and sp: "special \<longrightarrow> owner"
  shows "\<exists>r m' src. dup_mmap env special owner m = ret (r, m', m\<lparr>mm_pgd := src\<rparr>) \<and> space_ok (m\<lparr>mm_pgd := src\<rparr>) \<and> space_ok m' \<and>
    (r = 0 \<longrightarrow> mm_mmap m' = map unlock (filter (\<lambda>v. vm_flags v AND VM_DONTCOPY = 0) (mm_mmap m)) \<and>
       (\<forall>v \<in> set (mm_mmap m). \<forall>x. page_aligned x \<and> vm_start v \<le> x \<and> x < vm_end v \<longrightarrow>
          (if copies_pages v then copied special m (vm_flags v) x (mm_pgd m x) (src x) (mm_pgd m' x)
           else untouched (mm_pgd m x) (src x) (mm_pgd m' x))))"
  by (rule dup_mmap_shares [OF assms])

theorem fork_pages_shared_witness:
  "\<exists>r m' src. dup_mmap env_example True True read_example = ret (r, m', read_example\<lparr>mm_pgd := src\<rparr>) \<and> space_ok m'"
  using fork_pages_shared [OF read_example_ok, of True True env_example] by blast

end
