(* ===== verification/Kernel_Spawn.thy ===== *)
theory Kernel_Spawn
  imports Kernel_Fork
begin

text \<open>
  A new thread: \<^verbatim>\<open>do_fork\<close> with the copy of the address space (\<^verbatim>\<open>copy_mm\<close>, \<^verbatim>\<open>dup_mm\<close> in \<^verbatim>\<open>kernel/fork.c\<close>), after
  which the child makes itself a thread of the group with \<^verbatim>\<open>absys_thread_control\<close>; and the group as
  a state machine in which threads join.
\<close>

section \<open>Fork\<close>

text \<open>
  \<open>new_mm\<close> is the pointer \<^verbatim>\<open>allocate_mm\<close> returns, 0 when it, \<^verbatim>\<open>mm_init\<close> or \<^verbatim>\<open>init_new_context\<close> fails; \<open>owner\<close> is \<^verbatim>\<open>current == oldmm->owner\<close>
  and \<open>binfmt\<close> whether the module of the binary format could be taken.
\<close>

definition dup_mm :: "kenv \<Rightarrow> bool \<Rightarrow> bool \<Rightarrow> pid \<Rightarrow> addr \<Rightarrow> bool kcall" where
  "dup_mm env owner binfmt current new_mm =
     sb (get_task current) (\<lambda>t s.
     if tk_mm t = 0 \<or> new_mm = 0 then ret (False, s)
     else case mms s (tk_mm t) of
            None \<Rightarrow> fail Segv
          | Some oldmm \<Rightarrow>
              bnd (dup_mmap env (is_special t) owner oldmm) (\<lambda>(err, m, oldmm').
              let s' = s\<lparr>mms := (mms s)(tk_mm t \<mapsto> oldmm')\<rparr>
              in if err \<noteq> 0 \<or> \<not> binfmt then ret (False, s')
                 else ret (True, s'\<lparr>mms := (mms s')(new_mm \<mapsto> m)\<rparr>)))"

definition copy_mm :: "kenv \<Rightarrow> bool \<Rightarrow> bool \<Rightarrow> bool \<Rightarrow> pid \<Rightarrow> addr \<Rightarrow> (word32 \<times> addr) kcall" where
  "copy_mm env owner binfmt clone_vm current new_mm =
     sb (get_task current) (\<lambda>t.
     if tk_mm t = 0 then sret (0, 0)
     else if clone_vm then sret (0, tk_mm t)
     else sb (dup_mm env owner binfmt current new_mm) (\<lambda>ok.
          sret (if ok then (0, new_mm) else (- ENOMEM, 0))))"

text \<open>
  \<^verbatim>\<open>do_fork\<close> from the copy of the address space on, when the other steps of \<^verbatim>\<open>copy_process\<close> succeed; it returns the child or
  an error number.
\<close>

definition fork_process :: "kenv \<Rightarrow> bool \<Rightarrow> bool \<Rightarrow> bool \<Rightarrow> bool \<Rightarrow> addr \<Rightarrow> pid \<Rightarrow> pid \<Rightarrow> word32 kcall" where
  "fork_process env owner binfmt clone_vm clone_parent new_mm child current =
     sb (copy_mm env owner binfmt clone_vm current new_mm) (\<lambda>(err, m).
     if err \<noteq> 0 then sret err
     else sb (do_fork current child m clone_parent) (\<lambda>_. sret child))"

section \<open>What a fork does to a group\<close>

text \<open>What the child gets: the areas of the parent but those that are not to be copied.\<close>

definition inherits :: "mm \<Rightarrow> mm \<Rightarrow> bool" where
  "inherits m m' \<longleftrightarrow> space_ok m' \<and> mm_mmap m' = map unlock (filter (\<lambda>v. vm_flags v AND VM_DONTCOPY = 0) (mm_mmap m))"

lemma dup_mm_run:
  assumes t: "tasks s p = Some t" "mm_of s p = Some m" "space_ok m" "mm_id s p \<noteq> 0" "is_special t \<longrightarrow> owner"
    and n: "new_mm \<noteq> 0 \<longrightarrow> mms s new_mm = None"
  obtains ok src m' where "dup_mm env owner binfmt p new_mm s =
      ret (ok, s\<lparr>mms := if ok then (mms s)(mm_id s p \<mapsto> m\<lparr>mm_pgd := src\<rparr>, new_mm \<mapsto> m') else (mms s)(mm_id s p \<mapsto> m\<lparr>mm_pgd := src\<rparr>)\<rparr>)"
    "space_ok (m\<lparr>mm_pgd := src\<rparr>)" "ok \<longrightarrow> inherits m m'" "ok \<longrightarrow> new_mm \<noteq> 0"
proof (cases "new_mm = 0")
  case True
  then show thesis
    using t mm_of_same [OF t(2)] by (intro that [of False "mm_pgd m" m]) (simp_all add: dup_mm_def sb_def)
next
  case False
  have i: "tk_mm t = mm_id s p" "mms s (mm_id s p) = Some m" using t(1,2) by (auto simp: mm_id_def mm_of_def)
  obtain r m' src where d: "dup_mmap env (is_special t) owner m = ret (r, m', m\<lparr>mm_pgd := src\<rparr>)" "space_ok (m\<lparr>mm_pgd := src\<rparr>)" "space_ok m'"
    "r = 0 \<longrightarrow> mm_mmap m' = map unlock (filter (\<lambda>v. vm_flags v AND VM_DONTCOPY = 0) (mm_mmap m))"
    using dup_mmap_shares [OF t(3,5), of env] by blast
  show thesis
    by (rule that [of "r = 0 \<and> binfmt" src m'])
      (use t(1,4) n False i d in \<open>auto simp: dup_mm_def sb_def Let_def inherits_def\<close>)
qed

lemma machine_task:
  assumes "machine_ok arb cs s" "p \<in> set (arb # cs)"
  obtains t m where "tasks s p = Some t" "mm_of s p = Some m" "space_ok m" "mm_id s p \<noteq> 0" "mms s (mm_id s p) = Some m"
proof -
  have "group_spaces s arb cs" using assms(1) by (simp add: machine_ok_def)
  then obtain m where m: "mm_of s p = Some m" using assms(2) by (rule group_spaces_mm)
  then obtain t where "tasks s p = Some t" using mm_of_task by blast
  moreover have "mm_id s p \<noteq> 0" using assms(1) imageI [OF assms(2), of "mm_id s"] by (metis machine_ok_def)
  moreover have "space_ok m" using assms m unfolding machine_ok_def tables_ok_def by blast
  ultimately show thesis using that [of t m] m by (simp add: mm_of_def mm_id_def)
qed

text \<open>A task and an address space that the group does not have yet.\<close>

lemma machine_extend:
  fixes m :: mm and t :: task
  assumes ok: "machine_ok arb cs s" and n: "child \<notin> set (arb # cs)" "i \<notin> mm_id s ` set (arb # cs)"
  defines "s' \<equiv> s\<lparr>mms := (mms s)(i \<mapsto> m), tasks := (tasks s)(child \<mapsto> t)\<rparr>"
  shows "machine_ok arb cs s' \<and> (\<forall>p \<in> set (arb # cs). mm_id s' p = mm_id s p \<and> mm_of s' p = mm_of s p)"
proof -
  have g: "group_spaces s arb cs" using ok by (simp add: machine_ok_def)
  have ts: "tasks s' p = tasks s p" if "p \<in> set (arb # cs)" for p using that n(1) by (auto simp: s'_def)
  have id: "mm_id s' p = mm_id s p" if "p \<in> set (arb # cs)" for p using ts [OF that] by (simp add: mm_id_def)
  have at: "mm_of s' p = mm_of s p" if p: "p \<in> set (arb # cs)" for p
  proof -
    obtain m where "mm_of s p = Some m" by (rule group_spaces_mm [OF g p])
    then obtain tp where "tasks s p = Some tp" using mm_of_task by blast
    moreover from this have "tk_mm tp \<noteq> i" using n(2) imageI [OF p, of "mm_id s"] by (auto simp: mm_id_def)
    ultimately show ?thesis using ts [OF p] by (simp add: mm_of_def) (simp add: s'_def)
  qed
  have "ring (tasks s') arb cs = ring (tasks s) arb cs" by (rule ring_cong) (use ts in auto)
  then have "group (tasks s') arb cs" using g ts by (auto simp: group_spaces_def group_def arbiter_at_def)
  moreover have "mm_id s' ` set (arb # cs) = mm_id s ` set (arb # cs)" using id by (intro image_cong) auto
  moreover have "map (mm_id s') (arb # cs) = map (mm_id s) (arb # cs)" using id by (intro map_cong) auto
  moreover have "\<exists>m. mm_of s' p = Some m \<and> vmas_ok (mm_mmap m) \<and> space_ok m" if p: "p \<in> set (arb # cs)" for p
    using at [OF p] machine_task [OF ok p] by (metis space_ok_def)
  moreover have "\<exists>t. tasks s' c = Some t \<and> is_special t" if "c \<in> set cs" for c using ok ts that by (simp add: machine_ok_def)
  moreover have "distinct (map (mm_id s) (arb # cs))" "0 \<notin> mm_id s ` set (arb # cs)"
    using ok by (simp_all add: machine_ok_def group_spaces_def ready_def)
  ultimately have "machine_ok arb cs s'" unfolding machine_ok_def group_spaces_def ready_def tables_ok_def by (metis option.inject)
  then show ?thesis using id at by blast
qed

lemma do_fork_run:
  assumes "tasks s p = Some t"
  shows "do_fork p child i False s = ret ((), s\<lparr>tasks := (tasks s)(child \<mapsto>
    t\<lparr>tk_parent := p, tk_mm := i, ab_next := child, ab_prev := child, ab_identity := 0\<rparr>)\<rparr>)"
  using assms by (simp add: do_fork_def sb_def modify_def INIT_LIST_HEAD_def upd_task_def)

lemma get_category_kept: "get_category (t\<lparr>ab_identity := convert_to_identity (get_category u) AB_SET_ME_SPECIAL\<rparr>) = get_category u"
  by (rule bit_word_eqI) (auto simp: get_category_def convert_to_identity_def AB_SET_ME_SPECIAL_def mult.commute [of _ "2::word32"] bit_double_iff bit_simps)

text \<open>A fork by a member, with a task and an address space that are new.\<close>

definition newborn :: "task \<Rightarrow> pid \<Rightarrow> pid \<Rightarrow> addr \<Rightarrow> task" where
  "newborn t p child i = t\<lparr>tk_parent := p, tk_mm := i, ab_next := child, ab_prev := child, ab_identity := 0\<rparr>"

lemma fork_run:
  assumes ok: "machine_ok arb cs s" and p: "p \<in> set (arb # cs)" "tasks s p = Some t" "is_special t \<longrightarrow> owner"
    and n: "tasks s child = None" "new_mm \<noteq> 0 \<longrightarrow> mms s new_mm = None"
  obtains (forked) m m' s1 s' where "fork_process env owner binfmt False False new_mm child p s = ret (child, s')"
      "machine_ok arb cs s1" "members_still cs s s1" "only_spaces s s1 (arb # cs)" "mm_of s p = Some m" "inherits m m'"
      "s' = s1\<lparr>mms := (mms s1)(new_mm \<mapsto> m'), tasks := (tasks s1)(child \<mapsto> newborn t p child new_mm)\<rparr>" "new_mm \<noteq> 0"
  | (failed) s' where "fork_process env owner binfmt False False new_mm child p s = ret (- ENOMEM, s')"
      "machine_ok arb cs s'" "members_still cs s s'" "only_spaces s s' (arb # cs)"
proof -
  obtain m where m: "mm_of s p = Some m" "space_ok m" "mm_id s p \<noteq> 0" by (rule machine_task [OF ok p(1)])
  obtain b src m' where d: "dup_mm env owner binfmt p new_mm s =
      ret (b, s\<lparr>mms := if b then (mms s)(mm_id s p \<mapsto> m\<lparr>mm_pgd := src\<rparr>, new_mm \<mapsto> m') else (mms s)(mm_id s p \<mapsto> m\<lparr>mm_pgd := src\<rparr>)\<rparr>)"
    "space_ok (m\<lparr>mm_pgd := src\<rparr>)" "b \<longrightarrow> inherits m m'" "b \<longrightarrow> new_mm \<noteq> 0"
    by (rule dup_mm_run [OF p(2) m p(3) n(2)])
  let ?s = "s\<lparr>mms := (mms s)(mm_id s p \<mapsto> m\<lparr>mm_pgd := src\<rparr>)\<rparr>"
  have k: "machine_ok arb cs ?s" "members_still cs s ?s" "only_spaces s ?s (arb # cs)"
    using machine_member_upd [OF ok p(1) m(1) d(2)] still_refl by simp_all
  have i: "tk_mm t \<noteq> 0" using m(3) p(2) by (simp add: mm_id_def)
  show thesis
  proof (cases b)
    case True
    show thesis
      by (rule forked [OF _ k m(1) mp [OF d(3) True]])
        (use True d(1,4) p(2) i in \<open>simp_all add: fork_process_def copy_mm_def sb_def do_fork_run newborn_def\<close>)
  next
    case False
    have "- ENOMEM \<noteq> 0" by (simp add: ENOMEM_def)
    then show thesis
      by (intro failed [OF _ k]) (use False d(1) p(2) i in \<open>simp add: fork_process_def copy_mm_def sb_def\<close>)
  qed
qed

lemma chain_unique:
  "chain ts p xs q \<Longrightarrow> chain ts p ys q \<Longrightarrow> q \<notin> set xs \<Longrightarrow> q \<notin> set ys \<Longrightarrow> xs = ys"
proof (induction xs arbitrary: p ys)
  case Nil
  then show ?case by (cases ys) auto
next
  case (Cons x xs)
  then show ?case by (cases ys) auto
qed

lemma ring_unique: "ring ts h xs \<Longrightarrow> ring ts h ys \<Longrightarrow> xs = ys"
  using chain_unique by (fastforce simp: ring_def)

lemma is_special_cong: "ab_identity t = ab_identity u \<Longrightarrow> is_special t = is_special u"
  by (simp add: is_special_def is_arbiter_def get_role_def is_common_def get_category_def)

lemma joined_special:
  assumes "ab_identity t = convert_to_identity (get_category par) AB_SET_ME_SPECIAL" "\<not> is_common par"
  shows "is_special t"
proof -
  let ?u = "t\<lparr>ab_identity := convert_to_identity (get_category par) AB_SET_ME_SPECIAL\<rparr>"
  have "is_special ?u" using assms(2) get_category_kept [where t = t and u = par] unfolding is_special_def is_common_def by simp
  then show ?thesis using is_special_cong [of t ?u] assms(1) by simp
qed

text \<open>What the ring of the group gets when a task with an address space of its own joins.\<close>

definition same_line :: "kern \<Rightarrow> kern \<Rightarrow> bool" where
  "same_line s s' \<longleftrightarrow> mms s' = mms s \<and>
     (\<forall>x. map_option (\<lambda>t. (tk_mm t, tk_parent t)) (tasks s' x) = map_option (\<lambda>t. (tk_mm t, tk_parent t)) (tasks s x))"

lemma same_lineD:
  assumes "same_line s s'"
  shows "mm_of s' x = mm_of s x" "mms s' = mms s" "tasks s' x = None \<longleftrightarrow> tasks s x = None"
    "tasks s x = Some t \<Longrightarrow> \<exists>t'. tasks s' x = Some t' \<and> tk_mm t' = tk_mm t \<and> tk_parent t' = tk_parent t"
    "tasks s x \<noteq> None \<Longrightarrow> mm_id s' x = mm_id s x"
proof -
  have l: "map_option (\<lambda>t. (tk_mm t, tk_parent t)) (tasks s' x) = map_option (\<lambda>t. (tk_mm t, tk_parent t)) (tasks s x)"
    and mm: "mms s' = mms s" using assms by (simp_all add: same_line_def)
  show "mms s' = mms s" by (rule mm)
  show "mm_of s' x = mm_of s x" "tasks s' x = None \<longleftrightarrow> tasks s x = None"
    "tasks s x = Some t \<Longrightarrow> \<exists>t'. tasks s' x = Some t' \<and> tk_mm t' = tk_mm t \<and> tk_parent t' = tk_parent t"
    "tasks s x \<noteq> None \<Longrightarrow> mm_id s' x = mm_id s x"
    using l mm by (cases "tasks s x"; cases "tasks s' x"; simp add: mm_of_def mm_id_def)+
qed

lemma spaces_join:
  assumes ok: "machine_ok arb cs s" and l: "same_line s s'" and g: "group (tasks s') arb cs'" "set cs' = insert child (set cs)"
    and m: "tasks s child \<noteq> None" "mm_of s child = Some m" "space_ok m" "mm_id s child \<noteq> 0" "mm_id s child \<notin> mm_id s ` set (arb # cs)"
  shows "group_spaces s' arb cs' \<and> tables_ok s' arb cs' \<and> 0 \<notin> mm_id s' ` set (arb # cs')"
proof -
  have d: "distinct (map (mm_id s) (arb # cs))" and z: "0 \<notin> mm_id s ` set (arb # cs)"
    using ok by (simp_all add: machine_ok_def group_spaces_def ready_def)
  have s: "set (arb # cs') = insert child (set (arb # cs))" using g(2) by auto
  have all: "mm_id s' x = mm_id s x \<and> (\<exists>m. mm_of s' x = Some m \<and> vmas_ok (mm_mmap m) \<and> space_ok m)" if "x \<in> set (arb # cs')" for x
  proof (cases "x = child")
    case True
    then show ?thesis using m(1-3) same_lineD(1,5) [OF l, of child] by (simp add: space_ok_def)
  next
    case False
    then have "x \<in> set (arb # cs)" using that s by auto
    then obtain t m where "tasks s x = Some t" "mm_of s x = Some m" "space_ok m" using machine_task [OF ok] by metis
    then show ?thesis using same_lineD(1,5) [OF l, of x] by (simp add: space_ok_def)
  qed
  have im: "mm_id s' ` set (arb # cs') = insert (mm_id s child) (mm_id s ` set (arb # cs))"
    using image_cong [OF refl, of "set (arb # cs')" "mm_id s'" "mm_id s"] all unfolding s by auto
  have "distinct (arb # cs')" using g(1) by (simp add: group_def ring_def)
  moreover have "inj_on (mm_id s) (insert child (set (arb # cs)))" using d m(5) by (auto simp: distinct_map)
  then have "inj_on (mm_id s') (set (arb # cs'))" using all unfolding s by (simp add: inj_on_def)
  ultimately have "distinct (map (mm_id s') (arb # cs'))" by (simp only: distinct_map)
  then show ?thesis
    unfolding group_spaces_def ready_def tables_ok_def using g(1) all im z m(4) by (metis (no_types, lifting) insert_iff option.inject)
qed

lemma join_run:
  assumes ok: "machine_ok arb cs s" and c: "tasks s child = Some t" "child \<notin> set (arb # cs)"
    and p: "tk_parent t \<in> set (arb # cs)" "tasks s (tk_parent t) = Some par" "\<not> is_common par"
    and m: "mm_of s child = Some m" "space_ok m" "mm_id s child \<noteq> 0" "mm_id s child \<notin> mm_id s ` set (arb # cs)"
  obtains s' cs' where "sys_absys_thread_control child AB_SET_ME_SPECIAL s = ret (0, s')" "machine_ok arb cs' s'"
    "set cs' = insert child (set cs)" "same_line s s'"
    "\<forall>x. x \<noteq> child \<longrightarrow> map_option ab_identity (tasks s' x) = map_option ab_identity (tasks s x)"
proof -
  have g: "group (tasks s) arb cs" using ok by (simp add: machine_ok_def group_spaces_def)
  obtain s' cs' t' where r: "sys_absys_thread_control child AB_SET_ME_SPECIAL s = ret (0, s')" "group (tasks s') arb cs'"
    "set cs' = insert child (set cs)" "tasks s' child = Some t'"
    "ab_identity t' = convert_to_identity (get_category par) AB_SET_ME_SPECIAL"
    and others: "\<forall>x. x \<noteq> child \<longrightarrow> map_option ab_identity (tasks s' x) = map_option ab_identity (tasks s x)"
    and l: "same_line s s'"
    using thread_control_run [OF g c p(1,2)] unfolding same_line_def by blast
  have special: "\<exists>u. tasks s' x = Some u \<and> is_special u" if x: "x \<in> set cs'" for x
  proof (cases "x = child")
    case True
    then show ?thesis using r(4) joined_special [OF r(5) p(3)] by simp
  next
    case False
    then obtain u where u: "tasks s x = Some u" "is_special u" using ok x r(3) by (auto simp: machine_ok_def)
    then obtain v where "tasks s' x = Some v" "ab_identity v = ab_identity u" using others False by fastforce
    then show ?thesis using u(2) is_special_cong by blast
  qed
  have "group_spaces s' arb cs' \<and> tables_ok s' arb cs' \<and> 0 \<notin> mm_id s' ` set (arb # cs')"
    by (rule spaces_join [OF ok l r(2,3) _ m]) (simp add: c(1))
  then have "machine_ok arb cs' s'" using special unfolding machine_ok_def by blast
  then show thesis using that r(1,3) l others by blast
qed

section \<open>The group with its newcomers\<close>

text \<open>
  The newcomers of a group are the tasks its members have forked that have not joined it yet, each with an
  address space of its own.
\<close>

definition newcomer :: "pid \<Rightarrow> pid list \<Rightarrow> kern \<Rightarrow> pid \<Rightarrow> bool" where
  "newcomer arb cs s n \<longleftrightarrow> n \<notin> set (arb # cs) \<and> mm_id s n \<noteq> 0 \<and> mm_id s n \<notin> mm_id s ` set (arb # cs) \<and>
     (\<exists>t m. tasks s n = Some t \<and> tk_parent t \<in> set (arb # cs) \<and> mm_of s n = Some m \<and> space_ok m)"

definition system_ok :: "pid \<Rightarrow> pid list \<Rightarrow> pid list \<Rightarrow> kern \<Rightarrow> bool" where
  "system_ok arb cs ns s \<longleftrightarrow> machine_ok arb cs s \<and> (\<exists>ta. tasks s arb = Some ta \<and> \<not> is_common ta) \<and>
     distinct (map (mm_id s) ns) \<and> (\<forall>n \<in> set ns. newcomer arb cs s n)"

lemma system_member:
  assumes "system_ok arb cs ns s" "p \<in> set (arb # cs)" "tasks s p = Some t"
  shows "\<not> is_common t"
  using assms by (auto simp: system_ok_def machine_ok_def is_special_def)

lemma system_newcomer:
  assumes "system_ok arb cs ns s" "n \<in> set ns"
  obtains t m where "tasks s n = Some t" "n \<notin> set (arb # cs)" "tk_parent t \<in> set (arb # cs)" "mm_of s n = Some m" "space_ok m"
    "mm_id s n \<noteq> 0" "mm_id s n \<notin> mm_id s ` set (arb # cs)"
  using assms unfolding system_ok_def newcomer_def by blast

lemma system_spaces:
  assumes ok: "system_ok arb cs ns s" and "machine_ok arb cs s'" and o: "only_spaces s s' (arb # cs)"
  shows "system_ok arb cs ns s'"
proof -
  have "newcomer arb cs s' n" if "newcomer arb cs s n" for n
    using that only_spaces_id [OF o] only_spaces_other [OF o, of n] o unfolding newcomer_def only_spaces_def by simp
  then show ?thesis using assms only_spaces_id [OF o] by (simp add: system_ok_def only_spaces_def)
qed

lemma system_extend:
  fixes t :: task
  assumes ok: "system_ok arb cs ns s" and n: "tasks s child = None" "i \<noteq> 0" "mms s i = None"
    and p: "p \<in> set (arb # cs)" and m: "space_ok m"
  defines "s' \<equiv> s\<lparr>mms := (mms s)(i \<mapsto> m), tasks := (tasks s)(child \<mapsto> newborn t p child i)\<rparr>"
  shows "system_ok arb cs (child # ns) s' \<and> mm_of s' child = Some m \<and> (\<forall>q \<in> set (arb # cs). mm_of s' q = mm_of s q)"
proof -
  have ok': "machine_ok arb cs s" using ok by (simp add: system_ok_def)
  have other: "x \<noteq> child \<and> mm_id s x \<noteq> i" if "mm_of s x = Some k" for x k
    using that n(1,3) by (auto simp: mm_of_def mm_id_def bind_eq_Some_conv)
  have mem: "x \<noteq> child \<and> mm_id s x \<noteq> i" if "x \<in> set (arb # cs)" for x using machine_task [OF ok' that] other by metis
  have new: "x \<noteq> child \<and> mm_id s x \<noteq> i" if "x \<in> set ns" for x using system_newcomer [OF ok that] other by metis
  have c: "child \<notin> set (arb # cs)" "i \<notin> mm_id s ` set (arb # cs)" using mem by blast+
  have k: "machine_ok arb cs s'" "\<forall>p \<in> set (arb # cs). mm_id s' p = mm_id s p \<and> mm_of s' p = mm_of s p"
    unfolding s'_def using machine_extend [OF ok' c] by blast+
  have im: "mm_id s' ` set (arb # cs) = mm_id s ` set (arb # cs)" using k(2) by (intro image_cong) auto
  have at: "mm_id s' child = i" "mm_of s' child = Some m" "tasks s' child = Some (newborn t p child i)"
    by (simp_all add: s'_def mm_id_def mm_of_def newborn_def)
  have "newcomer arb cs s' child" using c at im n(2) p m unfolding newcomer_def by (simp add: newborn_def)
  moreover have old: "mm_id s' x = mm_id s x" "newcomer arb cs s' x" if x: "x \<in> set ns" for x
  proof -
    have w: "newcomer arb cs s x" using ok x by (simp add: system_ok_def)
    show "mm_id s' x = mm_id s x" using new [OF x] by (simp add: s'_def mm_id_def)
    moreover have "tasks s' x = tasks s x" using new [OF x] by (simp add: s'_def)
    moreover have "mm_of s' x = mm_of s x" using w new [OF x] by (auto simp: newcomer_def mm_of_def mm_id_def s'_def)
    ultimately show "newcomer arb cs s' x" using w im unfolding newcomer_def by simp
  qed
  moreover have "distinct (map (mm_id s') (child # ns))"
  proof -
    have "map (mm_id s') ns = map (mm_id s) ns" using old(1) by simp
    moreover have "i \<notin> mm_id s ` set ns" using new by blast
    ultimately show ?thesis using ok at(1) unfolding system_ok_def by (metis distinct.simps(2) list.set_map list.simps(9))
  qed
  moreover have "tasks s' arb = tasks s arb" using c(1) by (auto simp: s'_def)
  ultimately show ?thesis using ok k at(2) unfolding system_ok_def by (metis set_ConsD)
qed

lemma fork_system:
  assumes ok: "system_ok arb cs ns s" and p: "p \<in> set (arb # cs)" "tasks s p = Some t" "is_special t \<longrightarrow> owner"
    and n: "tasks s child = None" "new_mm \<noteq> 0 \<longrightarrow> mms s new_mm = None"
  obtains (forked) s' m m' where "fork_process env owner binfmt False False new_mm child p s = ret (child, s')"
      "system_ok arb cs (child # ns) s'" "members_still cs s s'" "mm_of s p = Some m" "mm_of s' child = Some m'" "inherits m m'"
  | (failed) s' where "fork_process env owner binfmt False False new_mm child p s = ret (- ENOMEM, s')"
      "system_ok arb cs ns s'" "members_still cs s s'" "tasks s' = tasks s"
proof -
  have mo: "machine_ok arb cs s" using ok by (simp add: system_ok_def)
  show thesis
  proof (rule fork_run [OF mo p n, of env binfmt])
    fix m m' s1 s'
    assume f: "fork_process env owner binfmt False False new_mm child p s = ret (child, s')"
      "machine_ok arb cs s1" "members_still cs s s1" "only_spaces s s1 (arb # cs)" "mm_of s p = Some m" "inherits m m'"
      "s' = s1\<lparr>mms := (mms s1)(new_mm \<mapsto> m'), tasks := (tasks s1)(child \<mapsto> newborn t p child new_mm)\<rparr>" "new_mm \<noteq> 0"
    have ok1: "system_ok arb cs ns s1" by (rule system_spaces [OF ok f(2,4)])
    have n0: "mms s new_mm = None" using f(8) n(2) by simp
    then have "new_mm \<notin> mm_id s ` set (arb # cs)" using machine_task [OF mo] by (metis imageE option.distinct(1))
    then have n1: "tasks s1 child = None" "mms s1 new_mm = None" using f(4) n(1) n0 by (simp_all add: only_spaces_def)
    have sp: "space_ok m'" using f(6) by (simp add: inherits_def)
    have e: "system_ok arb cs (child # ns) s'" "mm_of s' child = Some m'" "\<forall>q \<in> set (arb # cs). mm_of s' q = mm_of s1 q"
      unfolding f(7) using system_extend [OF ok1 n1(1) f(8) n1(2) p(1) sp] by blast+
    show thesis by (rule forked [OF f(1) e(1) _ f(5) e(2) f(6)]) (use e(3) f(3) in \<open>simp add: members_still_def\<close>)
  next
    fix s'
    assume f: "fork_process env owner binfmt False False new_mm child p s = ret (- ENOMEM, s')"
      "machine_ok arb cs s'" "members_still cs s s'" "only_spaces s s' (arb # cs)"
    show thesis by (rule failed [OF f(1) system_spaces [OF ok f(2,4)] f(3)]) (use f(4) in \<open>simp add: only_spaces_def\<close>)
  qed
qed

lemma join_system:
  assumes ok: "system_ok arb cs ns s" and n: "n \<in> set ns"
  obtains s' cs' where "sys_absys_thread_control n AB_SET_ME_SPECIAL s = ret (0, s')" "system_ok arb cs' (remove1 n ns) s'"
    "set cs' = insert n (set cs)" "same_line s s'"
proof -
  have mo: "machine_ok arb cs s" using ok by (simp add: system_ok_def)
  obtain t m where t: "tasks s n = Some t" "n \<notin> set (arb # cs)" "tk_parent t \<in> set (arb # cs)" "mm_of s n = Some m" "space_ok m"
    "mm_id s n \<noteq> 0" "mm_id s n \<notin> mm_id s ` set (arb # cs)"
    by (rule system_newcomer [OF ok n])
  obtain par where par: "tasks s (tk_parent t) = Some par" by (rule machine_task [OF mo t(3)])
  obtain s' cs' where j: "sys_absys_thread_control n AB_SET_ME_SPECIAL s = ret (0, s')" "machine_ok arb cs' s'"
    "set cs' = insert n (set cs)" "same_line s s'"
    and others: "\<forall>x. x \<noteq> n \<longrightarrow> map_option ab_identity (tasks s' x) = map_option ab_identity (tasks s x)"
    by (rule join_run [OF mo t(1-3) par system_member [OF ok t(3) par] t(4-7)])
  have d: "distinct ns" "distinct (map (mm_id s) ns)" using ok by (auto simp: system_ok_def distinct_map)
  have set: "set (arb # cs') = insert n (set (arb # cs))" using j(3) by auto
  have id: "mm_id s' x = mm_id s x" if "x \<in> set (arb # cs') \<union> set ns" for x
    using same_lineD(5) [OF j(4)] system_newcomer [OF ok] machine_task [OF mo] that n unfolding set
    by (metis UnE insertE option.distinct(1))
  have im: "mm_id s' ` set (arb # cs') = insert (mm_id s n) (mm_id s ` set (arb # cs))"
    using image_cong [OF refl, of "set (arb # cs')" "mm_id s'" "mm_id s"] id unfolding set by auto
  have rest: "set (remove1 n ns) = set ns - {n}" using d(1) by simp
  have "newcomer arb cs' s' x" if x: "x \<in> set (remove1 n ns)" for x
  proof -
    have xn: "x \<in> set ns" "x \<noteq> n" using x rest by auto
    obtain u k where u: "tasks s x = Some u" "x \<notin> set (arb # cs)" "tk_parent u \<in> set (arb # cs)" "mm_of s x = Some k" "space_ok k"
      "mm_id s x \<noteq> 0" "mm_id s x \<notin> mm_id s ` set (arb # cs)"
      by (rule system_newcomer [OF ok xn(1)])
    have "mm_id s x \<noteq> mm_id s n" using d(2) xn n by (auto simp: distinct_map inj_on_def)
    moreover obtain u' where "tasks s' x = Some u'" "tk_parent u' = tk_parent u" using same_lineD(4) [OF j(4) u(1)] by blast
    ultimately show ?thesis
      using u(2-) xn id [of x] same_lineD(1) [OF j(4), of x] unfolding newcomer_def im unfolding set by simp
  qed
  moreover have "map (mm_id s') (remove1 n ns) = map (mm_id s) (remove1 n ns)" using id rest by auto
  moreover have "\<exists>ta. tasks s' arb = Some ta \<and> \<not> is_common ta"
  proof -
    obtain ta where ta: "tasks s arb = Some ta" "\<not> is_common ta" using ok by (auto simp: system_ok_def)
    then obtain tb where "tasks s' arb = Some tb" "ab_identity tb = ab_identity ta" using others t(2) by fastforce
    then show ?thesis using ta(2) by (simp add: is_common_def get_category_def)
  qed
  ultimately have "system_ok arb cs' (remove1 n ns) s'"
    using j(2) d distinct_remove1 [OF d(1), of n] unfolding system_ok_def by (auto simp: distinct_map inj_on_def)
  then show thesis using that j(1,3,4) by blast
qed

text \<open>
  The steps of a group that grows: what its arbiter and its threads do; forks by its members; and newcomers that
  join, in any order.  \<open>cs\<close> are the threads of the group, \<open>ns\<close> the newcomers.
\<close>

inductive system_step :: "kenv \<Rightarrow> pid \<Rightarrow> pid list \<times> pid list \<times> kern \<Rightarrow> pid list \<times> pid list \<times> kern \<Rightarrow> bool" for env arb where
  group: "kernel_step env arb cs s s' \<Longrightarrow> system_step env arb (cs, ns, s) (cs, ns, s')"
| fork: "p \<in> set (arb # cs) \<Longrightarrow> tasks s p = Some t \<Longrightarrow> is_special t \<longrightarrow> owner \<Longrightarrow>
    tasks s child = None \<Longrightarrow> new_mm \<noteq> 0 \<longrightarrow> mms s new_mm = None \<Longrightarrow>
    fork_process env owner binfmt False False new_mm child p s = ret (r, s') \<Longrightarrow>
    system_step env arb (cs, ns, s) (cs, if tasks s' child = None then ns else child # ns, s')"
| join: "n \<in> set ns \<Longrightarrow> sys_absys_thread_control n AB_SET_ME_SPECIAL s = ret (q, s') \<Longrightarrow> ring (tasks s') arb cs' \<Longrightarrow>
    system_step env arb (cs, ns, s) (cs', remove1 n ns, s')"

inductive_cases system_stepE: "system_step env arb (cs, ns, s) (cs', ns', s')"

lemma system_step_keeps:
  assumes ok: "system_ok arb cs ns s" and env: "stale_ends env" "hooks_ok env" "fixed_area env"
    and st: "system_step env arb (cs, ns, s) (cs', ns', s')"
  shows "system_ok arb cs' ns' s' \<and> set cs \<subseteq> set cs'"
  using st
proof (rule system_stepE)
  assume c: "cs' = cs" "ns' = ns" and st: "kernel_step env arb cs s s'"
  have "machine_ok arb cs s" using ok by (simp add: system_ok_def)
  then have k: "machine_ok arb cs s'" "only_spaces s s' (arb # cs)" using kernel_step_keeps [OF _ env st] by simp_all
  show ?thesis using system_spaces [OF ok k] by (simp add: c)
next
  fix p t owner child new_mm binfmt r
  assume c: "cs = cs'" "ns' = (if tasks s' child = None then ns else child # ns)" and q: "p = arb \<or> p \<in> set cs'"
    and t: "tasks s p = Some t" "is_special t \<longrightarrow> owner" "tasks s child = None" "new_mm \<noteq> 0 \<longrightarrow> mms s new_mm = None"
    and f: "fork_process env owner binfmt False False new_mm child p s = ret (r, s')"
  have p: "p \<in> set (arb # cs)" using q c(1) by simp
  show ?thesis
  proof (rule fork_system [OF ok p t, of env binfmt])
    fix s1 m m'
    assume a: "fork_process env owner binfmt False False new_mm child p s = ret (child, s1)" "system_ok arb cs (child # ns) s1"
    have "tasks s1 child \<noteq> None" by (rule system_newcomer [OF a(2), of child]) simp_all
    moreover have "s1 = s'" using a(1) f by simp
    ultimately show ?thesis using a(2) c by auto
  next
    fix s1
    assume a: "fork_process env owner binfmt False False new_mm child p s = ret (- ENOMEM, s1)" "system_ok arb cs ns s1" "tasks s1 = tasks s"
    then have "s1 = s'" using f by simp
    then show ?thesis using a(2,3) c t(3) by simp
  qed
next
  fix n q
  assume n: "n \<in> set ns" "sys_absys_thread_control n AB_SET_ME_SPECIAL s = ret (q, s')" "ring (tasks s') arb cs'" "ns' = remove1 n ns"
  obtain s1 cs1 where j: "sys_absys_thread_control n AB_SET_ME_SPECIAL s = ret (0, s1)" "system_ok arb cs1 (remove1 n ns) s1"
    "set cs1 = insert n (set cs)" by (rule join_system [OF ok n(1)])
  have s1: "s1 = s'" using j(1) n(2) by simp
  have "ring (tasks s') arb cs1" using j(2) s1 by (simp add: system_ok_def machine_ok_def group_spaces_def group_def)
  then have "cs1 = cs'" using ring_unique n(3) by blast
  then show ?thesis using j n(4) s1 by auto
qed

section \<open>The properties of a group that grows\<close>


text \<open>
  Property C11.  A fork by a member of a sound group, with the copy of its address space, returns the new task
  or \<^verbatim>\<open>-ENOMEM\<close>; it leaves the group sound and gives no thread a right it did not have.  When the new
  task then asks to become a special thread it joins the group, in an address space of its own with the areas of its
  parent that are to be copied, and the group with the new thread is sound again.
\<close>

theorem spawn_joins:
  assumes ok: "system_ok arb cs ns s" and p: "p \<in> set (arb # cs)" "tasks s p = Some t" "is_special t \<longrightarrow> owner"
    and n: "tasks s child = None" "new_mm \<noteq> 0 \<longrightarrow> mms s new_mm = None"
  shows "\<exists>r s1. fork_process env owner binfmt False False new_mm child p s = ret (r, s1) \<and> members_still cs s s1 \<and>
    (r = - ENOMEM \<and> system_ok arb cs ns s1 \<and> tasks s1 = tasks s \<or>
     r = child \<and> system_ok arb cs (child # ns) s1 \<and>
     (\<exists>s2 cs' m m'. sys_absys_thread_control child AB_SET_ME_SPECIAL s1 = ret (0, s2) \<and> system_ok arb cs' ns s2 \<and>
        set cs' = insert child (set cs) \<and> mm_of s p = Some m \<and> mm_of s2 child = Some m' \<and> inherits m m'))"
proof (rule fork_system [OF ok p n, of env binfmt])
  fix s1 m m'
  assume f: "fork_process env owner binfmt False False new_mm child p s = ret (child, s1)"
    "system_ok arb cs (child # ns) s1" "members_still cs s s1" "mm_of s p = Some m" "mm_of s1 child = Some m'" "inherits m m'"
  obtain s2 cs' where j: "sys_absys_thread_control child AB_SET_ME_SPECIAL s1 = ret (0, s2)" "system_ok arb cs' ns s2"
    "set cs' = insert child (set cs)" "same_line s1 s2" by (rule join_system [OF f(2), of child]) simp_all
  then have "mm_of s2 child = Some m'" using same_lineD(1) f(5) by simp
  then show ?thesis using f j by blast
qed blast

lemma group_example_system: "system_ok 1 [8, 7] [] group_example"
proof -
  have "\<not> is_common (task_example 8 3 0x10)" by (simp add: is_common_def get_category_def task_example_def)
  then show ?thesis using group_example_machine by (simp add: system_ok_def group_example_facts)
qed

lemma fork_example: "tasks group_example 5 = None" "(0x50 :: addr) \<noteq> 0 \<longrightarrow> mms group_example 0x50 = None"
  by (simp_all add: group_example_def)

theorem spawn_joins_witness:
  "\<exists>r s1. fork_process env_example True True False False 0x50 5 8 group_example = ret (r, s1) \<and> members_still [8, 7] group_example s1 \<and>
    (r = - ENOMEM \<and> system_ok 1 [8, 7] [] s1 \<or>
     r = 5 \<and> (\<exists>s2 cs' m'. sys_absys_thread_control 5 AB_SET_ME_SPECIAL s1 = ret (0, s2) \<and> system_ok 1 cs' [] s2 \<and>
       set cs' = {5, 8, 7} \<and> mm_of s2 5 = Some m' \<and> inherits (mm_example [vma_example]) m'))"
  using spawn_joins [OF group_example_system _ group_example_facts(2) _ fork_example, of True env_example True] group_example_facts(6) by auto


end
