(* ===== verification/Spec2Isabelle.thy ===== *)
theory Spec2Isabelle
  imports Authority Bin_Order Heap_Reuse Lib_Client Enforcement Kernel_Spawn
begin

text \<open>
  ArbiterThread: a heap shared by threads of different privilege, with a patched Linux kernel
  that keeps the threads apart.

  \<^bold>\<open>The program.\<close>  A group is an arbiter process and the threads it controls, each a process with an
  address space of its own.  The threads share the channel, addresses \<open>0x80000000\<close> to \<open>0xA0000000\<close>,
  page by page, with the access their labels give them.  The parts, under \<^verbatim>\<open>src/arbiter\<close>:
    \<^item> \<^verbatim>\<open>monitor\<close> is the arbiter.  It receives requests over a socket (\<^verbatim>\<open>arbiter.c\<close>, \<^verbatim>\<open>client.c\<close>, \<^verbatim>\<open>ipc.c\<close>), checks
      labels (\<^verbatim>\<open>label.c\<close>) and allocates channel memory (\<^verbatim>\<open>ablib_malloc.c\<close>, \<^verbatim>\<open>ablib_free.c\<close>, \<^verbatim>\<open>ablib_realloc.c\<close>,
      \<^verbatim>\<open>ablib_calloc.c\<close>, \<^verbatim>\<open>ablib_brk.c\<close>, \<^verbatim>\<open>ablib_sbrk.c\<close>).  All blocks of one label live in units of 40960 bytes;
      the arbiter sets the protection of a unit in the address space of every thread.
    \<^item> \<^verbatim>\<open>client_module/lib_client.c\<close> is the library a thread calls; \<^verbatim>\<open>common\<close> holds the message formats and the
      linked list.
    \<^item> \<^verbatim>\<open>arbiter-kernel/linux-2.6.32\<close> is the kernel.  The calls \<^verbatim>\<open>absys_mmap\<close>, \<^verbatim>\<open>absys_brk\<close>, \<^verbatim>\<open>absys_munmap\<close>,
      \<^verbatim>\<open>absys_mprotect\<close> let the arbiter of a group change the address space of a thread of the group;
      \<^verbatim>\<open>absys_thread_control\<close> makes arbiters and threads; page faults, \<^verbatim>\<open>mprotect\<close> and the copy of page
      tables at a fork treat pages marked \<^verbatim>\<open>VM_AB_CONTROL\<close> differently.

  \<^bold>\<open>The model.\<close>  Words are \<open>32 word\<close> (i386), so arithmetic wraps as in C.  A call that may fail is of type
  \<open>'a res = (cerr + 'a) option\<close>: \<open>None\<close> is a run that never returns, \<open>Inl\<close> an assertion, abort, segmentation
  fault, deadlock or undefined behaviour, \<open>Inr\<close> a result.  Stateful code is in the state monad \<open>('s, 'a) st\<close>
  over it (\<open>sb\<close>, \<open>sret\<close>, \<open>sguard\<close>).  Loops over lists in memory are \<open>partial_function (option)\<close>; that they
  return is proved in the theorems on them.  The theories, in the order of import:
    \<^item> \<open>AB_Prelude\<close>: results, the state monad, the locale \<open>state_frame\<close>, lemmas on words.
    \<^item> \<open>Label\<close> (\<^verbatim>\<open>label.c\<close>, \<^verbatim>\<open>ab_api.h\<close>), \<open>Linked_List\<close> (\<^verbatim>\<open>linked_list.c\<close> at pointer level, the locale
      \<open>list_interface\<close>), \<open>Monitor_State\<close> (the structs and globals; the heap as a map of words).
    \<^item> \<open>Chunk\<close> (the macros of \<^verbatim>\<open>ablib_malloc.h\<close>, bins, \<^verbatim>\<open>unlink\<close>), \<open>Units\<close> (units, break, \<^verbatim>\<open>prot_update\<close>,
      \<^verbatim>\<open>malloc_update\<close>), \<open>AB_Free\<close>, \<open>AB_Malloc\<close>, \<open>AB_Realloc\<close> (the allocator, stage by stage).
    \<^item> \<open>Protocol\<close> (message structs as little-endian byte images), \<open>Arbiter\<close> (client table, handlers,
      dispatch, server loop), \<open>Lib_Client\<close> (the client library).
    \<^item> \<open>Alloc_Frame\<close>, \<open>Request_Handling\<close>, \<open>Authority\<close>, \<open>Bin_Order\<close>, \<open>Malloc_Correct\<close>, \<open>Heap_Reuse\<close>: theorems on
      the monitor.
    \<^item> \<open>Kernel_VMA\<close> (memory areas and unmapping: \<^verbatim>\<open>mm/mmap.c\<close>, \<^verbatim>\<open>mm/memory.c\<close>, \<^verbatim>\<open>mm/mprotect.c\<close>), \<open>Kernel_Entries\<close>
      (page table entries and their rewriting under \<^verbatim>\<open>mprotect\<close>: \<^verbatim>\<open>arch/x86\<close>, \<^verbatim>\<open>mm/mprotect.c\<close>), \<open>Kernel_Task\<close> (the
      ring of a group, \<^verbatim>\<open>absys_thread_control\<close>), \<open>Kernel_Absys\<close> (the system calls: \<^verbatim>\<open>kernel/absys_mmap.c\<close>,
      \<^verbatim>\<open>kernel/absys_mprotect.c\<close>, parts of \<^verbatim>\<open>mm/mmap.c\<close>), \<open>Kernel_Pages\<close> (faults, \<^verbatim>\<open>dup_mmap\<close>: \<^verbatim>\<open>arch/x86/mm/fault.c\<close>,
      \<^verbatim>\<open>mm/memory.c\<close>, \<^verbatim>\<open>kernel/fork.c\<close>).
    \<^item> \<open>VMA_Ops\<close>, \<open>Kernel_Agree\<close>, \<open>Kernel_Protect\<close>, \<open>Kernel_Calls\<close>, \<open>Kernel_Paging\<close>, \<open>Kernel_Control\<close>, \<open>Kernel_Mapping\<close>,
      \<open>Kernel_Safety\<close>, \<open>Page_Tables\<close>, \<open>Kernel_Fork\<close>: theorems on the kernel.  \<open>Kernel_Machine\<close>: a group as a state
      machine, the step relations \<open>thread_step\<close> and \<open>kernel_step\<close>.  \<open>Kernel_Spawn\<close>: \<^verbatim>\<open>copy_mm\<close>, and the group
      with forks and new threads, \<open>system_step\<close>.
    \<^item> \<open>Enforcement\<close> and this theory: the monitor running on the kernel.

  \<^bold>\<open>How state and operations correspond to the code.\<close>  \<open>mon\<close> holds the globals of the arbiter; \<open>mem\<close> is the
  channel by word address; \<open>mstates\<close>, \<open>units\<close>, \<open>clients\<close> and list nodes are maps from pointers to records.  The
  monitor sees the kernel as an oracle \<open>sys_ret\<close> on the trace of its calls, \<open>sys_trace\<close>.  \<open>kern\<close> holds tasks by
  pid and address spaces by pointer; an \<open>mm\<close> has its VMAs as a list sorted by address, abstracted by
  \<open>flags_at\<close>, the flags at an address.  \<open>absys_call\<close> is the system call table; \<open>run_calls\<close> runs a trace of
  the monitor on a kernel state.  The page table of an \<open>mm\<close>, \<open>mm_pgd\<close>, is a function from page addresses to
  entries; \<open>user_access\<close> is an access of a thread: the processor checks the entry, and what it does not
  permit goes to \<^verbatim>\<open>do_page_fault\<close>.  \<open>kenv\<close> holds what unmodelled kernel code answers: memory limits, allocation of pages and VMAs, security modules.

  \<^bold>\<open>What is shown.\<close>
    \<^item> End to end (this theory): after a new unit is obtained, every other thread can read and write it
      exactly as \<^verbatim>\<open>check_mem_prot\<close> says, over every run of the threads that follows.
    \<^item> Labels: \<^verbatim>\<open>check_label\<close> and \<^verbatim>\<open>check_mem_prot\<close> decide the set-based flow rules; flow is a preorder
      for given ownership (locale \<open>flow_order\<close>), chains of flows keep secrecy; categories are fresh.
    \<^item> The server refines an abstract machine of grants, spawns and joins (\<open>Authority\<close>), from which
      follows that authority is conserved over any run.  Requests are attributed, dropped, denied
      and answered as they should be (\<open>Request_Handling\<close>).  That the allocator leaves clients, lock and
      sent messages alone is proved once, in the locales \<open>heap_frame\<close> and \<open>alloc_frame\<close>.
    \<^item> The allocator: chunks and bins, the order of large bins, the first block of a unit, reuse through fast
      bins, clearing by \<^verbatim>\<open>calloc\<close>, the two protection loops, placement of mapped units.
    \<^item> The kernel: lookup in the VMA tree; exact effect of the calls on the flags of every address, and
      that only the arbiter can make them; the calls return on every well-formed group without a
      kernel fault and keep it well-formed (the locales \<open>space_loop\<close> and \<open>safe_loop\<close> are the contract of
      the loops over a group); a thread's own \<^verbatim>\<open>mprotect\<close> cannot touch controlled pages; over every run of
      a group, forks and new threads included, page table entries permit only what the flags of an area permit, and
      the threads gain no access to controlled pages by what they do; protection taken away is gone at the
      next access; which pages a fork shares, and that a forked task joins the group of its parent.
    \<^item> Errors, each proved on the code as it is: a request too large to pad wedges the allocator, a
      request that just does not fit a unit leaves it open to all, a thread can take over its group or
      leave it, a hole in a sibling's mapping stops the kernel, a page given back for writing is copied.

  \<^bold>\<open>Bounds and fuel.\<close>  \<open>ablib_malloc\<close> and \<open>__malloc_alloc\<close> call each other; the fuel of \<open>ablib_malloc_fuel\<close> is 2
  and \<open>malloc_fuel_enough\<close> shows that more changes nothing.  No other definition has fuel.  Units are 40960
  bytes, so a chunk of a unit is at most 40928; there are 127 categories.

  \<^bold>\<open>Not modelled.\<close>  Sockets, \<^verbatim>\<open>fork\<close>, \<^verbatim>\<open>exec\<close>, the clock and debug output are inputs or left out (pure I/O).
  The \<^verbatim>\<open>__do_check_*\<close> routines of \<^verbatim>\<open>ablib_malloc.c\<close> do not compile with the current structs.  Of the kernel, what
  the patches neither change nor rely on is left out: semaphores and concurrency, reverse maps, memory
  policies, statistics, the TLB, the contents of pages, swapping.  File mappings cannot be reached
  from the calls, which pass no file; huge pages are a parameter.  The levels of the page tables are
  one map.  A fork is modelled from the copy of the address space on; what a forked task does before it
  joins the group, and the exit of threads, are not: neither is touched by the patches.  Test programs are not part of the system.  Memory is given to threads by \<^verbatim>\<open>absys_brk\<close> in the
  end-to-end theorem; the mapped units of large requests are covered separately, in \<open>Units\<close> for the
  monitor and \<open>Kernel_Mapping\<close> for the kernel.
\<close>


lemma kernel_example: "kernel_ready env_example group_example 1 [8, 7] 0x80000000"
  using group_example_machine
  by (simp add: kernel_ready_def unit_room_def hooks_ok_def group_example_facts page_aligned_def PAGE_MASK_def)

definition system_example :: mon where
  "system_example = fresh_example\<lparr>sys_ret := kernel_ret (absys_call env_example 1 (\<lambda>_. sret 0)) group_example\<rparr>"

lemma system_example_env: "fresh_unit_env system_example 8 0x500 0x80000000 0x9000"
proof -
  obtain s' where "sys_absys_brk env_example 1 8 0x8000A000 group_example = ret (0x8000A000, s')" using sys_brk_example by blast
  then have "kernel_ret (absys_call env_example 1 (\<lambda>_. sret 0)) group_example [] (Absys_brk 8 0x8000A000) = 0x8000A000"
    by (simp add: kernel_ret_def absys_call_def) (simp add: ret_def)
  then show ?thesis
    using fresh_example_env
    by (auto simp: fresh_unit_env_def system_example_def fresh_example_def units_example_def boot_def UNIT_SIZE_def channel_mapped_def)
qed


text \<open>
  Property C36.  The unit left behind by a request of more than 40928 padded bytes is open to every
  thread of the group, whatever its labels: the kernel maps it readable and writable and the
  monitor returns without setting any protection, while the unit is registered as the top of
  the allocator of the label.
\<close>

theorem stranded_unit_exposed:
  assumes env: "fresh_unit_env s pid av b u" and nb: "40928 < unat nb" "unat nb < 40960"
    and sys: "sys_ret s = kernel_ret (absys_call env arb stock) k0" "run_calls (absys_call env arb stock) (sys_trace s) k0 = ret k"
    and k: "kernel_ready env k arb ps b" "pid \<in> set ps"
  shows "\<exists>t k'. alloc_unit pid nb av L s = ret (0, t) \<and> unit_added s t av b u b \<and>
    run_calls (absys_call env arb stock) (sys_trace t) k0 = ret k' \<and> (\<forall>p \<in> set ps. unit_faults env k' ps p b PROT_RW)"
proof -
  obtain k1 where k1: "absys_call env arb stock (Absys_brk pid (b + UNIT_SIZE)) k = ret (b + UNIT_SIZE, k1)" "machine_ok arb ps k1"
    "tasks k1 = tasks k" "\<forall>q \<in> set ps. \<exists>m. mm_of k1 q = Some m \<and> vmas_ok (mm_mmap m) \<and> unit_open env b m"
    by (rule unit_granted [OF env k sys])
  obtain t where t: "alloc_unit pid nb av L s = ret (0, t)" "unit_added s t av b u b"
    "sys_trace t = sys_trace s @ [Absys_brk pid (b + UNIT_SIZE)]"
    using alloc_unit_gap [OF env nb] by blast
  have "run_calls (absys_call env arb stock) (sys_trace t) k0 = ret k1" by (simp add: t(3) run_calls_append sys(2) k1(1))
  moreover have "unit_faults env k1 ps p b PROT_RW" if "p \<in> set ps" for p
    using unit_access_faults [OF k1(2) that] k1(4) that unit_open_access by blast
  ultimately show ?thesis using t(1,2) by blast
qed

theorem stranded_unit_exposed_witness:
  "\<exists>t k'. alloc_unit 8 40936 0x500 [5, 0, 0, 0, 0, 0, 0, 0] system_example = ret (0, t) \<and>
    run_calls (absys_call env_example 1 (\<lambda>_. sret 0)) (sys_trace t) group_example = ret k' \<and>
    unit_faults env_example k' [8, 7] 7 0x80000000 PROT_RW"
proof -
  have s: "sys_trace system_example = []" by (simp add: system_example_def fresh_example_def units_example_def boot_def)
  show ?thesis
    using stranded_unit_exposed [OF system_example_env, of 40936 env_example 1 "\<lambda>_. sret 0" group_example group_example "[8, 7]"
        "[5, 0, 0, 0, 0, 0, 0, 0]"] s kernel_example
    by (simp add: system_example_def) blast
qed

end
